(* ===== verification/Prelude.thy ===== *)
theory Prelude
  imports Main "HOL-Library.Word"
begin

text \<open>
  The library every component shares: the outcome type of a C function (a value, or the way
  the process stopped), the loop combinator, machine integers as bytes in memory order,
  buffers that are read and written at an offset, and C strings.
\<close>

unbundle bit_operations_syntax

named_theorems frame \<open>what an operation leaves unchanged\<close>
named_theorems wp \<open>weakest preconditions\<close>
named_theorems layout \<open>reads of a buffer written field by field\<close>

section \<open>Outcomes\<close>

text \<open>
  A C function either returns or stops the process. \<open>Hang\<close> is a call that never returns.
\<close>

datatype fault =
    NullDeref            \<comment> \<open>a NULL pointer is dereferenced\<close>
  | WildPointer          \<comment> \<open>an address that was never allocated is dereferenced\<close>
  | BufferOverflow       \<comment> \<open>a write past the end of a buffer\<close>
  | OutOfBounds          \<comment> \<open>an array is indexed past its end\<close>
  | SelfDeadlock         \<comment> \<open>a thread locks a mutex it already holds\<close>
  | Hang                 \<comment> \<open>a loop that never ends\<close>
  | ProcessExit int      \<comment> \<open>a call of exit\<close>

type_synonym 'a res = "fault + 'a"

definition bnd :: "'a res \<Rightarrow> ('a \<Rightarrow> 'b res) \<Rightarrow> 'b res" where
  "bnd r f = (case r of Inl e \<Rightarrow> Inl e | Inr a \<Rightarrow> f a)"

lemma bnd_simps [simp]:
  "bnd (Inl e) f = Inl e"
  "bnd (Inr a) f = f a"
  by (simp_all add: bnd_def)

lemma bnd_Inr_iff: "bnd r f = Inr b \<longleftrightarrow> (\<exists>a. r = Inr a \<and> f a = Inr b)"
  by (cases r) simp_all

lemma bnd_Inl_iff: "bnd r f = Inl e \<longleftrightarrow> r = Inl e \<or> (\<exists>a. r = Inr a \<and> f a = Inl e)"
  by (cases r) simp_all

lemma bnd_InrE:
  assumes "bnd r f = Inr b"
  obtains a where "r = Inr a" and "f a = Inr b"
  using assms by (auto simp: bnd_Inr_iff)

lemma bnd_assoc: "bnd (bnd r f) g = bnd r (\<lambda>a. bnd (f a) g)"
  by (cases r) simp_all

lemma map_sum_bnd: "bnd (map_sum id g r) f = bnd r (\<lambda>a. f (g a))"
  by (cases r) simp_all

lemma bnd_cong [fundef_cong]:
  "r = r' \<Longrightarrow> (\<And>a. r' = Inr a \<Longrightarrow> f a = g a) \<Longrightarrow> bnd r f = bnd r' g"
  by (cases r') simp_all

lemma bnd_if: "bnd (if c then r else s) f = (if c then bnd r f else bnd s f)"
  by simp

text \<open>
  Weakest preconditions: \<open>ensures r Q\<close> if \<open>r\<close>, when it returns, returns a value with \<open>Q\<close>;
  \<open>returns r Q\<close> if it does return and with \<open>Q\<close>.
\<close>

definition ensures :: "'a res \<Rightarrow> ('a \<Rightarrow> bool) \<Rightarrow> bool" where
  "ensures r Q \<longleftrightarrow> (\<forall>a. r = Inr a \<longrightarrow> Q a)"

definition returns :: "'a res \<Rightarrow> ('a \<Rightarrow> bool) \<Rightarrow> bool" where
  "returns r Q \<longleftrightarrow> (\<exists>a. r = Inr a \<and> Q a)"

lemma ensures_simps [wp, simp]:
  "ensures (Inr a) Q = Q a"
  "ensures (Inl e) Q = True"
  by (simp_all add: ensures_def)

lemma returns_simps [wp, simp]:
  "returns (Inr a) Q = Q a"
  "returns (Inl e) Q = False"
  by (simp_all add: returns_def)

lemma ensures_bnd [wp]: "ensures (bnd r f) Q = ensures r (\<lambda>a. ensures (f a) Q)"
  by (cases r) simp_all

lemma returns_bnd [wp]: "returns (bnd r f) Q = returns r (\<lambda>a. returns (f a) Q)"
  by (cases r) simp_all

lemma ensures_if [wp]: "ensures (if c then r else s) Q = ((c \<longrightarrow> ensures r Q) \<and> (\<not> c \<longrightarrow> ensures s Q))"
  by simp

lemma returns_if [wp]: "returns (if c then r else s) Q = ((c \<longrightarrow> returns r Q) \<and> (\<not> c \<longrightarrow> returns s Q))"
  by simp

lemma ensures_map_sum [wp]: "ensures (map_sum id f r) Q = ensures r (\<lambda>a. Q (f a))"
  by (cases r) simp_all

lemma returns_map_sum [wp]: "returns (map_sum id f r) Q = returns r (\<lambda>a. Q (f a))"
  by (cases r) simp_all

lemma ensuresD: "ensures r Q \<Longrightarrow> r = Inr a \<Longrightarrow> Q a"
  by (simp add: ensures_def)

lemma ensures_mono: "ensures r P \<Longrightarrow> (\<And>a. P a \<Longrightarrow> Q a) \<Longrightarrow> ensures r Q"
  by (simp add: ensures_def)

lemma ensures_bndI: "ensures r P \<Longrightarrow> (\<And>a. P a \<Longrightarrow> ensures (f a) Q) \<Longrightarrow> ensures (bnd r f) Q"
  by (cases r) auto

lemma returns_bndI: "returns r P \<Longrightarrow> (\<And>a. P a \<Longrightarrow> returns (f a) Q) \<Longrightarrow> returns (bnd r f) Q"
  by (cases r) auto

lemma ensures_True [simp]: "ensures r (\<lambda>a. True)"
  by (simp add: ensures_def)

lemma ensures_conj: "ensures r P \<Longrightarrow> ensures r Q \<Longrightarrow> ensures r (\<lambda>a. P a \<and> Q a)"
  by (simp add: ensures_def)

lemma returns_mono: "returns r P \<Longrightarrow> (\<And>a. P a \<Longrightarrow> Q a) \<Longrightarrow> returns r Q"
  by (auto simp: returns_def)

lemma returns_ensures: "returns r P \<Longrightarrow> ensures r Q \<Longrightarrow> returns r (\<lambda>a. P a \<and> Q a)"
  by (auto simp: returns_def ensures_def)

lemma returnsE: "returns r Q \<Longrightarrow> (\<And>a. r = Inr a \<Longrightarrow> Q a \<Longrightarrow> thesis) \<Longrightarrow> thesis"
  by (auto simp: returns_def)

section \<open>Loops\<close>

text \<open>
  The body of a loop maps the loop's variables to a fault, to the variables of the next
  round (\<open>Inr (Inl s)\<close>) or to the value the loop ends with (\<open>Inr (Inr r)\<close>).
  \<open>loop_opt\<close> is the least fixed point, so that \<open>None\<close> is exactly a loop that does not end,
  and \<open>loop\<close> turns that into the outcome \<open>Hang\<close>.
\<close>

partial_function (option) loop_opt :: "('s \<Rightarrow> ('s + 'r) res) \<Rightarrow> 's \<Rightarrow> 'r res option" where
  "loop_opt body s =
     (case body s of
        Inl e \<Rightarrow> Some (Inl e)
      | Inr q \<Rightarrow> (case q of Inl s' \<Rightarrow> loop_opt body s' | Inr r \<Rightarrow> Some (Inr r)))"

definition loop :: "('s \<Rightarrow> ('s + 'r) res) \<Rightarrow> 's \<Rightarrow> 'r res" where
  "loop body s = (case loop_opt body s of None \<Rightarrow> Inl Hang | Some r \<Rightarrow> r)"

lemma loop_unfold:
  "loop body s = bnd (body s) (\<lambda>q. case q of Inl s' \<Rightarrow> loop body s' | Inr r \<Rightarrow> Inr r)"
  unfolding loop_def bnd_def
  by (subst loop_opt.simps) (simp split: sum.split)

lemma loop_next: "body s = Inr (Inl s') \<Longrightarrow> loop body s = loop body s'"
  by (subst loop_unfold) simp

lemma loop_done: "body s = Inr (Inr r) \<Longrightarrow> loop body s = Inr r"
  by (subst loop_unfold) simp

lemma loop_fault: "body s = Inl e \<Longrightarrow> loop body s = Inl e"
  by (subst loop_unfold) simp

text \<open>
  A property kept by every round holds of whatever the loop returns.
\<close>

lemma loop_opt_inv:
  fixes body :: "'s \<Rightarrow> ('s + 'r) res"
  assumes ret: "loop_opt body s = Some q"
    and round: "\<And>s s'. I s \<Longrightarrow> body s = Inr (Inl s') \<Longrightarrow> I s'"
    and last: "\<And>s r. I s \<Longrightarrow> body s = Inr (Inr r) \<Longrightarrow> Q r"
  shows "I s \<longrightarrow> (\<forall>r. q = Inr r \<longrightarrow> Q r)"
proof (rule loop_opt.raw_induct [where P = "\<lambda>b s q. b = body \<longrightarrow> I s \<longrightarrow> (\<forall>r. q = Inr r \<longrightarrow> Q r)",
      OF _ ret, THEN mp, OF _ refl])
  fix f :: "('s \<Rightarrow> ('s + 'r) res) \<Rightarrow> 's \<Rightarrow> 'r res option" and b s q
  assume IH: "\<And>b s q. f b s = Some q \<Longrightarrow> b = body \<longrightarrow> I s \<longrightarrow> (\<forall>r. q = Inr r \<longrightarrow> Q r)"
    and eq: "(case b s of Inl e \<Rightarrow> Some (Inl e)
      | Inr q \<Rightarrow> (case q of Inl s' \<Rightarrow> f b s' | Inr r \<Rightarrow> Some (Inr r))) = Some q"
  show "b = body \<longrightarrow> I s \<longrightarrow> (\<forall>r. q = Inr r \<longrightarrow> Q r)"
    using eq IH round last by (fastforce split: sum.splits)
qed

lemma loop_inv:
  assumes ret: "loop body s = Inr r"
    and init: "I s"
    and round: "\<And>s s'. I s \<Longrightarrow> body s = Inr (Inl s') \<Longrightarrow> I s'"
    and last: "\<And>s r. I s \<Longrightarrow> body s = Inr (Inr r) \<Longrightarrow> Q r"
  shows "Q r"
proof -
  have "loop_opt body s = Some (Inr r)"
    using ret by (auto simp: loop_def split: option.splits)
  from loop_opt_inv [where I = I and Q = Q, OF this round last] init
  show ?thesis by simp
qed

lemma loop_ensures:
  assumes "I s"
    and "\<And>s. I s \<Longrightarrow> ensures (body s) (\<lambda>q. case q of Inl s' \<Rightarrow> I s' | Inr r \<Rightarrow> Q r)"
  shows "ensures (loop body s) Q"
  unfolding ensures_def
  by (intro allI impI, erule loop_inv [where I = I], rule assms(1))
    (use assms(2) in \<open>fastforce simp: ensures_def\<close>)+

text \<open>
  A loop whose every round decreases a measure ends, and with the invariant the
  result is known to satisfy \<open>Q\<close>.
\<close>

lemma loop_total:
  assumes "I s"
    and step: "\<And>s. I s \<Longrightarrow> (\<exists>s'. body s = Inr (Inl s') \<and> I s' \<and> (m s' :: nat) < m s)
                          \<or> (\<exists>r. body s = Inr (Inr r) \<and> Q r)"
  shows "\<exists>r. loop body s = Inr r \<and> Q r"
  using assms(1)
proof (induction "m s" arbitrary: s rule: less_induct)
  case less
  from step [OF less.prems] show ?case
    using less.hyps by (auto simp: loop_next loop_done)
qed

section \<open>Machine integers\<close>

type_synonym u8 = "8 word"
type_synonym u16 = "16 word"
type_synonym u32 = "32 word"
type_synonym cint = "32 word" \<comment> \<open>C's \<open>int\<close> and \<open>long\<close> on the 32-bit target, two's complement\<close>

text \<open>A 16-bit and a 32-bit integer in memory, low byte first, and in network order.\<close>

definition le16 :: "u16 \<Rightarrow> u8 list" where
  "le16 x = [ucast x, ucast (drop_bit 8 x)]"

definition be16 :: "u16 \<Rightarrow> u8 list" where
  "be16 x = [ucast (drop_bit 8 x), ucast x]"

definition le32 :: "u32 \<Rightarrow> u8 list" where
  "le32 x = [ucast x, ucast (drop_bit 8 x), ucast (drop_bit 16 x), ucast (drop_bit 24 x)]"

definition un16 :: "u8 \<Rightarrow> u8 \<Rightarrow> u16" where
  "un16 a b = ucast a OR push_bit 8 (ucast b)"

definition un32 :: "u8 \<Rightarrow> u8 \<Rightarrow> u8 \<Rightarrow> u8 \<Rightarrow> u32" where
  "un32 a b c d = ucast a OR push_bit 8 (ucast b) OR push_bit 16 (ucast c) OR push_bit 24 (ucast d)"

lemma length_le [simp]: "length (le16 x) = 2" "length (be16 x) = 2" "length (le32 y) = 4"
  by (simp_all add: le16_def be16_def le32_def)

lemma un16_le16: "un16 (ucast x) (ucast (drop_bit 8 x)) = x"
  unfolding un16_def by (rule bit_word_eqI) (auto simp: bit_simps)

lemma word_byte_cases:
  "n < LENGTH(32) \<Longrightarrow> n < 8 \<or> (\<exists>m. n = 8 + m \<and> m < 8) \<or> (\<exists>m. n = 16 + m \<and> m < 8)
    \<or> (\<exists>m. n = 24 + m \<and> m < 8)"
  by simp presburger

lemma un32_le32:
  "un32 (ucast x) (ucast (drop_bit 8 x)) (ucast (drop_bit 16 x)) (ucast (drop_bit 24 x)) = (x :: u32)"
proof (rule bit_word_eqI)
  fix n assume n: "n < LENGTH(32)"
  consider "n < 8" | m where "n = 8 + m" "m < 8" | m where "n = 16 + m" "m < 8"
    | m where "n = 24 + m" "m < 8"
    using word_byte_cases [OF n] by blast
  then show "bit (un32 (ucast x) (ucast (drop_bit 8 x)) (ucast (drop_bit 16 x))
      (ucast (drop_bit 24 x))) n = bit x n"
    by cases (simp_all add: un32_def bit_simps)
qed

section \<open>Buffers\<close>

text \<open>
  \<open>poke off bs buf\<close> is \<open>memcpy(buf + off, bs, length bs)\<close>, \<open>peek off n buf\<close> the \<open>n\<close> bytes
  at \<open>off\<close>. Both are used inside the buffer only; the components check the bounds where
  the code can leave them.
\<close>

definition poke :: "nat \<Rightarrow> u8 list \<Rightarrow> u8 list \<Rightarrow> u8 list" where
  "poke off bs buf = take off buf @ bs @ drop (off + length bs) buf"

definition peek :: "nat \<Rightarrow> nat \<Rightarrow> u8 list \<Rightarrow> u8 list" where
  "peek off n buf = take n (drop off buf)"

lemma length_poke [simp]: "off + length bs \<le> length buf \<Longrightarrow> length (poke off bs buf) = length buf"
  by (simp add: poke_def)

lemma length_peek [simp]: "off + n \<le> length buf \<Longrightarrow> length (peek off n buf) = n"
  by (simp add: peek_def)

lemma peek_poke_same [layout]:
  "n = length bs \<Longrightarrow> off + length bs \<le> length buf \<Longrightarrow> peek off n (poke off bs buf) = bs"
  by (simp add: peek_def poke_def)

lemma peek_poke_before [layout]:
  "off + n \<le> off' \<Longrightarrow> off' \<le> length buf \<Longrightarrow> peek off n (poke off' bs buf) = peek off n buf"
  by (simp add: peek_def poke_def drop_take)

lemma peek_poke_after [layout]:
  "off' + length bs \<le> off \<Longrightarrow> off' + length bs \<le> length buf \<Longrightarrow>
   peek off n (poke off' bs buf) = peek off n buf"
  by (simp add: peek_def poke_def)

lemma nth_poke_same [layout]:
  "off \<le> length buf \<Longrightarrow> i < length bs \<Longrightarrow> poke off bs buf ! (off + i) = bs ! i"
  by (simp add: poke_def nth_append)

lemma peek_append_left [layout]: "off + n \<le> length xs \<Longrightarrow> peek off n (xs @ ys) = peek off n xs"
  by (simp add: peek_def)

lemma peek_append_right [layout]:
  "length xs \<le> off \<Longrightarrow> peek off n (xs @ ys) = peek (off - length xs) n ys"
  by (simp add: peek_def)

lemma peek_all: "length xs = n \<Longrightarrow> peek 0 n xs = xs"
  by (simp add: peek_def)

text \<open>Reading an integer out of a buffer.\<close>

definition get8 :: "nat \<Rightarrow> u8 list \<Rightarrow> u8" where
  "get8 off buf = buf ! off"

definition get32 :: "nat \<Rightarrow> u8 list \<Rightarrow> u32" where
  "get32 off buf = un32 (buf ! off) (buf ! (off + 1)) (buf ! (off + 2)) (buf ! (off + 3))"

lemma get8_peek: "off < length buf \<Longrightarrow> get8 off buf = peek off 1 buf ! 0"
  by (simp add: get8_def peek_def)

lemma get32_peek: "off + 4 \<le> length buf \<Longrightarrow> get32 off buf = get32 0 (peek off 4 buf)"
  by (simp add: get32_def peek_def)

lemma get32_le32 [simp]: "get32 0 (le32 x) = x"
  by (simp add: get32_def le32_def un32_le32)

lemma get8_from: "off < length buf \<Longrightarrow> peek off 1 buf = [x] \<Longrightarrow> get8 off buf = x"
  by (simp add: get8_peek)

lemma get32_from: "off + 4 \<le> length buf \<Longrightarrow> peek off 4 buf = le32 x \<Longrightarrow> get32 off buf = x"
  by (simp add: get32_peek)

section \<open>C strings\<close>

text \<open>
  The string in a buffer is what stands before its first NUL. \<open>strncmp\<close> compares at most
  \<open>n\<close> bytes and stops at a NUL; \<open>strcpy\<close> into an array overflows when the string and its NUL
  do not fit.
\<close>

definition cstr :: "u8 list \<Rightarrow> u8 list" where
  "cstr bs = takeWhile (\<lambda>b. b \<noteq> 0) bs"

definition strncmp_eq :: "nat \<Rightarrow> u8 list \<Rightarrow> u8 list \<Rightarrow> bool" where
  "strncmp_eq n a b \<longleftrightarrow> take n (cstr a @ [0]) = take n (cstr b @ [0])"

definition strcpy :: "u8 list \<Rightarrow> u8 list \<Rightarrow> u8 list res" where
  "strcpy dst src =
     (if length (cstr src) < length dst
      then Inr (poke 0 (cstr src @ [0]) dst) else Inl BufferOverflow)"

definition has_nul :: "u8 list \<Rightarrow> bool" where
  "has_nul bs \<longleftrightarrow> 0 \<in> set bs"

definition bytes_of :: "string \<Rightarrow> u8 list" where
  "bytes_of s = map of_char s"

lemma cstr_idem [simp]: "cstr (cstr bs) = cstr bs"
  by (simp add: cstr_def takeWhile_idem)

lemma cstr_no_nul: "0 \<notin> set (cstr bs)"
  by (auto simp: cstr_def dest: set_takeWhileD)

lemma cstr_id: "0 \<notin> set bs \<Longrightarrow> cstr bs = bs"
  by (auto simp: cstr_def takeWhile_eq_all_conv)

lemma cstr_append_nul [simp]: "cstr (cstr bs @ 0 # rest) = cstr bs"
  unfolding cstr_def by (subst takeWhile_append2) (auto dest: set_takeWhileD)

lemma cstr_nul_suffix: "0 \<notin> set s \<Longrightarrow> cstr (s @ 0 # rest) = s"
  by (metis cstr_append_nul cstr_id)

lemma length_cstr: "length (cstr bs) \<le> length bs"
  by (simp add: cstr_def length_takeWhile_le)

lemma length_cstr_nul: "has_nul bs \<Longrightarrow> length (cstr bs) < length bs"
  unfolding has_nul_def cstr_def
  using length_takeWhile_le [of "\<lambda>b. b \<noteq> 0" bs] takeWhile_eq_take [of "\<lambda>b. b \<noteq> 0" bs]
  by (metis (mono_tags, lifting) le_neq_implies_less set_takeWhileD take_all_iff order_refl)

lemma strcpy_ok:
  "length (cstr src) < length dst \<Longrightarrow>
   \<exists>buf. strcpy dst src = Inr buf \<and> cstr buf = cstr src \<and> length buf = length dst"
  by (simp add: strcpy_def poke_def)

lemma strcpy_InrD:
  "strcpy dst src = Inr buf \<Longrightarrow>
   cstr buf = cstr src \<and> length buf = length dst \<and> length (cstr src) < length dst"
  by (auto simp: strcpy_def poke_def split: if_splits)

lemma strncmp_eq_refl [simp]: "strncmp_eq n a a"
  by (simp add: strncmp_eq_def)

lemma strncmp_eq_cstr_left [simp]: "strncmp_eq n (cstr a) b = strncmp_eq n a b"
  by (simp add: strncmp_eq_def)

text \<open>On strings that fit with their NUL, \<open>strncmp\<close> is equality of the strings.\<close>

lemma strncmp_eq_iff:
  assumes "length (cstr a) < n" and "length (cstr b) < n"
  shows "strncmp_eq n a b \<longleftrightarrow> cstr a = cstr b"
  using assms by (simp add: strncmp_eq_def)

end
