(* ===== verification/VrrpTypes.thy ===== *)
theory VrrpTypes
  imports Prelude
begin

text \<open>
  The data model of the daemon: the constants of vrrp.h, the structures of libvrrp.h, and the
  state of the vrrpd process. Memory is a heap of virtual routers and a heap of instances
  (addresses are block numbers, \<open>None\<close> is NULL); what the kernel answers is a parameter of the
  state (\<open>os\<close>) that may depend on everything the process did before (\<open>trace\<close>).
\<close>

section \<open>Constants\<close>

definition VRRP_SUCCESS :: u32 where [simp]: "VRRP_SUCCESS = 0"
definition VRRP_EVREXIST :: u32 where [simp]: "VRRP_EVREXIST = 1"
definition VRRP_EINVAL :: u32 where [simp]: "VRRP_EINVAL = 2"
definition VRRP_ENOROUTE :: u32 where [simp]: "VRRP_ENOROUTE = 3"
definition VRRP_EVRIP :: u32 where [simp]: "VRRP_EVRIP = 4"
definition VRRP_ENOINST :: u32 where [simp]: "VRRP_ENOINST = 5"
definition VRRP_EMULINST :: u32 where [simp]: "VRRP_EMULINST = 6"
definition VRRP_ENOMEM :: u32 where [simp]: "VRRP_ENOMEM = 7"
definition VRRP_ESYS :: u32 where [simp]: "VRRP_ESYS = 8"

text \<open>errno.h's \<open>EINVAL\<close>, which the \<open>vrrp_check\<close> macro returns.\<close>

definition EINVAL :: u32 where [simp]: "EINVAL = 22"

definition AF_UNSPEC :: cint where [simp]: "AF_UNSPEC = 0"
definition AF_INET :: cint where [simp]: "AF_INET = 2"
definition AF_INET6 :: cint where [simp]: "AF_INET6 = 10"

definition VRRP_STATE_NONE :: u8 where [simp]: "VRRP_STATE_NONE = 0"
definition VRRP_STATE_INIT :: u8 where [simp]: "VRRP_STATE_INIT = 1"
definition VRRP_STATE_MAST :: u8 where [simp]: "VRRP_STATE_MAST = 2"
definition VRRP_STATE_BACK :: u8 where [simp]: "VRRP_STATE_BACK = 3"

definition IPPROTO_VRRP :: u8 where [simp]: "IPPROTO_VRRP = 112"
definition VRRP_IP_TTL :: u8 where [simp]: "VRRP_IP_TTL = 255"
definition INADDR_VRRP_GROUP :: "u8 list" where "INADDR_VRRP_GROUP = [224, 0, 0, 18]"
definition ETH_P_IP :: u16 where [simp]: "ETH_P_IP = 0x0800"

definition LIFNAMSIZ :: nat where [simp]: "LIFNAMSIZ = 32"

definition VR_PROP_UNCHANGE :: cint where [simp]: "VR_PROP_UNCHANGE = -1"

definition VR_PROP_PREEMPT :: cint where [simp]: "VR_PROP_PREEMPT = 1"
definition VR_PROP_ACCEPTED :: cint where [simp]: "VR_PROP_ACCEPTED = 1"

definition boolean_FALSE :: u32 where [simp]: "boolean_FALSE = 0"
definition boolean_TRUE :: u32 where [simp]: "boolean_TRUE = 1"

text \<open>The commands vrrpadm sends to vrrpd.\<close>

definition CMD_RETURN_VAL :: u32 where [simp]: "CMD_RETURN_VAL = 0"
definition CMD_CREATE_INST :: u32 where [simp]: "CMD_CREATE_INST = 1"
definition CMD_REMOVE_INST :: u32 where [simp]: "CMD_REMOVE_INST = 2"
definition CMD_STARTUP_INST :: u32 where [simp]: "CMD_STARTUP_INST = 3"
definition CMD_SHUTDOWN_INST :: u32 where [simp]: "CMD_SHUTDOWN_INST = 4"
definition CMD_MODIFY_INST :: u32 where [simp]: "CMD_MODIFY_INST = 5"
definition CMD_SHOW_ALL :: u32 where [simp]: "CMD_SHOW_ALL = 6"
definition CMD_GET_INSTX :: u32 where [simp]: "CMD_GET_INSTX = 7"

text \<open>State changes as \<open>vrrp_state_execution\<close> is told about them.\<close>

datatype vrrp_state_trans_t =
  BACK_TO_MAST | MAST_TO_BACK | INIT_TO_MAST | INIT_TO_BACK | MAST_TO_INIT | BACK_TO_INIT

section \<open>Structures\<close>

type_synonym ptr = "nat option"

record timeval =
  tv_sec :: cint
  tv_usec :: cint

text \<open>The broken-down time of \<open>localtime\<close>, the members the code prints.\<close>

record tm =
  tm_year :: cint
  tm_mon :: cint
  tm_mday :: cint
  tm_hour :: cint
  tm_min :: cint
  tm_sec :: cint

text \<open>
  \<open>boolean_t\<close> is kept at the width the compiler gives it: the daemon copies it from messages
  unchecked, so that it can hold other values than TRUE and FALSE.
\<close>

record vrrp_attr =
  pri :: u8
  delay :: cint
  pree_mode :: u32
  accept_mode :: u32

text \<open>
  \<open>vr_ip\<close> is the memory its pointer points at; \<open>vr_ifname\<close> the array of 32 bytes.
\<close>

record vrrp_vr =
  vr_id :: u8
  vr_af :: cint
  vr_in4 :: u32
  vr_ipnum :: u8
  vr_ip :: "u8 list"
  vr_ifname :: "u8 list"

record vrrp_inst =
  vi_va :: vrrp_attr
  vi_vr :: vrrp_vr
  vi_state :: u8
  vi_active :: u32

record vrrp_vr_advinfo =
  ai_af :: cint
  ai_addr :: u32
  ai_timestamp :: timeval
  ai_priority :: u8
  ai_interval :: cint

record vrrp_intf_fd =
  fd_intf :: "u8 list"
  s_send :: cint
  s_rcv :: cint

text \<open>
  \<open>vfd\<close> points into the array \<open>netfds\<close>: it is an index, \<open>None\<close> for NULL.
\<close>

record vrrpd_vr_ds =
  attr :: vrrp_attr
  vr :: vrrp_vr
  vfd :: "nat option"
  timeout :: u32
  advinfo :: vrrp_vr_advinfo
  parent :: ptr
  vr_next :: ptr
  vr_prev :: ptr
  qnext :: ptr
  qprev :: ptr

record vrrpd_ds =
  ds_vr :: ptr
  active :: u32
  state :: u8
  pid :: cint
  previous_state :: u8
  state_trans_time :: timeval
  ds_next :: ptr
  ds_prev :: ptr

record pollfd =
  pfd_fd :: cint
  pfd_events :: u16

section \<open>The process and its environment\<close>

text \<open>
  What the process asks of the kernel, in order. \<open>EvFork\<close> stands for fork and for what the child
  does (exec of the router with the interface name and the virtual MAC as arguments).
\<close>

datatype event =
    EvUalarm u32
  | EvAlarm u32
  | EvSleep u32
  | EvFork "u8 list" "u8 list"
  | EvKill cint nat
  | EvSetsockopt cint
  | EvWrite cint "u8 list"
  | EvSocket u16
  | EvIfindex cint "u8 list"
  | EvBind cint
  | EvSendto cint "u8 list"

text \<open>
  The environment: the result of each call as a function of the calls made so far; which
  allocations succeed; and the bytes that memory holds before the program writes it.
\<close>

record os =
  ualarm_ret :: "event list \<Rightarrow> u32"
  fork_ret :: "event list \<Rightarrow> cint"
  kill_ret :: "event list \<Rightarrow> cint"
  setsockopt_ret :: "event list \<Rightarrow> cint"
  write_ret :: "event list \<Rightarrow> cint"
  socket_ret :: "event list \<Rightarrow> cint"
  ifindex_ret :: "event list \<Rightarrow> cint"
  bind_ret :: "event list \<Rightarrow> cint"
  time_of_day :: "event list \<Rightarrow> timeval"
  localtime :: "cint \<Rightarrow> tm"
  malloc_ok :: "nat \<Rightarrow> bool"
  heap_junk :: "nat \<Rightarrow> nat \<Rightarrow> u8"
  stack_junk :: "nat \<Rightarrow> event list \<Rightarrow> u32"

text \<open>
  The state of vrrpd: both heaps (the list head \<open>inst_runtime_list\<close> is the instance at address
  0), the number of the next block, the advertisement queue and its mutex, the \<open>flag\<close> array of
  VRIDs that were heard, the socket tables, the environment and what was asked of it.
\<close>

record world =
  vr_heap :: "nat \<Rightarrow> vrrpd_vr_ds option"
  ds_heap :: "nat \<Rightarrow> vrrpd_ds option"
  brk :: nat
  adv_q :: ptr
  adv_q_lock :: bool
  flag :: "u8 \<Rightarrow> cint"
  netfds :: "vrrp_intf_fd list"
  pollfds :: "pollfd list"
  poll_intfs :: "u8 list list"
  poll_afs :: "cint list"
  os :: os
  trace :: "event list"

section \<open>Memory\<close>

definition vload :: "ptr \<Rightarrow> world \<Rightarrow> vrrpd_vr_ds res" where
  "vload p w = (case p of None \<Rightarrow> Inl NullDeref
     | Some a \<Rightarrow> (case vr_heap w a of None \<Rightarrow> Inl WildPointer | Some v \<Rightarrow> Inr v))"

definition vstore :: "ptr \<Rightarrow> (vrrpd_vr_ds \<Rightarrow> vrrpd_vr_ds) \<Rightarrow> world \<Rightarrow> world res" where
  "vstore p f w = (case p of None \<Rightarrow> Inl NullDeref
     | Some a \<Rightarrow> (case vr_heap w a of None \<Rightarrow> Inl WildPointer
        | Some v \<Rightarrow> Inr (w\<lparr>vr_heap := (vr_heap w)(a := Some (f v))\<rparr>)))"

definition dload :: "ptr \<Rightarrow> world \<Rightarrow> vrrpd_ds res" where
  "dload p w = (case p of None \<Rightarrow> Inl NullDeref
     | Some a \<Rightarrow> (case ds_heap w a of None \<Rightarrow> Inl WildPointer | Some d \<Rightarrow> Inr d))"

definition dstore :: "ptr \<Rightarrow> (vrrpd_ds \<Rightarrow> vrrpd_ds) \<Rightarrow> world \<Rightarrow> world res" where
  "dstore p f w = (case p of None \<Rightarrow> Inl NullDeref
     | Some a \<Rightarrow> (case ds_heap w a of None \<Rightarrow> Inl WildPointer
        | Some d \<Rightarrow> Inr (w\<lparr>ds_heap := (ds_heap w)(a := Some (f d))\<rparr>)))"

lemma vload_simps [simp]:
  "vload None w = Inl NullDeref"
  "vr_heap w a = Some v \<Longrightarrow> vload (Some a) w = Inr v"
  "vr_heap w a = None \<Longrightarrow> vload (Some a) w = Inl WildPointer"
  by (simp_all add: vload_def)

lemma vstore_simps [simp]:
  "vstore None f w = Inl NullDeref"
  "vr_heap w a = Some v \<Longrightarrow> vstore (Some a) f w = Inr (w\<lparr>vr_heap := (vr_heap w)(a := Some (f v))\<rparr>)"
  "vr_heap w a = None \<Longrightarrow> vstore (Some a) f w = Inl WildPointer"
  by (simp_all add: vstore_def)

lemma dload_simps [simp]:
  "dload None w = Inl NullDeref"
  "ds_heap w a = Some d \<Longrightarrow> dload (Some a) w = Inr d"
  "ds_heap w a = None \<Longrightarrow> dload (Some a) w = Inl WildPointer"
  by (simp_all add: dload_def)

lemma dstore_simps [simp]:
  "dstore None f w = Inl NullDeref"
  "ds_heap w a = Some d \<Longrightarrow> dstore (Some a) f w = Inr (w\<lparr>ds_heap := (ds_heap w)(a := Some (f d))\<rparr>)"
  "ds_heap w a = None \<Longrightarrow> dstore (Some a) f w = Inl WildPointer"
  by (simp_all add: dstore_def)

lemma vload_InrD: "vload p w = Inr v \<Longrightarrow> \<exists>a. p = Some a \<and> vr_heap w a = Some v"
  by (auto simp: vload_def split: option.splits)

lemma dload_InrD: "dload p w = Inr d \<Longrightarrow> \<exists>a. p = Some a \<and> ds_heap w a = Some d"
  by (auto simp: dload_def split: option.splits)

lemma vstore_InrD:
  "vstore p f w = Inr w' \<Longrightarrow>
   \<exists>a v. p = Some a \<and> vr_heap w a = Some v \<and> w' = w\<lparr>vr_heap := (vr_heap w)(a := Some (f v))\<rparr>"
  by (auto simp: vstore_def split: option.splits)

lemma dstore_InrD:
  "dstore p f w = Inr w' \<Longrightarrow>
   \<exists>a d. p = Some a \<and> ds_heap w a = Some d \<and> w' = w\<lparr>ds_heap := (ds_heap w)(a := Some (f d))\<rparr>"
  by (auto simp: dstore_def split: option.splits)

lemma ensures_vload [wp]:
  "ensures (vload p w) Q = (\<forall>a v. p = Some a \<longrightarrow> vr_heap w a = Some v \<longrightarrow> Q v)"
  by (auto simp: vload_def split: option.split)

lemma ensures_dload [wp]:
  "ensures (dload p w) Q = (\<forall>a d. p = Some a \<longrightarrow> ds_heap w a = Some d \<longrightarrow> Q d)"
  by (auto simp: dload_def split: option.split)

lemma ensures_vstore [wp]:
  "ensures (vstore p f w) Q = (\<forall>a v. p = Some a \<longrightarrow> vr_heap w a = Some v \<longrightarrow>
     Q (w\<lparr>vr_heap := (vr_heap w)(a := Some (f v))\<rparr>))"
  by (auto simp: vstore_def split: option.split)

lemma ensures_dstore [wp]:
  "ensures (dstore p f w) Q = (\<forall>a d. p = Some a \<longrightarrow> ds_heap w a = Some d \<longrightarrow>
     Q (w\<lparr>ds_heap := (ds_heap w)(a := Some (f d))\<rparr>))"
  by (auto simp: dstore_def split: option.split)

text \<open>
  \<open>malloc\<close>: the next block, or NULL when the environment refuses. \<open>scratch\<close> is a \<open>malloc\<close> whose
  result the code writes to without a check.
\<close>

definition malloc :: "world \<Rightarrow> ptr \<times> world" where
  "malloc w = (if malloc_ok (os w) (brk w) then Some (brk w) else None, w\<lparr>brk := Suc (brk w)\<rparr>)"

definition scratch :: "world \<Rightarrow> world res" where
  "scratch w = (if malloc_ok (os w) (brk w) then Inr (w\<lparr>brk := Suc (brk w)\<rparr>) else Inl NullDeref)"

definition junk :: "os \<Rightarrow> nat \<Rightarrow> nat \<Rightarrow> u8 list" where
  "junk e block n = map (heap_junk e block) [0..<n]"

lemma length_junk [simp]: "length (junk e b n) = n"
  by (simp add: junk_def)

definition no_oom :: "world \<Rightarrow> bool" where
  "no_oom w \<longleftrightarrow> (\<forall>n. malloc_ok (os w) n)"

lemma malloc_no_oom [simp]: "no_oom w \<Longrightarrow> malloc w = (Some (brk w), w\<lparr>brk := Suc (brk w)\<rparr>)"
  by (simp add: malloc_def no_oom_def)

lemma scratch_no_oom [simp]: "no_oom w \<Longrightarrow> scratch w = Inr (w\<lparr>brk := Suc (brk w)\<rparr>)"
  by (simp add: scratch_def no_oom_def)

lemma ensures_scratch [wp]:
  "ensures (scratch w) Q = (malloc_ok (os w) (brk w) \<longrightarrow> Q (w\<lparr>brk := Suc (brk w)\<rparr>))"
  by (simp add: scratch_def)

section \<open>System calls and the queue mutex\<close>

definition emit :: "event \<Rightarrow> world \<Rightarrow> world" where
  "emit e w = w\<lparr>trace := trace w @ [e]\<rparr>"

lemma emit_simps [simp]:
  "vr_heap (emit e w) = vr_heap w" "ds_heap (emit e w) = ds_heap w" "brk (emit e w) = brk w"
  "adv_q (emit e w) = adv_q w" "adv_q_lock (emit e w) = adv_q_lock w" "flag (emit e w) = flag w"
  "netfds (emit e w) = netfds w" "pollfds (emit e w) = pollfds w"
  "poll_intfs (emit e w) = poll_intfs w" "poll_afs (emit e w) = poll_afs w" "os (emit e w) = os w"
  "trace (emit e w) = trace w @ [e]"
  by (simp_all add: emit_def)

definition ualarm :: "u32 \<Rightarrow> world \<Rightarrow> u32 \<times> world" where
  "ualarm us w = (ualarm_ret (os w) (trace w), emit (EvUalarm us) w)"

definition kill :: "cint \<Rightarrow> nat \<Rightarrow> world \<Rightarrow> cint \<times> world" where
  "kill p sig w = (kill_ret (os w) (trace w), emit (EvKill p sig) w)"

text \<open>\<open>adv_q_lock\<close> is a default mutex: a thread that locks it twice stops for ever.\<close>

definition lock_q :: "world \<Rightarrow> world res" where
  "lock_q w = (if adv_q_lock w then Inl SelfDeadlock else Inr (w\<lparr>adv_q_lock := True\<rparr>))"

definition unlock_q :: "world \<Rightarrow> world" where
  "unlock_q w = w\<lparr>adv_q_lock := False\<rparr>"

lemma unlock_q_simps [simp]:
  "vr_heap (unlock_q w) = vr_heap w" "ds_heap (unlock_q w) = ds_heap w" "brk (unlock_q w) = brk w"
  "adv_q (unlock_q w) = adv_q w" "flag (unlock_q w) = flag w"
  "netfds (unlock_q w) = netfds w" "pollfds (unlock_q w) = pollfds w"
  "poll_intfs (unlock_q w) = poll_intfs w" "poll_afs (unlock_q w) = poll_afs w"
  "os (unlock_q w) = os w" "trace (unlock_q w) = trace w" "\<not> adv_q_lock (unlock_q w)"
  by (simp_all add: unlock_q_def)

lemma lock_q_free [simp]: "\<not> adv_q_lock w \<Longrightarrow> lock_q w = Inr (w\<lparr>adv_q_lock := True\<rparr>)"
  by (simp add: lock_q_def)

lemma lock_q_held [simp]: "adv_q_lock w \<Longrightarrow> lock_q w = Inl SelfDeadlock"
  by (simp add: lock_q_def)

lemma ensures_lock_q [wp]:
  "ensures (lock_q w) Q = (\<not> adv_q_lock w \<longrightarrow> Q (w\<lparr>adv_q_lock := True\<rparr>))"
  by (simp add: lock_q_def)

section \<open>Time\<close>

text \<open>The macro \<open>VRRP_SEC2USEC\<close>: an \<open>int\<close> product, modulo the width of \<open>int\<close>.\<close>

definition VRRP_SEC2USEC :: "cint \<Rightarrow> u32" where
  "VRRP_SEC2USEC t = t * 1000000"

text \<open>\<open>(256 - pri) / 256\<close>: the operands are non-negative ints, so the quotient is C's.\<close>

definition skew_sec :: "u8 \<Rightarrow> cint" where
  "skew_sec p = (256 - ucast p) div 256"

end
