(* ===== verification/DList.thy ===== *)
theory DList
  imports Prelude
begin

text \<open>
  Doubly linked lists on a heap. The instance list (\<open>next\<close>, \<open>prev\<close>) and the advertisement queue
  (\<open>qnext\<close>, \<open>qprev\<close>) are both such lists; \<open>dpath\<close> reads the nodes off the heap, and the locale
  \<open>dnode\<close> proves once what unlinking and inserting a node do to that reading.
\<close>

section \<open>Paths\<close>

text \<open>
  \<open>dpath nxt prv h p c xs q e\<close>: following \<open>nxt\<close> from \<open>c\<close> visits the nodes \<open>xs\<close> and ends at \<open>e\<close>;
  the \<open>prv\<close> of the first node is \<open>p\<close>, that of every later node is the node before it, and \<open>q\<close> is
  the last node (\<open>p\<close> if there is none).
\<close>

primrec dpath :: "('n \<Rightarrow> nat option) \<Rightarrow> ('n \<Rightarrow> nat option) \<Rightarrow> (nat \<Rightarrow> 'n option) \<Rightarrow>
    nat option \<Rightarrow> nat option \<Rightarrow> nat list \<Rightarrow> nat option \<Rightarrow> nat option \<Rightarrow> bool" where
  "dpath nxt prv h p c [] q e \<longleftrightarrow> p = q \<and> c = e"
| "dpath nxt prv h p c (a # as) q e \<longleftrightarrow>
     c = Some a \<and> (\<exists>n. h a = Some n \<and> prv n = p \<and> dpath nxt prv h (Some a) (nxt n) as q e)"

definition links :: "('n \<Rightarrow> nat option) \<Rightarrow> ('n \<Rightarrow> nat option) \<Rightarrow> (nat \<Rightarrow> 'n option) \<Rightarrow> nat \<Rightarrow>
    (nat option \<times> nat option) option" where
  "links nxt prv h a = map_option (\<lambda>n. (nxt n, prv n)) (h a)"

lemma dpath_append:
  "dpath nxt prv h p c (xs @ ys) q e \<longleftrightarrow>
   (\<exists>m d. dpath nxt prv h p c xs m d \<and> dpath nxt prv h m d ys q e)"
  by (induction xs arbitrary: p c) auto

lemma dpath_links:
  "dpath nxt prv h p c (a # as) q e \<longleftrightarrow>
   c = Some a \<and> (\<exists>n. links nxt prv h a = Some (n, p) \<and> dpath nxt prv h (Some a) n as q e)"
  by (auto simp: links_def)

lemma dpath_cong:
  "(\<And>a. a \<in> set xs \<Longrightarrow> links nxt prv h' a = links nxt prv h a) \<Longrightarrow>
   dpath nxt prv h' p c xs q e = dpath nxt prv h p c xs q e"
  by (induction xs arbitrary: p c) (simp_all add: dpath_links del: dpath.simps(2))

lemma dpath_upd [simp]:
  "a \<notin> set xs \<Longrightarrow> dpath nxt prv (h(a := n)) p c xs q e = dpath nxt prv h p c xs q e"
  by (rule dpath_cong) (auto simp: links_def)

lemma dpath_alloc: "dpath nxt prv h p c xs q e \<Longrightarrow> a \<in> set xs \<Longrightarrow> \<exists>n. h a = Some n"
  by (induction xs arbitrary: p c) auto

text \<open>A path that ends with NULL is determined by where it starts.\<close>

lemma dpath_unique:
  "dpath nxt prv h p c xs q None \<Longrightarrow> dpath nxt prv h p' c ys q' None \<Longrightarrow> xs = ys"
proof (induction xs arbitrary: p c ys p')
  case Nil
  then show ?case by (cases ys) auto
next
  case (Cons x xs)
  then show ?case by (cases ys) auto
qed

lemma dpath_last: "dpath nxt prv h p c (xs @ [a]) q e \<Longrightarrow> q = Some a"
  by (auto simp: dpath_append)

lemma dpath_Nil_None: "dpath nxt prv h p None xs q e \<Longrightarrow> xs = [] \<and> e = None \<and> q = p"
  by (cases xs) auto

lemma dpath_head: "dpath nxt prv h p c xs q None \<Longrightarrow> c = (case xs of [] \<Rightarrow> None | x # _ \<Rightarrow> Some x)"
  by (cases xs) auto

text \<open>The forward reading alone, for lists whose back links are not what they should be.\<close>

primrec chain :: "('n \<Rightarrow> nat option) \<Rightarrow> (nat \<Rightarrow> 'n option) \<Rightarrow> nat option \<Rightarrow> nat list \<Rightarrow> bool" where
  "chain nxt h c [] \<longleftrightarrow> c = None"
| "chain nxt h c (a # as) \<longleftrightarrow> c = Some a \<and> (\<exists>n. h a = Some n \<and> chain nxt h (nxt n) as)"

lemma dpath_chain: "dpath nxt prv h p c xs q None \<Longrightarrow> chain nxt h c xs"
  by (induction xs arbitrary: p c) auto

lemma chain_cong:
  "(\<And>a. a \<in> set xs \<Longrightarrow> map_option nxt (h' a) = map_option nxt (h a)) \<Longrightarrow>
   chain nxt h' c xs = chain nxt h c xs"
proof (induction xs arbitrary: c)
  case Nil
  show ?case by simp
next
  case (Cons a as)
  from Cons.prems [of a] have "map_option nxt (h' a) = map_option nxt (h a)" by simp
  moreover have "chain nxt h' d as = chain nxt h d as" for d
    by (rule Cons.IH) (simp add: Cons.prems)
  ultimately show ?case by (cases "h a"; cases "h' a") auto
qed

lemma chain_unique: "chain nxt h c xs \<Longrightarrow> chain nxt h c ys \<Longrightarrow> xs = ys"
proof (induction xs arbitrary: c ys)
  case Nil
  then show ?case by (cases ys) auto
next
  case (Cons x xs)
  then show ?case by (cases ys) auto
qed

section \<open>Unlinking and inserting\<close>

text \<open>
  A kind of node: two link fields and their assignments. The laws are what a store to one
  member of a C structure does to the two members.
\<close>

locale dnode =
  fixes nxt prv :: "'n \<Rightarrow> nat option"
    and set_nxt set_prv :: "nat option \<Rightarrow> 'n \<Rightarrow> 'n"
  assumes nxt_set_nxt: "nxt (set_nxt x n) = x"
    and prv_set_nxt: "prv (set_nxt x n) = prv n"
    and nxt_set_prv: "nxt (set_prv x n) = nxt n"
    and prv_set_prv: "prv (set_prv x n) = x"
begin

lemmas set_simps = nxt_set_nxt prv_set_nxt nxt_set_prv prv_set_prv

text \<open>The stores \<open>b->next = x\<close> and \<open>d->prev = y\<close> as seen through \<open>links\<close>.\<close>

lemma links_set_nxt:
  "h b = Some n \<Longrightarrow> links nxt prv (h(b := Some (set_nxt x n))) a =
     (if a = b then Some (x, prv n) else links nxt prv h a)"
  by (simp add: links_def set_simps)

lemma links_set_prv:
  "h b = Some n \<Longrightarrow> links nxt prv (h(b := Some (set_prv x n))) a =
     (if a = b then Some (nxt n, x) else links nxt prv h a)"
  by (simp add: links_def set_simps)

text \<open>
  Unlinking the node \<open>a\<close> after \<open>b\<close>: the list loses \<open>a\<close> and nothing else. The first lemma is
  the case where \<open>a\<close> is last, the second where \<open>d\<close> follows it.
\<close>

lemma unlink_last:
  assumes path: "dpath nxt prv h p c (xs @ [b, a]) q None"
    and dist: "distinct (xs @ [b, a])"
    and b: "h b = Some nb"
  shows "dpath nxt prv (h(b := Some (set_nxt None nb))) p c (xs @ [b]) (Some b) None"
  using path dist b by (auto simp: dpath_append set_simps)

lemma unlink_mid:
  assumes path: "dpath nxt prv h p c (xs @ b # a # d # ys) q e"
    and dist: "distinct (xs @ b # a # d # ys)"
    and b: "h b = Some nb" and d: "h d = Some nd"
  shows "dpath nxt prv (h(b := Some (set_nxt (Some d) nb), d := Some (set_prv (Some b) nd)))
           p c (xs @ b # d # ys) q e"
  using path dist b d by (auto simp: dpath_append set_simps)

text \<open>Inserting \<open>a\<close> before \<open>d\<close>, and at the end.\<close>

lemma insert_before:
  assumes path: "dpath nxt prv h p c (xs @ b # d # ys) q e"
    and dist: "distinct (xs @ b # d # ys)" and new: "a \<notin> set (xs @ b # d # ys)"
    and b: "h b = Some nb" and d: "h d = Some nd"
    and na: "nxt na = Some d" "prv na = Some b"
  shows "dpath nxt prv (h(a := Some na, b := Some (set_nxt (Some a) nb),
           d := Some (set_prv (Some a) nd))) p c (xs @ b # a # d # ys) q e"
  using path dist new b d na by (auto simp: dpath_append set_simps)

lemma insert_last:
  assumes path: "dpath nxt prv h p c (xs @ [b]) q None"
    and dist: "distinct (xs @ [b])" and new: "a \<notin> set (xs @ [b])"
    and b: "h b = Some nb"
    and na: "nxt na = None" "prv na = Some b"
  shows "dpath nxt prv (h(a := Some na, b := Some (set_nxt (Some a) nb)))
           p c (xs @ [b, a]) (Some a) None"
  using path dist new b na by (auto simp: dpath_append set_simps)

end

end
