(* ===== verification/Demo.thy ===== *)
theory Demo
  imports VrrpTypes
begin

text \<open>
  Concrete states for the examples that show the theorems' hypotheses can hold: an environment
  in which every call succeeds (\<open>ualarm\<close> answers \<open>u\<close>), an idle router and small worlds.
\<close>

definition demo_os :: "u32 \<Rightarrow> os" where
  "demo_os u = \<lparr>ualarm_ret = (\<lambda>_. u), fork_ret = (\<lambda>_. 77), kill_ret = (\<lambda>_. 0),
     setsockopt_ret = (\<lambda>_. -1), write_ret = (\<lambda>_. 110), socket_ret = (\<lambda>t. of_nat (3 + length t)),
     ifindex_ret = (\<lambda>_. 0), bind_ret = (\<lambda>_. 0),
     time_of_day = (\<lambda>_. \<lparr>tv_sec = 1000, tv_usec = 5\<rparr>),
     localtime = (\<lambda>t. \<lparr>tm_year = 110, tm_mon = 0, tm_mday = 1, tm_hour = 0, tm_min = 0, tm_sec = t mod 60\<rparr>), malloc_ok = (\<lambda>_. True),
     heap_junk = (\<lambda>_ _. 0xAA), stack_junk = (\<lambda>_ _. 0xBEEF)\<rparr>"

definition demo_ifname :: "u8 list" where
  "demo_ifname = [101, 116, 104, 48] @ replicate 28 0"

definition zero_tv :: timeval where "zero_tv = \<lparr>tv_sec = 0, tv_usec = 0\<rparr>"

definition zero_advinfo :: vrrp_vr_advinfo where
  "zero_advinfo = \<lparr>ai_af = 0, ai_addr = 0, ai_timestamp = zero_tv, ai_priority = 0, ai_interval = 0\<rparr>"

definition demo_attr :: "u8 \<Rightarrow> vrrp_attr" where
  "demo_attr p = \<lparr>pri = p, delay = 1, pree_mode = 1, accept_mode = 1\<rparr>"

definition demo_vr :: "u8 \<Rightarrow> vrrp_vr" where
  "demo_vr i = \<lparr>vr_id = i, vr_af = 2, vr_in4 = 0x0100A8C0, vr_ipnum = 1, vr_ip = [10, 0, 0, 1],
     vr_ifname = demo_ifname\<rparr>"

text \<open>The router of instance \<open>p\<close>, with the given queue links and timeout.\<close>

definition demo_node :: "u8 \<Rightarrow> nat \<Rightarrow> u32 \<Rightarrow> ptr \<Rightarrow> ptr \<Rightarrow> vrrpd_vr_ds" where
  "demo_node i p t qn qp = \<lparr>attr = demo_attr 100, vr = demo_vr i, vfd = Some 0, timeout = t,
     advinfo = zero_advinfo, parent = Some p, vr_next = None, vr_prev = None,
     qnext = qn, qprev = qp\<rparr>"

definition demo_inst :: "u8 \<Rightarrow> ptr \<Rightarrow> ptr \<Rightarrow> ptr \<Rightarrow> vrrpd_ds" where
  "demo_inst st v n p = \<lparr>ds_vr = v, active = 0, state = st, pid = 0, previous_state = 0,
     state_trans_time = zero_tv, ds_next = n, ds_prev = p\<rparr>"

definition demo_fd :: vrrp_intf_fd where
  "demo_fd = \<lparr>fd_intf = demo_ifname, s_send = 4, s_rcv = 5\<rparr>"

definition blank_fd :: vrrp_intf_fd where
  "blank_fd = \<lparr>fd_intf = replicate 32 0, s_send = 0, s_rcv = 0\<rparr>"

text \<open>A state with the given heaps and queue; its first free block is 100.\<close>

definition demo_world :: "u32 \<Rightarrow> (nat \<Rightarrow> vrrpd_vr_ds option) \<Rightarrow> (nat \<Rightarrow> vrrpd_ds option) \<Rightarrow> ptr \<Rightarrow> world" where
  "demo_world u vh dh q = \<lparr>vr_heap = vh, ds_heap = dh, brk = 100, adv_q = q, adv_q_lock = False,
     flag = (\<lambda>_. 0), netfds = demo_fd # replicate 15 blank_fd, pollfds = [],
     poll_intfs = replicate 32 (replicate 32 0), poll_afs = replicate 32 0,
     os = demo_os u, trace = []\<rparr>"

lemmas demo_defs = demo_world_def demo_os_def demo_inst_def demo_node_def demo_vr_def demo_attr_def
  demo_fd_def blank_fd_def demo_ifname_def zero_advinfo_def zero_tv_def

lemma demo_world_simps [simp]:
  "vr_heap (demo_world u vh dh q) = vh" "ds_heap (demo_world u vh dh q) = dh"
  "brk (demo_world u vh dh q) = 100" "adv_q (demo_world u vh dh q) = q"
  "\<not> adv_q_lock (demo_world u vh dh q)" "os (demo_world u vh dh q) = demo_os u"
  "trace (demo_world u vh dh q) = []" "flag (demo_world u vh dh q) = (\<lambda>_. 0)"
  "netfds (demo_world u vh dh q) = demo_fd # replicate 15 blank_fd"
  "no_oom (demo_world u vh dh q)"
  by (simp_all add: demo_world_def no_oom_def demo_os_def)

lemma demo_os_simps [simp]:
  "ualarm_ret (demo_os u) t = u" "fork_ret (demo_os u) t = 77" "kill_ret (demo_os u) t = 0"
  "setsockopt_ret (demo_os u) t = -1" "write_ret (demo_os u) t = 110" "malloc_ok (demo_os u) n"
  by (simp_all add: demo_os_def)

lemma demo_node_simps [simp]:
  "qnext (demo_node i p t qn qp) = qn" "qprev (demo_node i p t qn qp) = qp"
  "timeout (demo_node i p t qn qp) = t" "parent (demo_node i p t qn qp) = Some p"
  "vr_next (demo_node i p t qn qp) = None" "vr (demo_node i p t qn qp) = demo_vr i"
  "attr (demo_node i p t qn qp) = demo_attr 100" "vfd (demo_node i p t qn qp) = Some 0"
  by (simp_all add: demo_node_def)

lemma demo_inst_simps [simp]:
  "ds_vr (demo_inst st v n p) = v" "state (demo_inst st v n p) = st" "pid (demo_inst st v n p) = 0"
  "ds_next (demo_inst st v n p) = n" "ds_prev (demo_inst st v n p) = p"
  by (simp_all add: demo_inst_def)

lemma demo_attr_simps [simp]:
  "pri (demo_attr p) = p" "delay (demo_attr p) = 1" "pree_mode (demo_attr p) = 1"
  "accept_mode (demo_attr p) = 1"
  by (simp_all add: demo_attr_def)

lemma demo_vr_simps [simp]:
  "vr_id (demo_vr i) = i" "vr_af (demo_vr i) = 2" "vr_ipnum (demo_vr i) = 1"
  "vr_ifname (demo_vr i) = demo_ifname"
  by (simp_all add: demo_vr_def)

lemma length_demo_ifname [simp]: "length demo_ifname = 32"
  by (simp add: demo_ifname_def)

lemma cstr_demo_ifname [simp]: "cstr demo_ifname = [101, 116, 104, 48]"
  by (simp add: demo_ifname_def cstr_def)

lemma demo_fd_simps [simp]: "s_send demo_fd = 4" "s_rcv demo_fd = 5" "fd_intf demo_fd = demo_ifname"
  by (simp_all add: demo_fd_def)

end
