(* ===== verification/AdvQueue.thy ===== *)
theory AdvQueue
  imports VrrpTypes DList Demo
begin

text \<open>
  The advertisement queue of vrrpd_impl.c: a list of virtual routers linked through
  \<open>qnext\<close>/\<open>qprev\<close>, kept in order of expiry, each entry's \<open>timeout\<close> meant as the time between
  it and its neighbour. The operations are modelled store by store, because several of them
  read a link they have just overwritten.
\<close>

section \<open>Operations\<close>

text \<open>
  \<open>vrrp_rmqueue_impl\<close>. The entry is read again after each store: \<open>qprev\<close> or \<open>qnext\<close> may be the
  entry itself.
\<close>

definition vrrp_rmqueue_impl :: "ptr \<Rightarrow> world \<Rightarrow> (u32 \<times> world) res" where
  "vrrp_rmqueue_impl entry w =
     bnd (vload entry w) (\<lambda>e.
     bnd (if qprev e = None then Inr (w\<lparr>adv_q := qnext e\<rparr>)
          else vstore (qprev e) (\<lambda>p. p\<lparr>qnext := qnext e\<rparr>) w) (\<lambda>w.
     bnd (vload entry w) (\<lambda>e.
     bnd (if qnext e \<noteq> None then
            bnd (vstore (qnext e) (\<lambda>n. n\<lparr>qprev := qprev e\<rparr>) w) (\<lambda>w.
            bnd (vload entry w) (\<lambda>e.
            vstore (qprev e) (\<lambda>p. p\<lparr>timeout := timeout p + timeout e\<rparr>) w))
          else Inr w) (\<lambda>w.
     bnd (vstore entry (\<lambda>e. e\<lparr>qnext := None, qprev := None\<rparr>) w) (\<lambda>w.
     Inr (VRRP_SUCCESS, w))))))"

definition vrrp_dequeue :: "world \<Rightarrow> (ptr \<times> world) res" where
  "vrrp_dequeue w =
     (let cur = adv_q w in
      bnd (if cur \<noteq> None then map_sum id snd (vrrp_rmqueue_impl cur w) else Inr w) (\<lambda>w.
      Inr (cur, w)))"

text \<open>The loop of \<open>vrrp_enqueue_impl\<close>; \<open>t\<close> is \<open>entry->timeout\<close>, which it does not change.\<close>

definition enqueue_scan :: "world \<Rightarrow> u32 \<Rightarrow> ptr \<Rightarrow> u32 \<Rightarrow> (ptr \<times> u32) res" where
  "enqueue_scan w t cur acc = loop (\<lambda>(cur, acc).
     if cur \<noteq> None \<and> acc < t
     then bnd (vload cur w) (\<lambda>c. Inr (Inl (qnext c, acc + timeout c)))
     else Inr (Inr (cur, acc))) (cur, acc)"

text \<open>The branch that appends the entry after \<open>curr\<close>.\<close>

definition enqueue_append :: "ptr \<Rightarrow> ptr \<Rightarrow> u32 \<Rightarrow> world \<Rightarrow> world res" where
  "enqueue_append entry cur acc w =
     bnd (vstore cur (\<lambda>c. c\<lparr>qnext := entry\<rparr>) w) (\<lambda>w.
     bnd (vstore entry (\<lambda>e. e\<lparr>qprev := cur, qnext := None\<rparr>) w) (\<lambda>w.
     bnd (vload entry w) (\<lambda>e.
     vstore cur (\<lambda>c. c\<lparr>timeout := timeout e - acc\<rparr>) w)))"

text \<open>The branch that places the entry before \<open>curr\<close>.\<close>

definition enqueue_before :: "ptr \<Rightarrow> ptr \<Rightarrow> u32 \<Rightarrow> world \<Rightarrow> world res" where
  "enqueue_before entry cur acc w =
     bnd (vstore entry (\<lambda>e. e\<lparr>timeout := acc - timeout e, qnext := cur\<rparr>) w) (\<lambda>w.
     bnd (vstore cur (\<lambda>c. c\<lparr>qprev := entry\<rparr>) w) (\<lambda>w.
     bnd (vload cur w) (\<lambda>c.
     bnd (vstore entry (\<lambda>e. e\<lparr>qprev := qprev c\<rparr>) w) (\<lambda>w.
     if cur = adv_q w then Inr (w\<lparr>adv_q := entry\<rparr>)
     else
       bnd (vload entry w) (\<lambda>e.
       bnd (vstore (qprev e) (\<lambda>p. p\<lparr>qnext := entry\<rparr>) w) (\<lambda>w.
       bnd (vload entry w) (\<lambda>e.
       vstore (qprev e) (\<lambda>p. p\<lparr>timeout := timeout p - timeout e\<rparr>) w)))))))"

text \<open>The non-empty queue: find the place, link the entry there, and re-arm for the new head.\<close>

definition enqueue_place :: "ptr \<Rightarrow> u32 \<Rightarrow> u32 \<Rightarrow> world \<Rightarrow> (u32 \<times> world) res" where
  "enqueue_place entry t remain w =
     bnd (enqueue_scan w t (adv_q w) remain) (\<lambda>(cur, acc).
     bnd (if acc < t then enqueue_append entry cur acc w
          else enqueue_before entry cur acc w) (\<lambda>w.
     bnd (vload (adv_q w) w) (\<lambda>h.
     Inr (VRRP_SUCCESS, snd (ualarm (timeout h) w)))))"

definition vrrp_enqueue_impl :: "ptr \<Rightarrow> world \<Rightarrow> (u32 \<times> world) res" where
  "vrrp_enqueue_impl entry w =
     bnd (vload entry w) (\<lambda>e.
     let (remain, w) = ualarm (timeout e) w in
     if adv_q w = None then
       bnd (vstore entry (\<lambda>e. e\<lparr>qprev := None, timeout := 0\<rparr>) (w\<lparr>adv_q := entry\<rparr>)) (\<lambda>w.
       Inr (VRRP_SUCCESS, w))
     else enqueue_place entry (timeout e) remain w)"

section \<open>What the operations leave alone\<close>

text \<open>
  The queue operations write \<open>adv_q\<close> and, in virtual routers, \<open>timeout\<close>, \<open>qnext\<close> and \<open>qprev\<close>;
  the only system call is \<open>ualarm\<close>.
\<close>

definition vr_core :: "vrrpd_vr_ds \<Rightarrow> vrrpd_vr_ds" where
  "vr_core v = v\<lparr>timeout := 0, qnext := None, qprev := None\<rparr>"

definition q_frame :: "world \<Rightarrow> world \<Rightarrow> bool" where
  "q_frame w w' \<longleftrightarrow>
     (\<forall>a. map_option vr_core (vr_heap w' a) = map_option vr_core (vr_heap w a)) \<and>
     ds_heap w' = ds_heap w \<and> brk w' = brk w \<and> adv_q_lock w' = adv_q_lock w \<and> flag w' = flag w \<and>
     netfds w' = netfds w \<and> pollfds w' = pollfds w \<and> poll_intfs w' = poll_intfs w \<and>
     poll_afs w' = poll_afs w \<and> os w' = os w \<and>
     (\<exists>es. trace w' = trace w @ es \<and> set es \<subseteq> range EvUalarm)"

lemma vr_core_upd [simp]:
  "vr_core (v\<lparr>timeout := t\<rparr>) = vr_core v"
  "vr_core (v\<lparr>qnext := n\<rparr>) = vr_core v"
  "vr_core (v\<lparr>qprev := n\<rparr>) = vr_core v"
  by (simp_all add: vr_core_def)

lemma vr_core_fields:
  assumes "vr_core v = vr_core v'"
  shows "attr v = attr v'" "vr v = vr v'" "vfd v = vfd v'" "parent v = parent v'"
    "vr_next v = vr_next v'" "vr_prev v = vr_prev v'" "advinfo v = advinfo v'"
  using assms by (cases v; cases v'; simp add: vr_core_def)+

lemma q_frame_refl [intro, simp]: "q_frame w w"
  by (simp add: q_frame_def)

lemma q_frame_trans [trans]:
  assumes "q_frame w w'" and "q_frame w' w''"
  shows "q_frame w w''"
  using assms by (auto simp: q_frame_def)

lemma q_frame_vr:
  assumes "q_frame w w'" and "vr_heap w a = Some v"
  obtains v' where "vr_heap w' a = Some v'" and "vr_core v' = vr_core v"
proof -
  have "map_option vr_core (vr_heap w' a) = Some (vr_core v)"
    using assms by (simp add: q_frame_def)
  then show thesis using that by auto
qed

lemma q_frame_simps:
  assumes "q_frame w w'"
  shows "ds_heap w' = ds_heap w" "brk w' = brk w" "adv_q_lock w' = adv_q_lock w" "flag w' = flag w"
    "netfds w' = netfds w" "pollfds w' = pollfds w" "os w' = os w"
    "poll_intfs w' = poll_intfs w" "poll_afs w' = poll_afs w"
  using assms by (auto simp: q_frame_def)

lemma rmqueue_impl_frame: "ensures (vrrp_rmqueue_impl entry w) (\<lambda>(r, w'). r = 0 \<and> q_frame w w')"
  unfolding vrrp_rmqueue_impl_def by (auto simp: wp q_frame_def)

lemma enqueue_append_frame: "ensures (enqueue_append entry cur acc w) (q_frame w)"
  unfolding enqueue_append_def by (auto simp: wp q_frame_def)

lemma enqueue_before_frame: "ensures (enqueue_before entry cur acc w) (q_frame w)"
  unfolding enqueue_before_def by (auto simp: wp q_frame_def)

lemma q_frame_emit: "q_frame (emit (EvUalarm t) w) w' \<Longrightarrow> q_frame w w'"
  unfolding q_frame_def by auto

lemma q_frame_ualarm: "q_frame w w' \<Longrightarrow> q_frame w (snd (ualarm t w'))"
  by (auto simp: q_frame_def ualarm_def emit_def)

lemma enqueue_place_frame:
  "ensures (enqueue_place entry t remain w) (\<lambda>(r, w'). r = 0 \<and> q_frame w w')"
  unfolding enqueue_place_def
proof (rule ensures_bndI [OF ensures_True], clarify)
  fix cur acc
  have "ensures (if acc < t then enqueue_append entry cur acc w else enqueue_before entry cur acc w)
      (q_frame w)"
    by (simp add: enqueue_append_frame enqueue_before_frame)
  then show "ensures (bnd (if acc < t then enqueue_append entry cur acc w
        else enqueue_before entry cur acc w) (\<lambda>w. bnd (vload (adv_q w) w) (\<lambda>h.
        Inr (VRRP_SUCCESS, snd (ualarm (timeout h) w)))))
      (\<lambda>(r, w'). r = 0 \<and> q_frame w w')"
    by (rule ensures_bndI) (auto simp: wp intro: q_frame_ualarm)
qed

lemma enqueue_impl_frame: "ensures (vrrp_enqueue_impl entry w) (\<lambda>(r, w'). r = 0 \<and> q_frame w w')"
proof -
  have place: "ensures (enqueue_place p t r (emit (EvUalarm u) w))
      (\<lambda>(r, w'). r = 0 \<and> q_frame w w')" for p t r u
    by (rule ensures_mono [OF enqueue_place_frame]) (auto intro: q_frame_emit)
  show ?thesis
    unfolding vrrp_enqueue_impl_def
    by (auto simp: wp ualarm_def intro!: place) (simp add: q_frame_def)
qed

lemma dequeue_frame: "ensures (vrrp_dequeue w) (\<lambda>(p, w'). p = adv_q w \<and> q_frame w w')"
  unfolding vrrp_dequeue_def Let_def
  by (auto simp: wp intro!: ensures_mono [OF rmqueue_impl_frame])


section \<open>Well-formed queues\<close>

text \<open>
  \<open>queue w xs\<close>: the queue holds exactly \<open>xs\<close>, linked both ways. \<open>unqueued\<close> is a router whose
  links are NULL, as creation and removal leave them.
\<close>

definition queue :: "world \<Rightarrow> nat list \<Rightarrow> bool" where
  "queue w xs \<longleftrightarrow> distinct xs \<and> (\<exists>q. dpath qnext qprev (vr_heap w) None (adv_q w) xs q None)"

definition qtime :: "world \<Rightarrow> nat \<Rightarrow> u32" where
  "qtime w a = (case vr_heap w a of Some v \<Rightarrow> timeout v | None \<Rightarrow> 0)"

interpretation vq: dnode qnext qprev "\<lambda>x v. v\<lparr>qnext := x\<rparr>" "\<lambda>x v. v\<lparr>qprev := x\<rparr>"
  by unfold_locales simp_all

lemma queue_Nil [simp]: "queue w [] \<longleftrightarrow> adv_q w = None"
  by (auto simp: queue_def)

lemma queue_adv_q: "queue w xs \<Longrightarrow> adv_q w = (case xs of [] \<Rightarrow> None | x # _ \<Rightarrow> Some x)"
  by (auto simp: queue_def dest: dpath_head)

lemma queue_member: "queue w xs \<Longrightarrow> a \<in> set xs \<Longrightarrow> \<exists>v. vr_heap w a = Some v"
  by (auto simp: queue_def dest: dpath_alloc)

lemma queue_chain: "queue w xs \<Longrightarrow> chain qnext (vr_heap w) (adv_q w) xs"
  by (auto simp: queue_def dest: dpath_chain)

section \<open>Removing\<close>

text \<open>
  A router in the middle or at the end of the queue is removed as meant: the others keep their
  order, and the time the removed entry stood for is added to the entry before it when another
  entry follows.
\<close>

lemma rmqueue_impl_mid:
  assumes q: "queue w (xs @ b # a # d # ys)"
  shows "returns (vrrp_rmqueue_impl (Some a) w) (\<lambda>(r, w'). r = 0 \<and> queue w' (xs @ b # d # ys) \<and>
      (\<forall>v. vr_heap w' a = Some v \<longrightarrow> qnext v = None \<and> qprev v = None) \<and>
      qtime w' b = qtime w b + qtime w a \<and>
      (\<forall>x. x \<notin> {a, b} \<longrightarrow> qtime w' x = qtime w x))"
proof -
  from q obtain q' where dist: "distinct (xs @ b # a # d # ys)"
    and path: "dpath qnext qprev (vr_heap w) None (adv_q w) (xs @ b # a # d # ys) q' None"
    by (auto simp: queue_def)
  then obtain nb na nd where b: "vr_heap w b = Some nb" and a: "vr_heap w a = Some na"
    and d: "vr_heap w d = Some nd" and links: "qprev na = Some b" "qnext na = Some d" "qprev nd = Some a"
    by (auto simp: dpath_append)
  have neq: "a \<noteq> b" "a \<noteq> d" "b \<noteq> d" using dist by auto
  have "dpath qnext qprev ((vr_heap w)(b := Some (nb\<lparr>qnext := Some d\<rparr>), d := Some (nd\<lparr>qprev := Some b\<rparr>)))
      None (adv_q w) (xs @ b # d # ys) q' None"
    by (rule vq.unlink_mid [OF path dist b d])
  then have "dpath qnext qprev ((vr_heap w)(b := Some (nb\<lparr>qnext := Some d, timeout := timeout nb + timeout na\<rparr>),
      d := Some (nd\<lparr>qprev := Some b\<rparr>), a := Some (na\<lparr>qnext := None, qprev := None\<rparr>)))
      None (adv_q w) (xs @ b # d # ys) q' None"
    by (rule dpath_cong [THEN iffD1, rotated]) (use dist in \<open>auto simp: links_def\<close>)
  then show ?thesis
    using a b d links neq dist
    by (simp add: vrrp_rmqueue_impl_def queue_def qtime_def fun_upd_twist [of d b] fun_upd_twist [of d a]
        fun_upd_twist [of b a] exI [of _ q'])
qed

lemma rmqueue_impl_last:
  assumes q: "queue w (xs @ [b, a])"
  shows "returns (vrrp_rmqueue_impl (Some a) w) (\<lambda>(r, w'). r = 0 \<and> queue w' (xs @ [b]) \<and>
      (\<forall>v. vr_heap w' a = Some v \<longrightarrow> qnext v = None \<and> qprev v = None) \<and>
      (\<forall>x. qtime w' x = qtime w x))"
proof -
  from q obtain q' where dist: "distinct (xs @ [b, a])"
    and path: "dpath qnext qprev (vr_heap w) None (adv_q w) (xs @ [b, a]) q' None"
    by (auto simp: queue_def)
  then obtain nb na where b: "vr_heap w b = Some nb" and a: "vr_heap w a = Some na"
    and links: "qprev na = Some b" "qnext na = None"
    by (auto simp: dpath_append)
  have neq: "a \<noteq> b" using dist by auto
  have "dpath qnext qprev ((vr_heap w)(b := Some (nb\<lparr>qnext := None\<rparr>))) None (adv_q w) (xs @ [b]) (Some b) None"
    by (rule vq.unlink_last [OF path dist b])
  then have "dpath qnext qprev ((vr_heap w)(b := Some (nb\<lparr>qnext := None\<rparr>), a := Some (na\<lparr>qnext := None, qprev := None\<rparr>)))
      None (adv_q w) (xs @ [b]) (Some b) None"
    using dist by simp
  then show ?thesis
    using a b links neq dist
    by (auto simp: vrrp_rmqueue_impl_def queue_def qtime_def)
qed

lemma rmqueue_impl_only:
  assumes "queue w [a]"
  shows "returns (vrrp_rmqueue_impl (Some a) w) (\<lambda>(r, w'). r = 0 \<and> queue w' [] \<and>
      (\<forall>v. vr_heap w' a = Some v \<longrightarrow> qnext v = None \<and> qprev v = None) \<and>
      (\<forall>x. qtime w' x = qtime w x))"
  using assms by (auto simp: queue_def vrrp_rmqueue_impl_def qtime_def)


text \<open>
  Removing the head of a queue that holds another router reads \<open>entry->qprev->timeout\<close>
  through the head's NULL \<open>qprev\<close>: the daemon dies. So does \<open>vrrp_dequeue\<close>, whose every call
  removes the head.
\<close>

theorem dequeue_two_crashes:
  assumes "queue w (a # b # xs)"
  shows "vrrp_rmqueue_impl (Some a) w = Inl NullDeref \<and> vrrp_dequeue w = Inl NullDeref"
proof -
  from assms obtain va vb where "vr_heap w a = Some va" "vr_heap w b = Some vb"
    "qprev va = None" "qnext va = Some b" "adv_q w = Some a" "a \<noteq> b"
    by (auto simp: queue_def)
  then show ?thesis
    by (simp add: vrrp_rmqueue_impl_def vrrp_dequeue_def)
qed

theorem dequeue_two_crashes_witness:
  "vrrp_dequeue (demo_world 0 [1 \<mapsto> demo_node 7 11 5 (Some 2) None, 2 \<mapsto> demo_node 8 12 6 None (Some 1)]
     Map.empty (Some 1)) = Inl NullDeref"
  by (rule dequeue_two_crashes [where a = 1 and b = 2 and xs = "[]", THEN conjunct2])
    (simp add: queue_def)

text \<open>
  Removing a router that is not queued empties the queue: its NULL links make
  \<open>vrrp_rmqueue_impl\<close> take it for the head and set \<open>adv_q\<close> to NULL. The state changes remove
  routers without asking whether they are queued.
\<close>

theorem rmqueue_unqueued_drops_queue:
  assumes "vr_heap w a = Some v" and "qnext v = None" and "qprev v = None"
  shows "returns (vrrp_rmqueue_impl (Some a) w) (\<lambda>(r, w'). r = 0 \<and> queue w' [] \<and> vr_heap w' = vr_heap w)"
  using assms by (auto simp: vrrp_rmqueue_impl_def)

theorem rmqueue_unqueued_drops_queue_witness:
  "returns (vrrp_rmqueue_impl (Some 2)
       (demo_world 0 [1 \<mapsto> demo_node 7 11 5 None None, 2 \<mapsto> demo_node 8 12 6 None None] Map.empty (Some 1)))
     (\<lambda>(r, w'). r = 0 \<and> queue w' [] \<and>
        vr_heap w' = [1 \<mapsto> demo_node 7 11 5 None None, 2 \<mapsto> demo_node 8 12 6 None None])"
  using rmqueue_unqueued_drops_queue [of "demo_world 0 [1 \<mapsto> demo_node 7 11 5 None None,
      2 \<mapsto> demo_node 8 12 6 None None] Map.empty (Some 1)" 2 "demo_node 8 12 6 None None"]
  by simp

section \<open>Inserting\<close>

lemma qtime_Some [simp]: "vr_heap w a = Some v \<Longrightarrow> qtime w a = timeout v"
  by (simp add: qtime_def)

lemma enqueue_impl_empty:
  assumes "adv_q w = None" and "vr_heap w a = Some v"
  shows "vrrp_enqueue_impl (Some a) w = Inr (0, (emit (EvUalarm (timeout v)) w)\<lparr>
     adv_q := Some a, vr_heap := (vr_heap w)(a := Some (v\<lparr>qprev := None, timeout := 0\<rparr>))\<rparr>)"
  using assms by (simp add: vrrp_enqueue_impl_def ualarm_def emit_def)

text \<open>
  The scan as a function of the timeouts on the queue: how many entries it passes.
\<close>

fun scan_stop :: "u32 \<Rightarrow> u32 \<Rightarrow> u32 list \<Rightarrow> nat" where
  "scan_stop t acc [] = 0"
| "scan_stop t acc (x # xs) = (if acc < t then Suc (scan_stop t (acc + x) xs) else 0)"

lemma scan_stop_le: "scan_stop t acc xs \<le> length xs"
  by (induction t acc xs rule: scan_stop.induct) auto

lemma enqueue_scan_step:
  "enqueue_scan w t cur acc =
     (if cur \<noteq> None \<and> acc < t
      then bnd (vload cur w) (\<lambda>c. enqueue_scan w t (qnext c) (acc + timeout c))
      else Inr (cur, acc))"
  unfolding enqueue_scan_def by (subst loop_unfold) (simp add: bnd_assoc)

lemma enqueue_scan_chain:
  "chain qnext (vr_heap w) cur xs \<Longrightarrow> k = scan_stop t acc (map (qtime w) xs) \<Longrightarrow>
   \<exists>s. enqueue_scan w t cur acc = Inr (if k < length xs then Some (xs ! k) else None, s) \<and>
       (k < length xs \<longrightarrow> \<not> s < t)"
proof (induction xs arbitrary: cur acc k)
  case Nil
  then show ?case by (subst enqueue_scan_step) simp
next
  case (Cons a as)
  then obtain v where a: "cur = Some a" "vr_heap w a = Some v" and ch: "chain qnext (vr_heap w) (qnext v) as"
    by auto
  show ?case
  proof (cases "acc < t")
    case True
    with a have "enqueue_scan w t cur acc = enqueue_scan w t (qnext v) (acc + timeout v)"
      by (subst enqueue_scan_step) simp
    moreover have "k = Suc (scan_stop t (acc + timeout v) (map (qtime w) as))"
      using Cons.prems(2) True a by simp
    ultimately show ?thesis
      using Cons.IH [OF ch refl, of "acc + timeout v"] by auto
  next
    case False
    with a Cons.prems(2) show ?thesis by (subst enqueue_scan_step) simp
  qed
qed

lemma qtime_emit [simp]: "qtime (emit e w) = qtime w"
  by (simp add: qtime_def fun_eq_iff)

lemma enqueue_place_past_end:
  assumes "enqueue_scan w t (adv_q w) remain = Inr (None, s)" and "vr_heap w a = Some v"
  shows "enqueue_place (Some a) t remain w = Inl NullDeref"
  using assms by (simp add: enqueue_place_def enqueue_append_def enqueue_before_def)

lemma enqueue_place_head:
  assumes q: "chain qnext (vr_heap w) (adv_q w) (h # xs)" and a: "vr_heap w a = Some v" "a \<notin> set (h # xs)"
    and scan: "enqueue_scan w t (adv_q w) remain = Inr (Some h, s)" "\<not> s < t"
  shows "returns (enqueue_place (Some a) t remain w) (\<lambda>(r, w'). r = 0 \<and>
      (\<exists>v'. vr_heap w' a = Some v' \<and> qprev v' = Some a) \<and>
      chain qnext (vr_heap w') (adv_q w') (a # h # xs))"
proof -
  from q obtain n where h: "adv_q w = Some h" "vr_heap w h = Some n" "chain qnext (vr_heap w) (qnext n) xs"
    by auto
  moreover have "chain qnext ((vr_heap w)(a := Some va, h := Some (n\<lparr>qprev := p\<rparr>))) (Some h) (h # xs)" for va p
    by (rule chain_cong [THEN iffD2, OF _ q [unfolded h(1)]]) (use a h in auto)
  ultimately show ?thesis
    using a scan by (simp add: enqueue_place_def enqueue_before_def ualarm_def fun_upd_twist [of h a])
qed

lemma enqueue_place_inside:
  assumes q: "chain qnext (vr_heap w) (adv_q w) xs" and a: "vr_heap w a = Some v" "a \<notin> set xs"
    and scan: "enqueue_scan w t (adv_q w) remain = Inr (Some c, s)" "\<not> s < t"
    and c: "c \<in> set xs" "vr_heap w c = Some nc" "adv_q w \<noteq> Some c"
  shows "returns (enqueue_place (Some a) t remain w) (\<lambda>(r, w'). r = 0 \<and>
      (\<exists>v'. vr_heap w' a = Some v' \<and> qprev v' = Some a) \<and>
      chain qnext (vr_heap w') (adv_q w') xs)"
proof -
  from c(1) q obtain h n where h: "adv_q w = Some h" "vr_heap w h = Some n"
    by (cases xs) auto
  have "chain qnext ((vr_heap w)(a := va, c := Some (nc\<lparr>qprev := p\<rparr>))) (adv_q w) xs" for va p
    by (rule chain_cong [THEN iffD2, OF _ q]) (use a c in auto)
  with h have "chain qnext ((vr_heap w)(a := va, c := Some (nc\<lparr>qprev := p\<rparr>))) (Some h) xs" for va p
    by simp
  moreover have "a \<noteq> c" "a \<noteq> h" using a c q h by (auto, cases xs, auto)
  ultimately show ?thesis
    using a scan c h
    by (auto simp: enqueue_place_def enqueue_before_def ualarm_def fun_upd_twist [of c a])
qed



section \<open>The queue of one\<close>

text \<open>
  What a timer queue owes its client when it holds at most one entry: an idle entry can be put
  on the empty queue, and taking it gives it back, idle again.
\<close>

locale timer_slot =
  fixes put :: "nat \<Rightarrow> 's \<Rightarrow> 's res"
    and take_first :: "'s \<Rightarrow> (ptr \<times> 's) res"
    and holds :: "'s \<Rightarrow> nat list \<Rightarrow> bool"
    and idle :: "nat \<Rightarrow> 's \<Rightarrow> bool"
  assumes put_empty: "holds s [] \<Longrightarrow> idle a s \<Longrightarrow> returns (put a s) (\<lambda>s'. holds s' [a])"
    and take_one: "holds s [a] \<Longrightarrow>
      returns (take_first s) (\<lambda>(p, s'). p = Some a \<and> holds s' [] \<and> idle a s')"
begin

lemma put_take:
  "holds s [] \<Longrightarrow> idle a s \<Longrightarrow>
   returns (bnd (put a s) take_first) (\<lambda>(p, s'). p = Some a \<and> holds s' [] \<and> idle a s')"
  by (rule returns_bndI [OF put_empty take_one])

text \<open>A round takes the entry and puts it back; any number of rounds finds the same entry.\<close>

lemma round:
  "holds s [a] \<Longrightarrow>
   returns (bnd (take_first s) (\<lambda>(p, s'). case p of None \<Rightarrow> Inr s' | Some b \<Rightarrow> put b s'))
     (\<lambda>s'. holds s' [a])"
  by (rule returns_bndI [OF take_one]) (auto intro: put_empty)

end

definition idle :: "nat \<Rightarrow> world \<Rightarrow> bool" where
  "idle a w \<longleftrightarrow> (\<exists>v. vr_heap w a = Some v \<and> qnext v = None \<and> qprev v = None)"

interpretation adv_slot: timer_slot "\<lambda>a w. map_sum id snd (vrrp_enqueue_impl (Some a) w)"
  vrrp_dequeue queue idle
proof unfold_locales
  fix w a assume "queue w []" and "idle a w"
  then show "returns (map_sum id snd (vrrp_enqueue_impl (Some a) w)) (\<lambda>w'. queue w' [a])"
    by (auto simp: idle_def enqueue_impl_empty queue_def)
next
  fix w a assume q: "queue w [a]"
  then obtain v where "vr_heap w a = Some v" "adv_q w = Some a" "qprev v = None" "qnext v = None"
    by (auto simp: queue_def)
  then show "returns (vrrp_dequeue w) (\<lambda>(p, w'). p = Some a \<and> queue w' [] \<and> idle a w')"
    by (simp add: vrrp_dequeue_def vrrp_rmqueue_impl_def idle_def)
qed

text \<open>
  C15: On a queue that holds at most one router the two operations do what they are for:
  \<open>vrrp_dequeue\<close> after \<open>vrrp_enqueue_impl\<close> gives the router back and leaves the queue empty and the
  router free to be queued again.
\<close>

theorem enqueue_dequeue:
  assumes "queue w []" and "idle a w"
  shows "returns (bnd (map_sum id snd (vrrp_enqueue_impl (Some a) w)) vrrp_dequeue)
    (\<lambda>(p, w'). p = Some a \<and> queue w' [] \<and> idle a w')"
  by (rule adv_slot.put_take [OF assms])

theorem enqueue_dequeue_witness:
  "returns (bnd (map_sum id snd (vrrp_enqueue_impl (Some 1)
       (demo_world 0 [1 \<mapsto> demo_node 7 11 5 None None] Map.empty None))) vrrp_dequeue)
     (\<lambda>(p, w'). p = Some 1 \<and> queue w' [] \<and> idle 1 w')"
  by (rule enqueue_dequeue) (simp_all add: idle_def)

end
