(* ===== verification/Wire.thy ===== *)
theory Wire
  imports Prelude
begin

text \<open>
  Codecs: what a sender that writes fields into a message and a receiver that reads them back
  rely on. A fixed-width codec is a C object copied byte by byte; a prefix codec reads a value
  off the front of a message and leaves the rest.
\<close>

section \<open>Values of fixed width\<close>

locale fixed_codec =
  fixes enc :: "'a \<Rightarrow> u8 list" and dec :: "u8 list \<Rightarrow> 'a" and width :: nat
  assumes enc_width: "length (enc x) = width"
    and dec_enc: "dec (enc x) = x"
begin

lemma enc_inj: "enc x = enc y \<Longrightarrow> x = y"
  by (metis dec_enc)

text \<open>A value stored at an offset of a buffer is read back there, whatever follows it.\<close>

lemma load_store:
  "off + width \<le> length buf \<Longrightarrow> dec (peek off width (poke off (enc x) buf)) = x"
  by (simp add: peek_poke_same enc_width dec_enc)

lemma load_front: "dec (take width (enc x @ rest)) = x"
  by (simp add: enc_width dec_enc)

end

interpretation le32c: fixed_codec le32 "get32 0" 4
  by unfold_locales simp_all

interpretation le16c: fixed_codec le16 "\<lambda>b. un16 (b ! 0) (b ! 1)" 2
  by unfold_locales (simp_all add: le16_def un16_le16)

interpretation be16c: fixed_codec be16 "\<lambda>b. un16 (b ! 1) (b ! 0)" 2
  by unfold_locales (simp_all add: be16_def un16_le16)

section \<open>Values at the front of a message\<close>

locale prefix_codec =
  fixes enc :: "'a \<Rightarrow> u8 list" and dec :: "u8 list \<Rightarrow> ('a \<times> u8 list) res" and ok :: "'a \<Rightarrow> bool"
  assumes dec_front: "ok x \<Longrightarrow> dec (enc x @ rest) = Inr (x, rest)"
begin

lemma front_inj: "ok x \<Longrightarrow> ok y \<Longrightarrow> enc x @ r = enc y @ s \<Longrightarrow> x = y \<and> r = s"
  by (metis dec_front sum.inject(2) prod.inject)

end

text \<open>A fixed-width codec reads off the front by splitting the message at its width.\<close>

definition take_dec :: "nat \<Rightarrow> (u8 list \<Rightarrow> 'a) \<Rightarrow> u8 list \<Rightarrow> ('a \<times> u8 list) res" where
  "take_dec n dec msg = (if n \<le> length msg then Inr (dec (take n msg), drop n msg) else Inl OutOfBounds)"

sublocale fixed_codec \<subseteq> front: prefix_codec enc "take_dec width dec" "\<lambda>_. True"
proof (rule prefix_codec.intro)
  fix x rest
  have "width \<le> length (enc x @ rest)" by (simp add: enc_width)
  then show "take_dec width dec (enc x @ rest) = Inr (x, rest)"
    by (simp only: take_dec_def if_True load_front) (simp add: enc_width)
qed

text \<open>Two codecs in sequence.\<close>

locale codec_seq =
  a: prefix_codec enc1 dec1 ok1 + b: prefix_codec enc2 dec2 ok2
  for enc1 :: "'a \<Rightarrow> u8 list" and dec1 ok1 and enc2 :: "'b \<Rightarrow> u8 list" and dec2 ok2
begin

lemma seq_front:
  "ok1 x \<Longrightarrow> ok2 y \<Longrightarrow>
   bnd (dec1 (enc1 x @ enc2 y @ rest)) (\<lambda>(x, m). bnd (dec2 m) (\<lambda>(y, m). Inr ((x, y), m))) =
   Inr ((x, y), rest)"
  by (simp add: a.dec_front b.dec_front)

end

end
