(* ===== verification/Advert.thy ===== *)
theory Advert
  imports AdvQueue Wire
begin

text \<open>
  The advertisement packet: its construction (\<open>CreateEthernetHeader\<close>, \<open>CreateIPHeader\<close>,
  \<open>CreateVRRPHeader\<close> of vrrpd_adv.c, \<open>vrrp_build_pkt\<close> of vrrpd.c), its transmission and how the
  receiver reads the instance out of it. The payload is the C structure \<open>vrrp_inst_t\<close> as it
  lies in memory on the 32-bit little-endian target: 76 bytes, with padding and an unused
  pointer that keep the bytes the allocation had.
\<close>

section \<open>The structure \<open>vrrp_inst_t\<close> in memory\<close>

definition sizeof_ethhdr :: nat where [simp]: "sizeof_ethhdr = 14"
definition sizeof_iphdr :: nat where [simp]: "sizeof_iphdr = 20"
definition sizeof_vrrp_inst :: nat where [simp]: "sizeof_vrrp_inst = 76"

text \<open>Reading the structure at the front of \<open>b\<close>; \<open>ip\<close> is what its pointer member points at.\<close>

definition inst_at :: "u8 list \<Rightarrow> u8 list \<Rightarrow> vrrp_inst" where
  "inst_at ip b =
     \<lparr>vi_va = \<lparr>pri = get8 0 b, delay = get32 4 b, pree_mode = get32 8 b, accept_mode = get32 12 b\<rparr>,
      vi_vr = \<lparr>vr_id = get8 16 b, vr_af = get32 20 b, vr_in4 = get32 24 b, vr_ipnum = get8 28 b,
               vr_ip = ip, vr_ifname = peek 36 32 b\<rparr>,
      vi_state = get8 68 b, vi_active = get32 72 b\<rparr>"

section \<open>Building the packet\<close>

definition phy_dst :: "u8 list" where
  "phy_dst = [0x01, 0x00, 0x5e, 0x00, 0x00, 0x12]"

text \<open>\<open>vrrp_vr_vmac\<close>: a freshly allocated copy of 00:00:5e:00:01:vrid.\<close>

definition vrrp_vr_vmac :: "u8 \<Rightarrow> world \<Rightarrow> (u8 list \<times> world) res" where
  "vrrp_vr_vmac vrid w =
     bnd (scratch w) (\<lambda>w. Inr ([0x00, 0x00, 0x5e, 0x00, 0x01, vrid], w))"

text \<open>\<open>CreateEthernetHeader\<close>: \<open>h_dest\<close> at 0, \<open>h_source\<close> at 6, \<open>h_proto\<close> at 12.\<close>

definition CreateEthernetHeader :: "vrrp_vr \<Rightarrow> u8 list \<Rightarrow> u16 \<Rightarrow> world \<Rightarrow> (u8 list \<times> world) res" where
  "CreateEthernetHeader r buf protocol w =
     bnd (vrrp_vr_vmac (vr_id r) w) (\<lambda>(mac, w).
     let buf = poke 6 mac buf;
         buf = poke 0 phy_dst buf;
         buf = poke 12 (be16 protocol) buf
     in Inr (buf, w))"

text \<open>
  \<open>CreateIPHeader\<close> on the buffer from \<open>off\<close> on. Version and header length share a byte; the
  identification is stored without \<open>htons\<close>; the checksum stays 0.
\<close>

definition CreateIPHeader :: "vrrp_vr \<Rightarrow> nat \<Rightarrow> u8 list \<Rightarrow> u8 list" where
  "CreateIPHeader r off buf =
     (let buf = poke off [0x45] buf;
          buf = poke (off + 1) [0] buf;
          buf = poke (off + 2) (be16 20) buf;
          buf = poke (off + 4) (le16 13579) buf;
          buf = poke (off + 6) [0, 0] buf;
          buf = poke (off + 8) [VRRP_IP_TTL] buf;
          buf = poke (off + 9) [IPPROTO_VRRP] buf;
          buf = poke (off + 12) (le32 (vr_in4 r)) buf;
          buf = poke (off + 16) INADDR_VRRP_GROUP buf
      in poke (off + 10) [0, 0] buf)"

text \<open>
  The stores of \<open>CreateVRRPHeader\<close> into its freshly allocated structure \<open>vi\<close>; the copy of
  the interface name overflows the member when it has no NUL.
\<close>

definition fill_inst :: "vrrpd_ds \<Rightarrow> vrrpd_vr_ds \<Rightarrow> cint \<Rightarrow> u8 list \<Rightarrow> u8 list res" where
  "fill_inst p v priority vi =
     (let vi = poke 0 [pri (attr v)] vi;
          vi = (if priority = 0 then poke 0 [0] vi else vi);
          vi = poke 4 (le32 (delay (attr v))) vi;
          vi = poke 8 (le32 (pree_mode (attr v))) vi;
          vi = poke 12 (le32 (accept_mode (attr v))) vi;
          vi = poke 16 [vr_id (vr v)] vi;
          vi = poke 20 (le32 (vr_af (vr v))) vi;
          vi = poke 24 (le32 (vr_in4 (vr v))) vi;
          vi = poke 28 [vr_ipnum (vr v)] vi
      in bnd (strcpy (peek 36 32 vi) (vr_ifname (vr v))) (\<lambda>name.
         let vi = poke 36 name vi;
             vi = poke 68 [state p] vi
         in Inr (poke 72 (le32 (active p)) vi)))"

definition CreateVRRPHeader :: "ptr \<Rightarrow> nat \<Rightarrow> u8 list \<Rightarrow> cint \<Rightarrow> world \<Rightarrow> (u8 list \<times> world) res" where
  "CreateVRRPHeader p off buf priority w =
     bnd (scratch w) (\<lambda>w'.
     bnd (dload p w') (\<lambda>d.
     bnd (vload (ds_vr d) w') (\<lambda>v.
     bnd (fill_inst d v priority (junk (os w) (brk w) sizeof_vrrp_inst)) (\<lambda>vi.
     Inr (poke off vi buf, w')))))"

definition vrrp_hdr_len :: nat where [simp]: "vrrp_hdr_len = sizeof_vrrp_inst"

text \<open>\<open>vrrp_build_pkt\<close>; the dotted form of the address goes to a buffer nobody reads.\<close>

definition vrrp_build_pkt :: "ptr \<Rightarrow> u8 list \<Rightarrow> cint \<Rightarrow> world \<Rightarrow> (u8 list \<times> world) res" where
  "vrrp_build_pkt p buf priority w =
     bnd (dload p w) (\<lambda>d.
     bnd (vload (ds_vr d) w) (\<lambda>v.
     bnd (CreateEthernetHeader (vr v) buf ETH_P_IP w) (\<lambda>(buf, w).
     bnd (scratch w) (\<lambda>w.
     let buf = CreateIPHeader (vr v) sizeof_ethhdr buf in
     CreateVRRPHeader p (sizeof_ethhdr + sizeof_iphdr) buf priority w))))"

section \<open>Sending\<close>

text \<open>
  \<open>SendVRRPPacket\<close>. The test of \<open>setsockopt\<close> is inverted in the code: it gives up when the
  call succeeds.
\<close>

definition SendVRRPPacket :: "cint \<Rightarrow> u8 list \<Rightarrow> world \<Rightarrow> u32 \<times> world" where
  "SendVRRPPacket raw pkt w =
     (let r = setsockopt_ret (os w) (trace w); w = emit (EvSetsockopt raw) w in
      if r = 0 then (-1, w)
      else
        (let sent = write_ret (os w) (trace w); w = emit (EvWrite raw pkt) w in
         if sent \<noteq> of_nat (length pkt) then (-1, w) else (VRRP_SUCCESS, w)))"

definition fd_at :: "nat option \<Rightarrow> world \<Rightarrow> vrrp_intf_fd res" where
  "fd_at p w = (case p of None \<Rightarrow> Inl NullDeref
     | Some i \<Rightarrow> if i < length (netfds w) then Inr (netfds w ! i) else Inl WildPointer)"

definition vrrp_send_adv :: "ptr \<Rightarrow> cint \<Rightarrow> world \<Rightarrow> (u32 \<times> world) res" where
  "vrrp_send_adv p priority w =
     bnd (dload p w) (\<lambda>d.
     bnd (vload (ds_vr d) w) (\<lambda>v.
     let netfd = vfd v; buflen = sizeof_ethhdr + sizeof_iphdr + vrrp_hdr_len in
     bnd (vrrp_build_pkt p (junk (os w) (brk w) 4096) priority w) (\<lambda>(buf, w).
     bnd (fd_at netfd w) (\<lambda>fd.
     let (r, w) = SendVRRPPacket (s_send fd) (take buflen buf) w in
     Inr (if r = VRRP_SUCCESS then VRRP_SUCCESS else VRRP_ESYS, w)))))"


section \<open>What the builders write\<close>

lemma poke_pre: "length pre = off \<Longrightarrow> poke (off + i) bs (pre @ rest) = pre @ poke i bs rest"
  by (simp add: poke_def)

lemma CreateEthernetHeader_eq:
  assumes "no_oom w" and "14 \<le> length buf"
  shows "CreateEthernetHeader r buf proto w =
    Inr (phy_dst @ [0, 0, 0x5e, 0, 1, vr_id r] @ be16 proto @ drop 14 buf, w\<lparr>brk := Suc (brk w)\<rparr>)"
  using assms
  by (simp add: CreateEthernetHeader_def vrrp_vr_vmac_def poke_def phy_dst_def be16_def)

definition ip_header :: "u32 \<Rightarrow> u8 list" where
  "ip_header saddr = [0x45, 0] @ be16 20 @ le16 13579 @ [0, 0, 255, 112, 0, 0] @ le32 saddr @ [224, 0, 0, 18]"

lemma length_ip_header [simp]: "length (ip_header s) = 20"
  by (simp add: ip_header_def)

lemma poke_fill:
  "length h = i \<Longrightarrow> poke i bs (h @ drop i rest) = (h @ bs) @ drop (i + length bs) rest"
  by (simp add: poke_def add.commute)

lemma poke_over:
  "length h = i \<Longrightarrow> length g = length bs \<Longrightarrow> poke i bs (h @ g @ y) = h @ bs @ y"
  by (simp add: poke_def)

lemma CreateIPHeader_front:
  assumes "20 \<le> length rest"
  shows "CreateIPHeader r 0 rest = ip_header (vr_in4 r) @ drop 20 rest"
proof -
  let ?h10 = "[0x45, 0] @ be16 20 @ le16 13579 @ [0, 0, 255, 112]" and ?g = "take 2 (drop 10 rest)"
  have h: "poke 9 [112] (poke 8 [255] (poke 6 [0, 0] (poke 4 (le16 13579) (poke 2 (be16 20)
      (poke 1 [0] (poke 0 [0x45] rest)))))) = ?h10 @ drop 10 rest"
    using poke_fill [of "[]" 0 "[0x45]" rest] poke_fill [of "[0x45]" 1 "[0]" rest]
      poke_fill [of "[0x45, 0]" 2 "be16 20" rest] poke_fill [of "[0x45, 0] @ be16 20" 4 "le16 13579" rest]
      poke_fill [of "[0x45, 0] @ be16 20 @ le16 13579" 6 "[0, 0]" rest]
      poke_fill [of "[0x45, 0] @ be16 20 @ le16 13579 @ [0, 0]" 8 "[255]" rest]
      poke_fill [of "[0x45, 0] @ be16 20 @ le16 13579 @ [0, 0, 255]" 9 "[112]" rest]
    by (simp add: numeral_2_eq_2 [symmetric])
  have gap: "?h10 @ drop 10 rest = (?h10 @ ?g) @ drop 12 rest"
    using append_take_drop_id [of 2 "drop 10 rest"] by simp
  have g: "length ?g = 2" using assms by simp
  have rest_fields: "poke 16 INADDR_VRRP_GROUP (poke 12 (le32 a) ((?h10 @ ?g) @ drop 12 rest)) =
      ?h10 @ ?g @ le32 a @ INADDR_VRRP_GROUP @ drop 20 rest" for a
    using poke_fill [of "?h10 @ ?g" 12 "le32 a" rest] g
      poke_fill [of "?h10 @ ?g @ le32 a" 16 INADDR_VRRP_GROUP rest]
    by (simp add: INADDR_VRRP_GROUP_def)
  have check: "poke 10 [0, 0] (?h10 @ ?g @ y) = ?h10 @ [0, 0] @ y" for y
    by (rule poke_over) (use g in simp_all)
  show ?thesis
    by (simp only: CreateIPHeader_def Let_def add_0 h gap rest_fields check VRRP_IP_TTL_def
        IPPROTO_VRRP_def) (simp add: ip_header_def INADDR_VRRP_GROUP_def)
qed

lemma CreateIPHeader_pre:
  assumes "length pre = off"
  shows "CreateIPHeader r off (pre @ rest) = pre @ CreateIPHeader r 0 rest"
  by (simp only: CreateIPHeader_def Let_def add_0 poke_pre [OF assms]
      poke_pre [OF assms, of 0, unfolded add_0_right])

lemma CreateIPHeader_eq:
  assumes "length pre = off" and "20 \<le> length rest"
  shows "CreateIPHeader r off (pre @ rest) = pre @ ip_header (vr_in4 r) @ drop 20 rest"
  using assms by (simp add: CreateIPHeader_pre CreateIPHeader_front)


section \<open>The structure the payload carries\<close>

text \<open>A router as the daemon creates it from a well-formed request: a 32-byte name with a NUL.\<close>

definition wf_vr :: "vrrp_vr \<Rightarrow> bool" where
  "wf_vr r \<longleftrightarrow> length (vr_ifname r) = 32 \<and> has_nul (vr_ifname r)"

text \<open>
  What the receiver finds in the structure: the sender's fields, priority 0 when asked for, and
  the interface name followed by whatever the allocation held.
\<close>

definition sent_inst :: "u8 list \<Rightarrow> vrrpd_ds \<Rightarrow> vrrpd_vr_ds \<Rightarrow> cint \<Rightarrow> u8 list \<Rightarrow> vrrp_inst" where
  "sent_inst ip p v priority m =
     \<lparr>vi_va = (attr v)\<lparr>pri := if priority = 0 then 0 else pri (attr v)\<rparr>,
      vi_vr = (vr v)\<lparr>vr_ip := ip, vr_ifname := poke 0 (cstr (vr_ifname (vr v)) @ [0]) (peek 36 32 m)\<rparr>,
      vi_state = state p, vi_active = active p\<rparr>"

lemma poke_twice: "length xs = length ys \<Longrightarrow> off \<le> length m \<Longrightarrow> poke off xs (poke off ys m) = poke off xs m"
  by (simp add: poke_def)

lemma fill_inst_ok:
  assumes m: "length m = 76" and wf: "wf_vr (vr v)"
  shows "returns (fill_inst d v priority m) (\<lambda>vi. length vi = 76 \<and>
     inst_at ip vi = sent_inst ip d v priority m)"
proof -
  let ?n = "cstr (vr_ifname (vr v))"
  have n: "length ?n < 32" using wf length_cstr_nul [of "vr_ifname (vr v)"] by (simp add: wf_vr_def)
  have cpy: "strcpy (peek 36 32 b) (vr_ifname (vr v)) = Inr (poke 0 (?n @ [0]) (peek 36 32 b))"
    if "length b = 76" for b
    using that n by (simp add: strcpy_def)
  have len: "length (poke 0 (?n @ [0]) (peek 36 32 b)) = 32" if "length b = 76" for b
    using that n by simp
  have p0: "(if priority = 0 then poke 0 [0] (poke 0 [x] m) else poke 0 [x] m) =
      poke 0 [if priority = 0 then 0 else x] m" for x :: u8
    by (simp add: poke_twice m)
  show ?thesis
    using m
    by (simp add: fill_inst_def Let_def p0 cpy len inst_at_def sent_inst_def get8_from get32_from layout)
qed


section \<open>The packet and its transmission\<close>

definition adv_headers :: "vrrp_vr \<Rightarrow> u8 list" where
  "adv_headers r = phy_dst @ [0, 0, 0x5e, 0, 1, vr_id r] @ be16 ETH_P_IP @ ip_header (vr_in4 r)"

lemma length_adv_headers [simp]: "length (adv_headers r) = 34"
  by (simp add: adv_headers_def phy_dst_def)

text \<open>
  A router that can advertise: its instance \<open>d\<close> and itself are allocated, its interface name ends
  in a NUL and its descriptors were set up.
\<close>

definition sendable :: "world \<Rightarrow> nat \<Rightarrow> vrrpd_ds \<Rightarrow> vrrpd_vr_ds \<Rightarrow> vrrp_intf_fd \<Rightarrow> bool" where
  "sendable w p d v fd \<longleftrightarrow> no_oom w \<and> ds_heap w p = Some d \<and> (\<exists>a. ds_vr d = Some a \<and> vr_heap w a = Some v) \<and>
     wf_vr (vr v) \<and> (\<exists>i. vfd v = Some i \<and> i < length (netfds w) \<and> fd = netfds w ! i)"

lemma no_oom_simps [simp]:
  "no_oom (w\<lparr>brk := n\<rparr>) = no_oom w" "no_oom (w\<lparr>vr_heap := h\<rparr>) = no_oom w"
  "no_oom (w\<lparr>ds_heap := g\<rparr>) = no_oom w" "no_oom (emit e w) = no_oom w"
  "no_oom (w\<lparr>trace := t\<rparr>) = no_oom w"
  by (simp_all add: no_oom_def)

lemma build_pkt_ok:
  assumes s: "sendable w p d v fd" and buf: "110 \<le> length buf"
  shows "\<exists>vi. vrrp_build_pkt (Some p) buf priority w =
      Inr (adv_headers (vr v) @ vi @ drop 110 buf, w\<lparr>brk := brk w + 3\<rparr>) \<and>
    length vi = 76 \<and> inst_at ip vi = sent_inst ip d v priority (junk (os w) (brk w + 2) 76)"
proof -
  from s obtain a where a: "ds_vr d = Some a" "vr_heap w a = Some v" and d: "ds_heap w p = Some d"
    and oom: "no_oom w" and wf: "wf_vr (vr v)"
    by (auto simp: sendable_def)
  obtain vi where vi: "fill_inst d v priority (junk (os w) (brk w + 2) 76) = Inr vi" "length vi = 76"
    "inst_at ip vi = sent_inst ip d v priority (junk (os w) (brk w + 2) 76)"
    using fill_inst_ok [of "junk (os w) (brk w + 2) 76" v d priority ip] wf
    by (auto elim: returnsE)
  let ?e = "phy_dst @ [0, 0, 0x5e, 0, 1, vr_id (vr v)] @ be16 ETH_P_IP"
  have e: "length ?e = 14" by (simp add: phy_dst_def)
  have ip: "CreateIPHeader (vr v) 14 (?e @ drop 14 buf) = ?e @ ip_header (vr_in4 (vr v)) @ drop 34 buf"
    using CreateIPHeader_eq [OF e, of "drop 14 buf" "vr v"] buf by simp
  have pk: "poke 34 vi (adv_headers (vr v) @ drop 34 buf) = adv_headers (vr v) @ vi @ drop 110 buf"
    using buf vi(2) by (simp add: poke_def)
  have "vrrp_build_pkt (Some p) buf priority w =
      Inr (adv_headers (vr v) @ vi @ drop 110 buf, w\<lparr>brk := brk w + 3\<rparr>)"
    using a d oom vi(1) buf ip pk
    by (simp add: vrrp_build_pkt_def CreateVRRPHeader_def CreateEthernetHeader_eq adv_headers_def
        numeral_3_eq_3)
  with vi show ?thesis by blast
qed

definition send_reply :: "world \<Rightarrow> cint \<Rightarrow> u32" where
  "send_reply w raw =
     (if setsockopt_ret (os w) (trace w) = 0 then VRRP_ESYS
      else if write_ret (os w) (trace w @ [EvSetsockopt raw]) = 110 then VRRP_SUCCESS else VRRP_ESYS)"

lemma send_adv_ok:
  assumes "sendable w p d v fd"
  shows "\<exists>pkt. vrrp_send_adv (Some p) priority w = Inr (send_reply w (s_send fd),
      w\<lparr>brk := brk w + 3, trace := trace w @ EvSetsockopt (s_send fd) #
         (if setsockopt_ret (os w) (trace w) = 0 then [] else [EvWrite (s_send fd) pkt])\<rparr>) \<and>
    length pkt = 110 \<and> take 34 pkt = adv_headers (vr v) \<and>
    inst_at ip (drop 34 pkt) = sent_inst ip d v priority (junk (os w) (brk w + 2) 76)"
proof -
  let ?buf = "junk (os w) (brk w) 4096"
  obtain vi where b: "vrrp_build_pkt (Some p) ?buf priority w =
      Inr (adv_headers (vr v) @ vi @ drop 110 ?buf, w\<lparr>brk := brk w + 3\<rparr>)"
    and vi: "length vi = 76" "inst_at ip vi = sent_inst ip d v priority (junk (os w) (brk w + 2) 76)"
    using build_pkt_ok [OF assms, of ?buf priority ip] by auto
  have "take 110 (adv_headers (vr v) @ vi @ drop 110 ?buf) = adv_headers (vr v) @ vi"
    using vi by simp
  then show ?thesis
    using assms b vi
    by (intro exI [of _ "adv_headers (vr v) @ vi"])
      (auto simp: sendable_def vrrp_send_adv_def fd_at_def SendVRRPPacket_def send_reply_def
        Let_def emit_def)
qed

text \<open>
  C11: What sending an advertisement does. It asks for the multicast TTL and, only if that call
  fails, writes one packet: Ethernet and IP headers for the group with the virtual MAC as the
  source, and the instance as \<open>sent_inst\<close> says. Nothing else changes but the three leaked
  allocations.
\<close>

theorem send_adv_spec:
  assumes "sendable w p d v fd"
  shows "\<exists>pkt. vrrp_send_adv (Some p) priority w = Inr (send_reply w (s_send fd),
      w\<lparr>brk := brk w + 3, trace := trace w @ EvSetsockopt (s_send fd) #
         (if setsockopt_ret (os w) (trace w) = 0 then [] else [EvWrite (s_send fd) pkt])\<rparr>) \<and>
    length pkt = 110 \<and> take 34 pkt = adv_headers (vr v) \<and>
    inst_at ip (drop 34 pkt) = sent_inst ip d v priority (junk (os w) (brk w + 2) 76)"
  by (rule send_adv_ok [OF assms])

theorem send_adv_spec_witness:
  "\<exists>r w'. vrrp_send_adv (Some 1) 1 (demo_world 0 [11 \<mapsto> demo_node 7 1 0 None None]
      [1 \<mapsto> demo_inst 2 (Some 11) None (Some 0)] None) = Inr (r, w') \<and> r = 0 \<and> length (trace w') = 2"
  using send_adv_spec [of "demo_world 0 [11 \<mapsto> demo_node 7 1 0 None None]
      [1 \<mapsto> demo_inst 2 (Some 11) None (Some 0)] None" 1 "demo_inst 2 (Some 11) None (Some 0)"
      "demo_node 7 1 0 None None" demo_fd 1 "[]"]
  by (auto simp: sendable_def wf_vr_def has_nul_def demo_ifname_def send_reply_def)

end
