(* ===== verification/AdmProto.thy ===== *)
theory AdmProto
  imports Advert
begin

text \<open>
  The protocol between vrrpadm and vrrpd (libvrrp.c): \<open>build_vrrp_cmd\<close> writes a command and its
  arguments into a buffer, \<open>parse_vrrp_cmd\<close> takes them out again on the other side.
\<close>

definition BUFSIZE :: nat where "BUFSIZE = 65535"

section \<open>Arguments and buffers\<close>

text \<open>
  The arguments of the variadic functions. \<open>ArgInst m i\<close> is a pointer to a structure whose padding
  and pointer member hold the bytes of \<open>m\<close>; \<open>ArgOut\<close> is a pointer nobody reads. Reading an
  argument as something it is not is undefined, here a wild pointer.
\<close>

datatype cmd_arg = ArgInt cint | ArgStr "u8 list" | ArgInst "u8 list" vrrp_inst | ArgOut

fun va_int :: "cmd_arg list \<Rightarrow> (cint \<times> cmd_arg list) res" where
  "va_int (ArgInt i # rest) = Inr (i, rest)"
| "va_int _ = Inl WildPointer"

fun va_str :: "cmd_arg list \<Rightarrow> (u8 list \<times> cmd_arg list) res" where
  "va_str (ArgStr s # rest) = Inr (s, rest)"
| "va_str _ = Inl WildPointer"

fun va_inst :: "cmd_arg list \<Rightarrow> (u8 list \<times> vrrp_inst \<times> cmd_arg list) res" where
  "va_inst (ArgInst m i # rest) = Inr (m, i, rest)"
| "va_inst _ = Inl WildPointer"

text \<open>A write at the cursor, and a read of \<open>n\<close> bytes at an offset.\<close>

definition put :: "u8 list \<Rightarrow> u8 list \<times> nat \<Rightarrow> (u8 list \<times> nat) res" where
  "put bs b = (let (buf, off) = b in
     if off + length bs \<le> length buf then Inr (poke off bs buf, off + length bs) else Inl BufferOverflow)"

definition fetch :: "nat \<Rightarrow> nat \<Rightarrow> u8 list \<Rightarrow> u8 list res" where
  "fetch off n buf = (if off + n \<le> length buf then Inr (peek off n buf) else Inl OutOfBounds)"

definition fetch_int :: "nat \<Rightarrow> u8 list \<Rightarrow> cint res" where
  "fetch_int off buf = bnd (fetch off 4 buf) (\<lambda>b. Inr (get32 0 b))"

text \<open>The structure as it lies in memory, on top of what its padding held.\<close>

definition inst_mem :: "u8 list \<Rightarrow> vrrp_inst \<Rightarrow> u8 list" where
  "inst_mem m i =
     (let m = poke 0 [pri (vi_va i)] m;
          m = poke 4 (le32 (delay (vi_va i))) m;
          m = poke 8 (le32 (pree_mode (vi_va i))) m;
          m = poke 12 (le32 (accept_mode (vi_va i))) m;
          m = poke 16 [vr_id (vi_vr i)] m;
          m = poke 20 (le32 (vr_af (vi_vr i))) m;
          m = poke 24 (le32 (vr_in4 (vi_vr i))) m;
          m = poke 28 [vr_ipnum (vi_vr i)] m;
          m = poke 36 (vr_ifname (vi_vr i)) m;
          m = poke 68 [vi_state i] m
      in poke 72 (le32 (vi_active i)) m)"

section \<open>Building and parsing a command\<close>

definition has_ids :: "u32 \<Rightarrow> bool" where
  "has_ids cmd \<longleftrightarrow> cmd = CMD_REMOVE_INST \<or> cmd = CMD_STARTUP_INST \<or> cmd = CMD_SHUTDOWN_INST \<or>
     cmd = CMD_MODIFY_INST \<or> cmd = CMD_GET_INSTX"

definition build_ids :: "u8 list \<times> nat \<Rightarrow> cmd_arg list \<Rightarrow> (cmd_arg list \<times> u8 list \<times> nat) res" where
  "build_ids b as =
     bnd (va_int as) (\<lambda>(vid, as).
     bnd (va_str as) (\<lambda>(intf, as).
     bnd (va_int as) (\<lambda>(af, as).
     bnd (put [ucast vid] b) (\<lambda>b.
     bnd (put (cstr intf @ [0]) b) (\<lambda>b.
     bnd (put (le32 af) b) (\<lambda>b. Inr (as, b)))))))"

text \<open>\<open>alen\<close> bytes are read from the memory \<open>vr_ip\<close> points at.\<close>

definition build_inst :: "u8 list \<times> nat \<Rightarrow> cmd_arg list \<Rightarrow> (u8 list \<times> nat) res" where
  "build_inst b as =
     bnd (va_inst as) (\<lambda>(m, vi, _).
     let alen = unat (vr_ipnum (vi_vr vi)) * 4 in
     bnd (put (inst_mem m vi) b) (\<lambda>b.
     bnd (fetch 0 alen (vr_ip (vi_vr vi))) (\<lambda>ips. put ips b)))"

definition build_attrs :: "u8 list \<times> nat \<Rightarrow> cmd_arg list \<Rightarrow> (u8 list \<times> nat) res" where
  "build_attrs b as =
     bnd (va_int as) (\<lambda>(pri, as).
     bnd (va_int as) (\<lambda>(delay, as).
     bnd (va_int as) (\<lambda>(pree_mode, as).
     bnd (va_int as) (\<lambda>(acpt_mode, as).
     bnd (put (le32 pri) b) (\<lambda>b.
     bnd (put (le32 delay) b) (\<lambda>b.
     bnd (put (le32 pree_mode) b) (\<lambda>b.
     put (le32 acpt_mode) b)))))))"

text \<open>
  \<open>build_vrrp_cmd\<close>: the buffer and the length of the command. The dotted address it prints goes to
  20 bytes that it allocates (\<open>mem\<close> tells whether it gets them) and never frees.
\<close>

definition build_vrrp_cmd :: "bool \<Rightarrow> u8 list \<Rightarrow> u32 \<Rightarrow> cmd_arg list \<Rightarrow> (u8 list \<times> nat) res" where
  "build_vrrp_cmd mem buf cmd as =
     bnd (put (le32 cmd) (buf, 0)) (\<lambda>b.
     bnd (if has_ids cmd then build_ids b as else Inr (as, b)) (\<lambda>(as, b).
     if cmd = CMD_CREATE_INST then if mem then build_inst b as else Inl NullDeref
     else if cmd = CMD_MODIFY_INST then build_attrs b as
     else Inr b))"

text \<open>What \<open>parse_vrrp_cmd\<close> stores through the pointers it is given.\<close>

datatype parsed =
    PNothing
  | PIds u8 "u8 list" cint
  | PModify u8 "u8 list" cint cint cint cint cint
  | PInst vrrp_inst
  | PReturn u32

definition get_vrrp_cmd :: "u8 list \<Rightarrow> u32 res" where
  "get_vrrp_cmd buf = fetch_int 0 buf"

text \<open>The name is copied to the caller's array \<open>intf\<close>; the rest of the message starts after it.\<close>

definition parse_ids :: "u8 list \<Rightarrow> u8 list \<Rightarrow> (u8 \<times> u8 list \<times> cint \<times> nat) res" where
  "parse_ids buf intf =
     bnd (fetch 4 1 buf) (\<lambda>vid.
     bnd (strcpy intf (drop 5 buf)) (\<lambda>intf.
     let ptr = 5 + length (cstr intf) + 1 in
     bnd (fetch_int ptr buf) (\<lambda>af. Inr (hd vid, intf, af, ptr + 4))))"

definition parse_vrrp_cmd :: "u8 list \<Rightarrow> u32 \<Rightarrow> u8 list \<Rightarrow> parsed res" where
  "parse_vrrp_cmd buf cmd intf =
     (if has_ids cmd then
        bnd (parse_ids buf intf) (\<lambda>(vid, intf, af, ptr).
        if cmd = CMD_MODIFY_INST then
          bnd (fetch_int ptr buf) (\<lambda>prio.
          bnd (fetch_int (ptr + 4) buf) (\<lambda>delay.
          bnd (fetch_int (ptr + 8) buf) (\<lambda>pree_mode.
          bnd (fetch_int (ptr + 12) buf) (\<lambda>acpt_mode.
          Inr (PModify vid intf af prio delay pree_mode acpt_mode)))))
        else Inr (PIds vid intf af))
      else if cmd = CMD_CREATE_INST then
        bnd (fetch 4 sizeof_vrrp_inst buf) (\<lambda>vi. Inr (PInst (inst_at (drop (4 + sizeof_vrrp_inst) buf) vi)))
      else if cmd = CMD_RETURN_VAL then bnd (fetch_int 4 buf) (\<lambda>r. Inr (PReturn r))
      else Inr PNothing)"

section \<open>The codecs of the protocol\<close>

text \<open>A string with its NUL is a prefix codec, and so is a name followed by an \<open>int\<close>.\<close>

definition str_dec :: "u8 list \<Rightarrow> (u8 list \<times> u8 list) res" where
  "str_dec msg = (if has_nul msg then Inr (cstr msg, drop (length (cstr msg) + 1) msg) else Inl OutOfBounds)"

interpretation cstring: prefix_codec "\<lambda>s. s @ [0]" str_dec "\<lambda>s. 0 \<notin> set s"
  by unfold_locales (simp add: str_dec_def has_nul_def cstr_nul_suffix)

interpretation name_af: codec_seq "\<lambda>s. s @ [0]" str_dec "\<lambda>s. 0 \<notin> set s" le32 "take_dec 4 (get32 0)" "\<lambda>_. True"
  by unfold_locales

lemma cstr_short_nul: "length (cstr bs) < length bs \<Longrightarrow> has_nul bs"
  unfolding cstr_def has_nul_def by (metis (mono_tags, lifting) less_irrefl takeWhile_eq_all_conv)

lemma fetch_int_dec: "off \<le> length buf \<Longrightarrow>
  fetch_int off buf = bnd (take_dec 4 (get32 0) (drop off buf)) (\<lambda>(x, _). Inr x)"
  by (auto simp: fetch_int_def fetch_def take_dec_def peek_def)

lemma parse_ids_codec:
  assumes "5 \<le> length buf" and s: "length (cstr (drop 5 buf)) < length (drop 5 buf)" "length (cstr (drop 5 buf)) < length intf"
  shows "parse_ids buf intf =
    bnd (bnd (str_dec (drop 5 buf)) (\<lambda>(x, m). bnd (take_dec 4 (get32 0) m) (\<lambda>(y, m). Inr ((x, y), m))))
      (\<lambda>((s, af), m). Inr (buf ! 4, poke 0 (s @ [0]) intf, af, length buf - length m))"
proof -
  let ?s = "cstr (drop 5 buf)"
  have cpy: "strcpy intf (drop 5 buf) = Inr (poke 0 (?s @ [0]) intf)" using s by (simp add: strcpy_def)
  have c: "cstr (poke 0 (?s @ [0]) intf) = ?s" using s by (simp add: poke_def)
  have f: "fetch 4 (Suc 0) buf = Inr [buf ! 4]"
    using assms(1) by (simp add: fetch_def peek_def take_Suc hd_drop_conv_nth)
  have "fetch_int (5 + length ?s + 1) buf = bnd (take_dec 4 (get32 0) (drop (length ?s + 1) (drop 5 buf))) (\<lambda>(x, _). Inr x)"
    using s assms(1) by (subst fetch_int_dec) (auto simp: add.commute add.left_commute)
  then show ?thesis
    using assms cstr_short_nul [OF s(1)]
    by (auto simp: parse_ids_def cpy c f str_dec_def take_dec_def Let_def)
qed

definition ids_msg :: "u8 \<Rightarrow> u8 list \<Rightarrow> cint \<Rightarrow> u8 list" where
  "ids_msg vid name af = [vid] @ (name @ [0]) @ le32 af"

lemma parse_ids_front:
  assumes "length c = 4" and n: "0 \<notin> set name" "length name < length intf"
  shows "parse_ids (c @ ids_msg vid name af @ rest) intf =
    Inr (vid, poke 0 (name @ [0]) intf, af, 4 + length (ids_msg vid name af))"
proof -
  let ?buf = "c @ ids_msg vid name af @ rest"
  have d: "drop 5 ?buf = (name @ [0]) @ le32 af @ rest" using assms(1) by (simp add: ids_msg_def)
  have v: "?buf ! 4 = vid" using assms(1) by (simp add: ids_msg_def nth_append)
  have "cstr (drop 5 ?buf) = name" using n unfolding d by (simp add: cstr_nul_suffix)
  then have "parse_ids ?buf intf =
    bnd (bnd (str_dec (drop 5 ?buf)) (\<lambda>(x, m). bnd (take_dec 4 (get32 0) m) (\<lambda>(y, m). Inr ((x, y), m))))
      (\<lambda>((s, af), m). Inr (?buf ! 4, poke 0 (s @ [0]) intf, af, length ?buf - length m))"
    using n assms(1) by (intro parse_ids_codec) (unfold d, simp_all add: cstr_nul_suffix, simp add: ids_msg_def)
  also have "\<dots> = Inr (vid, poke 0 (name @ [0]) intf, af, 4 + length (ids_msg vid name af))"
    unfolding d v using name_af.seq_front [of name af rest] n(1) assms(1) by (simp add: ids_msg_def)
  finally show ?thesis .
qed

text \<open>The structure is read back as it was written, whatever its padding held.\<close>

lemma length_inst_mem:
  "length m = 76 \<Longrightarrow> length (vr_ifname (vi_vr i)) = 32 \<Longrightarrow> length (inst_mem m i) = 76"
  by (simp add: inst_mem_def Let_def)

lemma inst_at_mem:
  assumes "length m = 76" and "length (vr_ifname (vi_vr i)) = 32"
  shows "inst_at ip (inst_mem m i) = i\<lparr>vi_vr := (vi_vr i)\<lparr>vr_ip := ip\<rparr>\<rparr>"
  using assms by (simp add: inst_mem_def inst_at_def Let_def get8_from get32_from layout)

lemma inst_at_append: "length b = 76 \<Longrightarrow> inst_at ip (b @ rest) = inst_at ip b"
  by (simp add: inst_at_def get8_def get32_def nth_append peek_append_left)

section \<open>Requests and their messages\<close>

text \<open>What a caller asks for, the arguments it passes, and the message that should go out.\<close>

datatype request =
    ReqInst u32 u8 "u8 list" cint
  | ReqModify u8 "u8 list" cint cint cint cint cint
  | ReqCreate "u8 list" vrrp_inst

fun req_cmd :: "request \<Rightarrow> u32" where
  "req_cmd (ReqInst cmd _ _ _) = cmd"
| "req_cmd (ReqModify _ _ _ _ _ _ _) = CMD_MODIFY_INST"
| "req_cmd (ReqCreate _ _) = CMD_CREATE_INST"

fun req_args :: "request \<Rightarrow> cmd_arg list" where
  "req_args (ReqInst _ vid name af) = [ArgInt (ucast vid), ArgStr name, ArgInt af]"
| "req_args (ReqModify vid name af p d pm am) =
     [ArgInt (ucast vid), ArgStr name, ArgInt af, ArgInt p, ArgInt d, ArgInt pm, ArgInt am]"
| "req_args (ReqCreate m i) = [ArgInst m i]"

text \<open>A name that fits the receiver's array, and as many addresses as the structure says.\<close>

definition fits_name :: "u8 list \<Rightarrow> bool" where
  "fits_name name \<longleftrightarrow> 0 \<notin> set name \<and> length name < LIFNAMSIZ"

fun req_ok :: "request \<Rightarrow> bool" where
  "req_ok (ReqInst cmd _ name _) = (has_ids cmd \<and> cmd \<noteq> CMD_MODIFY_INST \<and> fits_name name)"
| "req_ok (ReqModify _ name _ _ _ _ _) = fits_name name"
| "req_ok (ReqCreate m i) = (length m = 76 \<and> length (vr_ifname (vi_vr i)) = 32 \<and>
     length (vr_ip (vi_vr i)) = unat (vr_ipnum (vi_vr i)) * 4)"

fun req_msg :: "request \<Rightarrow> u8 list" where
  "req_msg (ReqInst cmd vid name af) = le32 cmd @ ids_msg vid name af"
| "req_msg (ReqModify vid name af p d pm am) =
     le32 CMD_MODIFY_INST @ ids_msg vid name af @ le32 p @ le32 d @ le32 pm @ le32 am"
| "req_msg (ReqCreate m i) = le32 CMD_CREATE_INST @ inst_mem m i @ vr_ip (vi_vr i)"

text \<open>What the receiver gets: the name in its array, and the addresses followed by the rest of its buffer.\<close>

fun req_parsed :: "u8 list \<Rightarrow> u8 list \<Rightarrow> request \<Rightarrow> parsed" where
  "req_parsed intf rest (ReqInst _ vid name af) = PIds vid (poke 0 (name @ [0]) intf) af"
| "req_parsed intf rest (ReqModify vid name af p d pm am) = PModify vid (poke 0 (name @ [0]) intf) af p d pm am"
| "req_parsed intf rest (ReqCreate m i) = PInst (i\<lparr>vi_vr := (vi_vr i)\<lparr>vr_ip := vr_ip (vi_vr i) @ rest\<rparr>\<rparr>)"

text \<open>A buffer whose front has been written.\<close>

definition written :: "u8 list \<Rightarrow> u8 list \<Rightarrow> u8 list \<times> nat" where
  "written pre buf = (pre @ drop (length pre) buf, length pre)"

lemma put_written [simp]:
  "length pre + length bs \<le> length buf \<Longrightarrow> put bs (written pre buf) = Inr (written (pre @ bs) buf)"
  by (simp add: put_def written_def poke_def add.commute)

lemma put_start: "length bs \<le> length buf \<Longrightarrow> put bs (buf, 0) = Inr (written bs buf)"
  using put_written [of "[]" bs buf] by (simp add: written_def)

lemma ucast_byte [simp]: "ucast (ucast (b :: u8) :: cint) = b"
  by (rule bit_word_eqI) (simp add: bit_simps)

lemma build_ids_written:
  assumes "fits_name name" and "length pre + length (ids_msg vid name af) \<le> length buf"
  shows "build_ids (written pre buf) (ArgInt (ucast vid) # ArgStr name # ArgInt af # xs) =
    Inr (xs, written (pre @ ids_msg vid name af) buf)"
  using assms by (simp add: build_ids_def ids_msg_def fits_name_def cstr_id)

lemma length_ids_msg: "length (ids_msg vid name af) = length name + 6"
  by (simp add: ids_msg_def)

lemma build_msg:
  assumes ok: "req_ok r" and buf: "length buf = BUFSIZE + 1"
  shows "build_vrrp_cmd True buf (req_cmd r) (req_args r @ xs) = Inr (written (req_msg r) buf)"
proof (cases r)
  case (ReqInst cmd vid name af)
  with ok buf show ?thesis
    by (auto simp: build_vrrp_cmd_def put_start BUFSIZE_def build_ids_written length_ids_msg fits_name_def has_ids_def)
next
  case (ReqModify vid name af p d pm am)
  with ok buf show ?thesis
    by (simp add: build_vrrp_cmd_def put_start BUFSIZE_def build_ids_written length_ids_msg fits_name_def has_ids_def
        build_attrs_def)
next
  case (ReqCreate m i)
  have "unat (vr_ipnum (vi_vr i)) < 2 ^ LENGTH(8)" by (rule unsigned_less)
  with ReqCreate ok buf show ?thesis
    by (simp add: build_vrrp_cmd_def put_start BUFSIZE_def has_ids_def build_inst_def length_inst_mem fetch_def peek_all Let_def)
qed

lemma req_msg_fits: "req_ok r \<Longrightarrow> length (req_msg r) \<le> BUFSIZE"
proof (cases r)
  case (ReqCreate m i)
  have "unat (vr_ipnum (vi_vr i)) < 2 ^ LENGTH(8)" by (rule unsigned_less)
  then show "req_ok r \<Longrightarrow> length (req_msg r) \<le> BUFSIZE"
    using ReqCreate by (simp add: length_inst_mem BUFSIZE_def)
qed (simp_all add: BUFSIZE_def length_ids_msg fits_name_def)

lemma fetch_int_at: "length pre = off \<Longrightarrow> fetch_int off (pre @ le32 x @ rest) = Inr x"
  by (simp add: fetch_int_def fetch_def peek_def)

lemma parse_msg:
  assumes ok: "req_ok r" and intf: "length intf = LIFNAMSIZ"
  shows "get_vrrp_cmd (req_msg r @ rest) = Inr (req_cmd r) \<and>
    parse_vrrp_cmd (req_msg r @ rest) (req_cmd r) intf = Inr (req_parsed intf rest r)"
proof (cases r)
  case (ReqInst cmd vid name af)
  with ok intf show ?thesis
    using fetch_int_at [of "[]" 0 cmd] parse_ids_front [of "le32 cmd" name intf vid af rest]
    by (simp add: get_vrrp_cmd_def parse_vrrp_cmd_def fits_name_def)
next
  case (ReqModify vid name af p d pm am)
  let ?pre = "le32 CMD_MODIFY_INST @ ids_msg vid name af" and ?n = "length name"
  have f: "fetch_int (?n + 10) (?pre @ le32 p @ x) = Inr p"
    "fetch_int (?n + 14) (?pre @ le32 p @ le32 d @ x) = Inr d"
    "fetch_int (?n + 18) (?pre @ le32 p @ le32 d @ le32 pm @ x) = Inr pm"
    "fetch_int (?n + 22) (?pre @ le32 p @ le32 d @ le32 pm @ le32 am @ x) = Inr am" for x
    using fetch_int_at [of ?pre "?n + 10" p] fetch_int_at [of "?pre @ le32 p" "?n + 14" d]
      fetch_int_at [of "?pre @ le32 p @ le32 d" "?n + 18" pm]
      fetch_int_at [of "?pre @ le32 p @ le32 d @ le32 pm" "?n + 22" am]
    by (simp_all add: length_ids_msg)
  show ?thesis
    using ReqModify ok intf fetch_int_at [of "[]" 0 CMD_MODIFY_INST] f
      parse_ids_front [of "le32 CMD_MODIFY_INST" name intf vid af "le32 p @ le32 d @ le32 pm @ le32 am @ rest"]
    by (simp add: get_vrrp_cmd_def parse_vrrp_cmd_def fits_name_def has_ids_def length_ids_msg add.commute)
next
  case (ReqCreate m i)
  with ok intf show ?thesis
    using fetch_int_at [of "[]" 0 CMD_CREATE_INST] inst_at_mem [of m i]
    by (simp add: get_vrrp_cmd_def parse_vrrp_cmd_def has_ids_def fetch_def length_inst_mem peek_def)
qed

section \<open>What the protocol transports\<close>

text \<open>
  C22: Every request whose interface name fits is read back by the receiver as it was made, whatever
  follows the message in the receiver's buffer: the same command, VRID, name, address family and
  attributes, and for a creation the structure with its addresses. The message is as long as the
  length the sender passes on.
\<close>

theorem command_roundtrip:
  assumes "req_ok r" and "length buf = BUFSIZE + 1" and "length intf = LIFNAMSIZ"
  shows "\<exists>buf' n. build_vrrp_cmd True buf (req_cmd r) (req_args r @ xs) = Inr (buf', n) \<and> n \<le> length buf' \<and>
    get_vrrp_cmd (take n buf' @ rest) = Inr (req_cmd r) \<and>
    parse_vrrp_cmd (take n buf' @ rest) (req_cmd r) intf = Inr (req_parsed intf rest r)"
  using build_msg [OF assms(1,2), of xs] parse_msg [OF assms(1,3), of rest] by (simp add: written_def)

theorem command_roundtrip_witness:
  "\<exists>buf' n. build_vrrp_cmd True (replicate 65536 0) CMD_STARTUP_INST [ArgInt 7, ArgStr [101, 116, 104, 48], ArgInt 2] = Inr (buf', n) \<and>
    parse_vrrp_cmd (take n buf' @ [9, 9]) CMD_STARTUP_INST (replicate 32 0) =
      Inr (PIds 7 (poke 0 [101, 116, 104, 48, 0] (replicate 32 0)) 2)"
proof -
  let ?r = "ReqInst CMD_STARTUP_INST 7 [101, 116, 104, 48] 2"
  have "req_ok ?r" by (simp add: has_ids_def fits_name_def)
  from command_roundtrip [OF this, of "replicate 65536 0" "replicate 32 0" "[]" "[9, 9]"]
  obtain buf' n where "build_vrrp_cmd True (replicate 65536 0) (req_cmd ?r) (req_args ?r @ []) = Inr (buf', n)"
    "parse_vrrp_cmd (take n buf' @ [9, 9]) (req_cmd ?r) (replicate 32 0) = Inr (req_parsed (replicate 32 0) [9, 9] ?r)"
    unfolding BUFSIZE_def LIFNAMSIZ_def length_replicate by auto
  then show ?thesis by (intro exI [of _ buf'] exI [of _ n]) simp
qed

text \<open>
  C23: The receiver copies the name into an array of 32 bytes without a check: a request with a longer
  name, which the sender builds without complaint, overruns it.
\<close>

theorem long_name_overflows:
  assumes "has_ids cmd" and "length name \<ge> LIFNAMSIZ" and "0 \<notin> set name" and "length intf = LIFNAMSIZ"
  shows "parse_vrrp_cmd (le32 cmd @ ids_msg vid name af @ rest) cmd intf = Inl BufferOverflow"
proof -
  have "drop 5 (le32 cmd @ ids_msg vid name af @ rest) = name @ 0 # le32 af @ rest" by (simp add: ids_msg_def)
  then have "strcpy intf (drop 5 (le32 cmd @ ids_msg vid name af @ rest)) = Inl BufferOverflow"
    using assms by (simp add: strcpy_def cstr_nul_suffix)
  moreover have "fetch 4 1 (le32 cmd @ ids_msg vid name af @ rest) = Inr [vid]"
    by (simp add: fetch_def peek_def ids_msg_def)
  ultimately show ?thesis using assms(1) by (simp add: parse_vrrp_cmd_def parse_ids_def)
qed

theorem long_name_overflows_witness:
  "parse_vrrp_cmd (le32 CMD_REMOVE_INST @ ids_msg 1 (replicate 40 97) 2 @ []) CMD_REMOVE_INST (replicate 32 0) = Inl BufferOverflow"
  by (rule long_name_overflows) (simp_all add: has_ids_def)

end
