(* ===== verification/InstTable.thy ===== *)
theory InstTable
  imports Advert
begin

text \<open>
  The instance table of vrrpd_impl.c: the list of instances that starts at
  \<open>inst_runtime_list\<close> (address 0 of the instance heap), its searches, the creation of an
  instance, and the operations on the queue and on the attributes that name an instance by
  VRID, interface and address family.
\<close>

definition inst_runtime_list :: ptr where
  "inst_runtime_list = Some 0"

text \<open>The macros \<open>vrrp_id\<close>, \<open>vrrp_af\<close>, ... of an instance read through its \<open>vr\<close> pointer.\<close>

definition inst_vr :: "ptr \<Rightarrow> world \<Rightarrow> vrrpd_vr_ds res" where
  "inst_vr p w = bnd (dload p w) (\<lambda>d. vload (ds_vr d) w)"

section \<open>Searching\<close>

definition no_name :: "u8 list option \<Rightarrow> bool" where
  "no_name ifname = (case ifname of None \<Rightarrow> True | Some s \<Rightarrow> cstr s = [])"

definition vrrp_search_inst_full :: "u8 \<Rightarrow> u8 list \<Rightarrow> cint \<Rightarrow> world \<Rightarrow> ptr res" where
  "vrrp_search_inst_full i ifname af w =
     bnd (dload inst_runtime_list w) (\<lambda>l.
     loop (\<lambda>curr.
       if curr = None then Inr (Inr None)
       else
         bnd (dload curr w) (\<lambda>d.
         bnd (vload (ds_vr d) w) (\<lambda>v.
         if vr_id (vr v) = i \<and> vr_af (vr v) = af \<and> strncmp_eq LIFNAMSIZ ifname (vr_ifname (vr v))
         then Inr (Inr curr) else Inr (Inl (ds_next d))))) (ds_next l))"

text \<open>The three nested tests of \<open>vrrp_search_inst_part\<close>; a wildcard reads nothing.\<close>

definition match_part :: "u8 \<Rightarrow> u8 list option \<Rightarrow> cint \<Rightarrow> vrrpd_ds \<Rightarrow> world \<Rightarrow> bool res" where
  "match_part i ifname af d w =
     bnd (if i = 0 then Inr True else bnd (vload (ds_vr d) w) (\<lambda>v. Inr (vr_id (vr v) = i))) (\<lambda>m.
     if \<not> m then Inr False else
     bnd (if af = AF_UNSPEC then Inr True else bnd (vload (ds_vr d) w) (\<lambda>v. Inr (vr_af (vr v) = af))) (\<lambda>m.
     if \<not> m then Inr False else
     if no_name ifname then Inr True else
     bnd (vload (ds_vr d) w) (\<lambda>v. Inr (strncmp_eq LIFNAMSIZ (the ifname) (vr_ifname (vr v))))))"

definition vrrp_search_inst_part :: "u8 \<Rightarrow> u8 list option \<Rightarrow> cint \<Rightarrow> world \<Rightarrow> ptr res" where
  "vrrp_search_inst_part i ifname af w =
     bnd (dload inst_runtime_list w) (\<lambda>l.
     loop (\<lambda>(curr, num, rtn).
       if curr = None then Inr (Inr rtn)
       else
         bnd (dload curr w) (\<lambda>d.
         bnd (match_part i ifname af d w) (\<lambda>m.
         if m then
           (if num + 1 > (1 :: int) then Inr (Inr None) else Inr (Inl (ds_next d, num + 1, curr)))
         else Inr (Inl (ds_next d, num, rtn))))) (ds_next l, 0, None))"

definition vrrp_search_inst :: "u8 \<Rightarrow> u8 list option \<Rightarrow> cint \<Rightarrow> world \<Rightarrow> ptr res" where
  "vrrp_search_inst i ifname af w =
     (if i \<noteq> 0 \<and> \<not> no_name ifname \<and> af \<noteq> 0
      then vrrp_search_inst_full i (the ifname) af w
      else vrrp_search_inst_part i ifname af w)"

definition vrrp_search_vr :: "u8 \<Rightarrow> u8 list option \<Rightarrow> cint \<Rightarrow> world \<Rightarrow> ptr res" where
  "vrrp_search_vr i ifname af w =
     bnd (vrrp_search_inst i ifname af w) (\<lambda>curr.
     if curr \<noteq> None then bnd (dload curr w) (\<lambda>d. Inr (ds_vr d)) else Inr None)"

definition vrrp_check_conflict :: "u8 \<Rightarrow> u8 list option \<Rightarrow> cint \<Rightarrow> world \<Rightarrow> cint res" where
  "vrrp_check_conflict i ifname af w =
     bnd (vrrp_search_vr i ifname af w) (\<lambda>v. Inr (if v = None then VRRP_SUCCESS else -1))"

section \<open>Creating an instance\<close>

text \<open>What \<open>bzero\<close> leaves in the two structures.\<close>

definition blank_ds :: vrrpd_ds where
  "blank_ds = \<lparr>ds_vr = None, active = 0, state = 0, pid = 0, previous_state = 0,
     state_trans_time = \<lparr>tv_sec = 0, tv_usec = 0\<rparr>, ds_next = None, ds_prev = None\<rparr>"

definition blank_vr :: vrrpd_vr_ds where
  "blank_vr = \<lparr>attr = \<lparr>pri = 0, delay = 0, pree_mode = 0, accept_mode = 0\<rparr>,
     vr = \<lparr>vr_id = 0, vr_af = 0, vr_in4 = 0, vr_ipnum = 0, vr_ip = [], vr_ifname = replicate 32 0\<rparr>,
     vfd = None, timeout = 0,
     advinfo = \<lparr>ai_af = 0, ai_addr = 0, ai_timestamp = \<lparr>tv_sec = 0, tv_usec = 0\<rparr>, ai_priority = 0,
       ai_interval = 0\<rparr>,
     parent = None, vr_next = None, vr_prev = None, qnext = None, qprev = None\<rparr>"

text \<open>
  \<open>vrrp_create_vr\<close>: the structure is copied and the address list is copied again into memory of its
  own; the copy reads past the caller's list when that is shorter than \<open>vr_ipnum\<close> says.
\<close>

definition vrrp_create_vr :: "vrrp_attr \<Rightarrow> vrrp_vr \<Rightarrow> ptr \<Rightarrow> world \<Rightarrow> (u32 \<times> world) res" where
  "vrrp_create_vr va r new_vr w =
     bnd (vstore new_vr (\<lambda>v. v\<lparr>attr := va, vr := r\<rparr>) w) (\<lambda>w.
     let ip_length = unat (vr_ipnum r) * 4; (ip, w) = malloc w in
     if ip = None then
       bnd (vstore new_vr (\<lambda>v. v\<lparr>vr := r\<lparr>vr_ip := []\<rparr>\<rparr>) w) (\<lambda>w. Inr (VRRP_ENOMEM, w))
     else if length (vr_ip r) < ip_length then Inl OutOfBounds
     else
       bnd (vstore new_vr (\<lambda>v. v\<lparr>vr := r\<lparr>vr_ip := take ip_length (vr_ip r)\<rparr>\<rparr>) w) (\<lambda>w.
       Inr (VRRP_SUCCESS, w)))"

text \<open>The loop that moves \<open>curr\<close> to its place; \<open>i\<close> is the new instance's VRID.\<close>

definition create_scan :: "world \<Rightarrow> u8 \<Rightarrow> ptr \<Rightarrow> ptr res" where
  "create_scan w i = loop (\<lambda>curr.
     bnd (dload curr w) (\<lambda>d.
     bnd (vload (ds_vr d) w) (\<lambda>v.
     if vr_id (vr v) < i \<and> ds_next d \<noteq> None then Inr (Inl (ds_next d)) else Inr (Inr curr))))"

text \<open>Linking the new instance into the list: the part of \<open>vrrp_create_inst\<close> after the allocations.\<close>

definition create_link :: "ptr \<Rightarrow> world \<Rightarrow> world res" where
  "create_link new_inst w =
     bnd (dload inst_runtime_list w) (\<lambda>l.
     if ds_next l = None then
       bnd (dstore inst_runtime_list (\<lambda>l. l\<lparr>ds_next := new_inst\<rparr>) w) (\<lambda>w.
       dstore new_inst (\<lambda>n. n\<lparr>ds_prev := inst_runtime_list, ds_next := None\<rparr>) w)
     else
       bnd (inst_vr new_inst w) (\<lambda>nv.
       bnd (create_scan w (vr_id (vr nv)) (ds_next l)) (\<lambda>curr.
       bnd (inst_vr curr w) (\<lambda>cv.
       if vr_id (vr cv) < vr_id (vr nv) then
         bnd (dstore curr (\<lambda>c. c\<lparr>ds_next := new_inst\<rparr>) w) (\<lambda>w.
         dstore new_inst (\<lambda>n. n\<lparr>ds_prev := curr, ds_next := None\<rparr>) w)
       else
         bnd (dload curr w) (\<lambda>c.
         bnd (dstore new_inst (\<lambda>n. n\<lparr>ds_prev := ds_prev c, ds_next := curr\<rparr>) w) (\<lambda>w.
         bnd (dload curr w) (\<lambda>c.
         bnd (dstore (ds_prev c) (\<lambda>p. p\<lparr>ds_next := new_inst\<rparr>) w) (\<lambda>w.
         dstore curr (\<lambda>c. c\<lparr>ds_prev := new_inst\<rparr>) w))))))))"

text \<open>
  \<open>vrrp_create_inst\<close> returns the code and what it stored through \<open>vim\<close>. The two checks return
  errno.h's \<open>EINVAL\<close>.
\<close>

definition vrrp_create_inst :: "vrrp_inst option \<Rightarrow> world \<Rightarrow> ((u32 \<times> ptr) \<times> world) res" where
  "vrrp_create_inst inst w =
     (case inst of None \<Rightarrow> Inr ((EINVAL, None), w) | Some vi \<Rightarrow>
      if \<not> 0 <s delay (vi_va vi) then Inr ((EINVAL, None), w)
      else if \<not> 0 < vr_ipnum (vi_vr vi) then Inr ((EINVAL, None), w)
      else
        bnd (vrrp_check_conflict (vr_id (vi_vr vi)) (Some (vr_ifname (vi_vr vi))) (vr_af (vi_vr vi)) w) (\<lambda>ret.
        if ret \<noteq> VRRP_SUCCESS then Inr ((VRRP_EVREXIST, None), w)
        else
          let (new_inst, w) = malloc w in
          if new_inst = None then Inr ((VRRP_ENOMEM, None), w)
          else
            let (new_vr, w) = malloc w in
            if new_vr = None then Inr ((VRRP_ENOMEM, None), w)
            else
              let w = w\<lparr>ds_heap := (ds_heap w)(the new_inst := Some (blank_ds\<lparr>ds_vr := new_vr,
                          state := VRRP_STATE_INIT, active := vi_active vi,
                          state_trans_time := time_of_day (os w) (trace w)\<rparr>)),
                        vr_heap := (vr_heap w)(the new_vr := Some (blank_vr\<lparr>parent := new_inst\<rparr>))\<rparr> in
              bnd (vrrp_create_vr (vi_va vi) (vi_vr vi) new_vr w) (\<lambda>(r, w).
              if r = VRRP_ENOMEM then Inr ((VRRP_ENOMEM, None), w)
              else bnd (create_link new_inst w) (\<lambda>w. Inr ((VRRP_SUCCESS, new_inst), w)))))"

section \<open>Reading the table one instance at a time\<close>

text \<open>
  \<open>vrrp_get_instx\<close>: the instance asked for and the key of the one after it, written over the
  arguments. \<open>ifname\<close> is the caller's 32-byte array.
\<close>

definition vrrp_get_instx :: "u8 \<Rightarrow> u8 list \<Rightarrow> cint \<Rightarrow> world \<Rightarrow> (u32 \<times> ptr \<times> u8 \<times> u8 list \<times> cint) res" where
  "vrrp_get_instx i ifname af w =
     bnd (if i = 0 \<and> af = AF_UNSPEC \<and> no_name (Some ifname)
          then bnd (dload inst_runtime_list w) (\<lambda>l. Inr (ds_next l))
          else vrrp_search_inst i (Some ifname) af w) (\<lambda>vix.
     if vix = None then Inr (VRRP_ENOINST, None, i, ifname, af)
     else
       bnd (dload vix w) (\<lambda>d.
       if ds_next d = None then Inr (VRRP_SUCCESS, vix, 0, poke 0 [0] ifname, AF_UNSPEC)
       else
         bnd (inst_vr (ds_next d) w) (\<lambda>n.
         bnd (strcpy ifname (vr_ifname (vr n))) (\<lambda>name.
         Inr (VRRP_SUCCESS, vix, vr_id (vr n), name, vr_af (vr n))))))"

section \<open>The queue by instance name\<close>

definition queue_args_ok :: "u8 \<Rightarrow> cint \<Rightarrow> bool" where
  "queue_args_ok i af \<longleftrightarrow> 0 < i \<and> (af = AF_INET \<or> af = AF_INET6 \<or> af = 0)"

text \<open>\<open>master_down\<close> is the timeout \<open>vrrp_enqueue\<close> gives a backup.\<close>

definition master_down :: "vrrp_attr \<Rightarrow> u32" where
  "master_down a = 3 * VRRP_SEC2USEC (delay a) + VRRP_SEC2USEC (skew_sec (pri a))"

definition vrrp_enqueue :: "u8 \<Rightarrow> u8 list option \<Rightarrow> cint \<Rightarrow> world \<Rightarrow> (u32 \<times> world) res" where
  "vrrp_enqueue i ifname af w =
     (if \<not> queue_args_ok i af then Inr (EINVAL, w)
      else
        bnd (vrrp_search_vr i ifname af w) (\<lambda>curr.
        if curr \<noteq> None then
          bnd (vload curr w) (\<lambda>v.
          bnd (dload (parent v) w) (\<lambda>p.
          bnd (if state p = VRRP_STATE_MAST then
                 bnd (vload (ds_vr p) w) (\<lambda>pv.
                 vstore curr (\<lambda>c. c\<lparr>timeout := VRRP_SEC2USEC (delay (attr pv))\<rparr>) w)
               else if state p = VRRP_STATE_BACK then
                 bnd (vload (ds_vr p) w) (\<lambda>pv.
                 vstore curr (\<lambda>c. c\<lparr>timeout := master_down (attr pv)\<rparr>) w)
               else Inr w) (\<lambda>w.
          bnd (vrrp_enqueue_impl curr w) (\<lambda>(_, w).
          Inr (VRRP_SUCCESS, w)))))
        else Inr (-1, w)))"

definition vrrp_rmqueue :: "u8 \<Rightarrow> u8 list option \<Rightarrow> cint \<Rightarrow> world \<Rightarrow> (u32 \<times> world) res" where
  "vrrp_rmqueue i ifname af w =
     (if \<not> queue_args_ok i af then Inr (EINVAL, w)
      else
        bnd (vrrp_search_vr i ifname af w) (\<lambda>curr.
        if curr = None then Inr (-1, w)
        else
          bnd (vload curr w) (\<lambda>v.
          if qnext v = None \<and> qprev v = None then Inr (-1, w)
          else vrrp_rmqueue_impl curr w)))"

section \<open>Changing attributes\<close>

text \<open>A store through \<open>curr->vr\<close>.\<close>

definition inst_vstore :: "ptr \<Rightarrow> (vrrpd_vr_ds \<Rightarrow> vrrpd_vr_ds) \<Rightarrow> world \<Rightarrow> world res" where
  "inst_vstore p f w = bnd (dload p w) (\<lambda>d. vstore (ds_vr d) f w)"

definition flag_arg :: "cint \<Rightarrow> bool" where
  "flag_arg m \<longleftrightarrow> m = 0 \<or> m = 1 \<or> m = -1"

definition set_delay :: "ptr \<Rightarrow> u8 \<Rightarrow> u8 list option \<Rightarrow> cint \<Rightarrow> cint \<Rightarrow> world \<Rightarrow> world res" where
  "set_delay p i intf af dl w =
     bnd (inst_vstore p (\<lambda>v. v\<lparr>attr := (attr v)\<lparr>delay := dl\<rparr>\<rparr>) w) (\<lambda>w.
     bnd (lock_q w) (\<lambda>w.
     bnd (vrrp_rmqueue i intf af w) (\<lambda>(r, w).
     bnd (if r = VRRP_SUCCESS then map_sum id snd (vrrp_enqueue i intf af w) else Inr w) (\<lambda>w.
     Inr (unlock_q w)))))"

definition vrrp_set_inst_prop ::
  "u8 \<Rightarrow> u8 list option \<Rightarrow> cint \<Rightarrow> cint \<Rightarrow> cint \<Rightarrow> cint \<Rightarrow> cint \<Rightarrow> world \<Rightarrow> (u32 \<times> world) res" where
  "vrrp_set_inst_prop vrid intf af pr dl pree acpt w =
     (if \<not> flag_arg pree then Inr (EINVAL, w)
      else if \<not> flag_arg acpt then Inr (EINVAL, w)
      else
        bnd (vrrp_search_inst vrid intf af w) (\<lambda>curr.
        if curr = None then Inr (VRRP_ENOINST, w)
        else
          bnd (if pr \<noteq> VR_PROP_UNCHANGE
               then inst_vstore curr (\<lambda>v. v\<lparr>attr := (attr v)\<lparr>pri := ucast pr\<rparr>\<rparr>) w else Inr w) (\<lambda>w.
          bnd (if dl \<noteq> VR_PROP_UNCHANGE then set_delay curr vrid intf af dl w else Inr w) (\<lambda>w.
          bnd (if pree \<noteq> VR_PROP_UNCHANGE
               then inst_vstore curr (\<lambda>v. v\<lparr>attr := (attr v)\<lparr>pree_mode :=
                 if pree = VR_PROP_PREEMPT then boolean_TRUE else boolean_FALSE\<rparr>\<rparr>) w else Inr w) (\<lambda>w.
          bnd (if acpt \<noteq> VR_PROP_UNCHANGE
               then inst_vstore curr (\<lambda>v. v\<lparr>attr := (attr v)\<lparr>accept_mode :=
                 if acpt = VR_PROP_ACCEPTED then boolean_TRUE else boolean_FALSE\<rparr>\<rparr>) w else Inr w) (\<lambda>w.
          Inr (VRRP_SUCCESS, w)))))))"

section \<open>The table as a list\<close>

text \<open>
  \<open>inst_list w ps\<close>: the instances in list order, each linked both ways and each with its router.
  \<open>vrec w p\<close> is the router's identity part.
\<close>

definition the_inst :: "world \<Rightarrow> nat \<Rightarrow> vrrpd_ds" where
  "the_inst w p = the (ds_heap w p)"

definition the_vr :: "world \<Rightarrow> nat \<Rightarrow> vrrpd_vr_ds" where
  "the_vr w p = the (vr_heap w (the (ds_vr (the_inst w p))))"

definition vrec :: "world \<Rightarrow> nat \<Rightarrow> vrrp_vr" where
  "vrec w p = vr (the_vr w p)"

definition has_vr :: "world \<Rightarrow> nat \<Rightarrow> bool" where
  "has_vr w p \<longleftrightarrow> (\<exists>d a v. ds_heap w p = Some d \<and> ds_vr d = Some a \<and> vr_heap w a = Some v)"

definition inst_list :: "world \<Rightarrow> nat list \<Rightarrow> bool" where
  "inst_list w ps \<longleftrightarrow> distinct (0 # ps) \<and>
     (\<exists>q. dpath ds_next ds_prev (ds_heap w) None (Some 0) (0 # ps) q None) \<and> (\<forall>p \<in> set ps. has_vr w p)"

lemma the_inst_Some [simp]: "ds_heap w p = Some d \<Longrightarrow> the_inst w p = d"
  by (simp add: the_inst_def)

lemma the_vr_Some [simp]:
  "ds_heap w p = Some d \<Longrightarrow> ds_vr d = Some a \<Longrightarrow> vr_heap w a = Some v \<Longrightarrow> the_vr w p = v"
  by (simp add: the_vr_def)

lemma has_vrE:
  assumes "has_vr w p"
  obtains d a v where "ds_heap w p = Some d" "ds_vr d = Some a" "vr_heap w a = Some v"
    "vrec w p = vr v" "inst_vr (Some p) w = Inr v"
proof -
  from assms obtain d a v where "ds_heap w p = Some d" "ds_vr d = Some a" "vr_heap w a = Some v"
    by (auto simp: has_vr_def)
  then show thesis by (intro that) (simp_all add: vrec_def inst_vr_def)
qed

lemma inst_listE:
  assumes "inst_list w ps"
  obtains l q where "ds_heap w 0 = Some l" "chain ds_next (ds_heap w) (ds_next l) ps"
    "dpath ds_next ds_prev (ds_heap w) (Some 0) (ds_next l) ps q None"
    "\<And>p. p \<in> set ps \<Longrightarrow> has_vr w p" "distinct (0 # ps)"
  using assms by (auto simp: inst_list_def dest: dpath_chain)

text \<open>The list is the only reading of the heap.\<close>

lemma inst_list_unique: "inst_list w ps \<Longrightarrow> inst_list w qs \<Longrightarrow> ps = qs"
  using dpath_unique by (fastforce simp: inst_list_def)

section \<open>What the searches find\<close>

definition full_match :: "u8 \<Rightarrow> u8 list \<Rightarrow> cint \<Rightarrow> vrrp_vr \<Rightarrow> bool" where
  "full_match i ifname af r \<longleftrightarrow> vr_id r = i \<and> vr_af r = af \<and> strncmp_eq LIFNAMSIZ ifname (vr_ifname r)"

definition part_match :: "u8 \<Rightarrow> u8 list option \<Rightarrow> cint \<Rightarrow> vrrp_vr \<Rightarrow> bool" where
  "part_match i ifname af r \<longleftrightarrow> (i = 0 \<or> vr_id r = i) \<and> (af = AF_UNSPEC \<or> vr_af r = af) \<and>
     (no_name ifname \<or> strncmp_eq LIFNAMSIZ (the ifname) (vr_ifname r))"

definition the_only :: "nat list \<Rightarrow> ptr" where
  "the_only xs = (case xs of [x] \<Rightarrow> Some x | _ \<Rightarrow> None)"

text \<open>What \<open>vrrp_search_inst\<close> answers, as a function of the list of instances.\<close>

definition search_spec :: "u8 \<Rightarrow> u8 list option \<Rightarrow> cint \<Rightarrow> world \<Rightarrow> nat list \<Rightarrow> ptr" where
  "search_spec i ifname af w ps =
     (if i \<noteq> 0 \<and> \<not> no_name ifname \<and> af \<noteq> 0
      then List.find (\<lambda>p. full_match i (the ifname) af (vrec w p)) ps
      else the_only (filter (\<lambda>p. part_match i ifname af (vrec w p)) ps))"

lemma search_full_chain:
  assumes "chain ds_next (ds_heap w) c ps" and "\<And>p. p \<in> set ps \<Longrightarrow> has_vr w p"
  shows "loop (\<lambda>curr.
       if curr = None then Inr (Inr None)
       else
         bnd (dload curr w) (\<lambda>d.
         bnd (vload (ds_vr d) w) (\<lambda>v.
         if vr_id (vr v) = i \<and> vr_af (vr v) = af \<and> strncmp_eq LIFNAMSIZ ifname (vr_ifname (vr v))
         then Inr (Inr curr) else Inr (Inl (ds_next d))))) c =
    Inr (List.find (\<lambda>p. full_match i ifname af (vrec w p)) ps)"
  using assms
proof (induction ps arbitrary: c)
  case Nil
  then show ?case by (subst loop_unfold) simp
next
  case (Cons p ps)
  from Cons.prems(2) [of p] obtain d a v where p: "ds_heap w p = Some d" "ds_vr d = Some a"
    "vr_heap w a = Some v" "vrec w p = vr v"
    by (auto elim!: has_vrE)
  with Cons.prems have "c = Some p" "chain ds_next (ds_heap w) (ds_next d) ps" by auto
  with p Cons.IH [of "ds_next d"] Cons.prems(2) show ?case
    by (subst loop_unfold) (simp add: full_match_def)
qed

lemma match_part_eq:
  "ds_vr d = Some a \<Longrightarrow> vr_heap w a = Some v \<Longrightarrow>
   match_part i ifname af d w = Inr (part_match i ifname af (vr v))"
  by (simp add: match_part_def part_match_def)

lemma search_part_chain:
  assumes "chain ds_next (ds_heap w) c ps" and "\<And>p. p \<in> set ps \<Longrightarrow> has_vr w p"
    and "num = int (length found)" and "length found \<le> 1" and "rtn = the_only found"
  shows "loop (\<lambda>(curr, num, rtn).
       if curr = None then Inr (Inr rtn)
       else
         bnd (dload curr w) (\<lambda>d.
         bnd (match_part i ifname af d w) (\<lambda>m.
         if m then
           (if num + 1 > (1 :: int) then Inr (Inr None) else Inr (Inl (ds_next d, num + 1, curr)))
         else Inr (Inl (ds_next d, num, rtn))))) (c, num, rtn) =
    Inr (the_only (found @ filter (\<lambda>p. part_match i ifname af (vrec w p)) ps))"
  using assms
proof (induction ps arbitrary: c num rtn found)
  case Nil
  then show ?case by (subst loop_unfold) simp
next
  case (Cons p ps)
  from Cons.prems(2) [of p] obtain d a v where p: "ds_heap w p = Some d" "ds_vr d = Some a"
    "vr_heap w a = Some v" "vrec w p = vr v"
    by (auto elim!: has_vrE)
  with Cons.prems have c: "c = Some p" "chain ds_next (ds_heap w) (ds_next d) ps" by auto
  consider "\<not> part_match i ifname af (vr v)" | "part_match i ifname af (vr v)" "found = []"
    | x where "part_match i ifname af (vr v)" "found = [x]"
    using Cons.prems(4) by (cases found) auto
  then show ?case
  proof cases
    case 1
    then show ?thesis
      using p c Cons.prems Cons.IH [OF c(2), of num found rtn]
      by (subst loop_unfold) (simp add: match_part_eq)
  next
    case 2
    then show ?thesis
      using p c Cons.prems Cons.IH [OF c(2), of 1 "[p]" "Some p"]
      by (subst loop_unfold) (simp add: match_part_eq the_only_def)
  next
    case 3
    then show ?thesis
      using p c Cons.prems by (subst loop_unfold) (simp add: match_part_eq the_only_def)
  qed
qed

lemma search_inst_eq:
  assumes "inst_list w ps"
  shows "vrrp_search_inst i ifname af w = Inr (search_spec i ifname af w ps)"
  using assms search_part_chain [where found = "[]" and num = 0 and rtn = None]
  by (auto simp: vrrp_search_inst_def search_spec_def vrrp_search_inst_full_def the_only_def
      vrrp_search_inst_part_def inst_runtime_list_def search_full_chain elim!: inst_listE)

lemma search_spec_member: "search_spec i ifname af w ps = Some p \<Longrightarrow> p \<in> set ps"
  by (auto simp: search_spec_def the_only_def find_Some_iff filter_eq_Cons_iff split: if_splits list.splits)

section \<open>Linking a new instance\<close>

interpretation il: dnode ds_next ds_prev "\<lambda>x n. n\<lparr>ds_next := x\<rparr>" "\<lambda>x n. n\<lparr>ds_prev := x\<rparr>"
  by unfold_locales simp_all

text \<open>Writing the links of instances changes nothing else.\<close>

definition ds_core :: "vrrpd_ds \<Rightarrow> vrrpd_ds" where
  "ds_core d = d\<lparr>ds_next := None, ds_prev := None\<rparr>"

definition l_frame :: "world \<Rightarrow> world \<Rightarrow> bool" where
  "l_frame w w' \<longleftrightarrow> (\<exists>h. w' = w\<lparr>ds_heap := h\<rparr> \<and>
     (\<forall>a. map_option ds_core (h a) = map_option ds_core (ds_heap w a)))"

lemma ds_core_upd [simp]:
  "ds_core (d\<lparr>ds_next := n\<rparr>) = ds_core d" "ds_core (d\<lparr>ds_prev := n\<rparr>) = ds_core d"
  by (simp_all add: ds_core_def)

lemma ds_core_fields:
  assumes "ds_core d = ds_core d'"
  shows "ds_vr d = ds_vr d'" "active d = active d'" "state d = state d'" "pid d = pid d'"
  using assms by (cases d; cases d'; simp add: ds_core_def)+

lemma l_frame_refl [simp]: "l_frame w w"
  by (auto simp: l_frame_def intro: exI [of _ "ds_heap w"])

lemma l_frame_inst:
  assumes "l_frame w w'" and "ds_heap w p = Some d"
  obtains d' where "ds_heap w' p = Some d'" and "ds_core d' = ds_core d"
proof -
  from assms(1) have "map_option ds_core (ds_heap w' p) = map_option ds_core (ds_heap w p)"
    by (auto simp: l_frame_def)
  with assms(2) show thesis using that by auto
qed

lemma l_frame_vr:
  assumes "l_frame w w'"
  shows "vr_heap w' = vr_heap w" "has_vr w' p = has_vr w p" "has_vr w p \<Longrightarrow> the_vr w' p = the_vr w p"
    "has_vr w p \<Longrightarrow> vrec w' p = vrec w p"
proof -
  from assms obtain h where w': "w' = w\<lparr>ds_heap := h\<rparr>"
    and "map_option ds_core (h p) = map_option ds_core (ds_heap w p)"
    by (auto simp: l_frame_def)
  then have h: "map_option ds_vr (h p) = map_option ds_vr (ds_heap w p)"
    by (cases "h p"; cases "ds_heap w p") (auto dest: ds_core_fields(1))
  show "vr_heap w' = vr_heap w" by (simp add: w')
  show "has_vr w' p = has_vr w p"
    using h w' by (cases "h p"; cases "ds_heap w p") (auto simp: has_vr_def)
  show "the_vr w' p = the_vr w p" if "has_vr w p"
    using that h w' by (cases "h p"; cases "ds_heap w p") (auto simp: the_vr_def the_inst_def has_vr_def)
  then show "vrec w' p = vrec w p" if "has_vr w p"
    using that by (simp add: vrec_def)
qed

text \<open>Where a new instance with VRID \<open>i\<close> goes: before the first that is not smaller.\<close>

definition before :: "world \<Rightarrow> u8 \<Rightarrow> nat list \<Rightarrow> nat list" where
  "before w i ps = takeWhile (\<lambda>p. vr_id (vrec w p) < i) ps"

definition from_on :: "world \<Rightarrow> u8 \<Rightarrow> nat list \<Rightarrow> nat list" where
  "from_on w i ps = dropWhile (\<lambda>p. vr_id (vrec w p) < i) ps"

lemma before_from [simp]: "before w i ps @ from_on w i ps = ps"
  by (simp add: before_def from_on_def)

lemma create_scan_chain:
  assumes "chain ds_next (ds_heap w) c ps" and "\<And>p. p \<in> set ps \<Longrightarrow> has_vr w p" and "ps \<noteq> []"
  shows "create_scan w i c = Inr (Some (case from_on w i ps of [] \<Rightarrow> last ps | q # _ \<Rightarrow> q))"
  using assms
proof (induction ps arbitrary: c)
  case Nil
  then show ?case by simp
next
  case (Cons p ps)
  from Cons.prems(2) [of p] obtain d a v where p: "ds_heap w p = Some d" "ds_vr d = Some a"
    "vr_heap w a = Some v" "vrec w p = vr v"
    by (auto elim!: has_vrE)
  with Cons.prems have c: "c = Some p" "chain ds_next (ds_heap w) (ds_next d) ps" by auto
  show ?case
  proof (cases "ds_next d = None")
    case True
    with c(2) have "ps = []" by (cases ps) auto
    with True p c(1) show ?thesis
      unfolding create_scan_def by (subst loop_unfold) (simp add: from_on_def)
  next
    case False
    with c(2) have ne: "ps \<noteq> []" by (cases ps) auto
    have "create_scan w i c = (if vr_id (vr v) < i then create_scan w i (ds_next d) else Inr c)"
      using p c(1) False unfolding create_scan_def by (subst loop_unfold) simp
    moreover have "create_scan w i (ds_next d) = Inr (Some (case from_on w i ps of [] \<Rightarrow> last ps | q # _ \<Rightarrow> q))"
      by (rule Cons.IH [OF c(2) _ ne]) (simp add: Cons.prems(2))
    ultimately show ?thesis
      using p(4) c(1) ne by (cases "from_on w i ps") (auto simp: from_on_def simp del: dropWhile_eq_Nil_conv)
  qed
qed

lemma l_frameI:
  "(\<And>a. map_option ds_core (h a) = map_option ds_core (ds_heap w a)) \<Longrightarrow> l_frame w (w\<lparr>ds_heap := h\<rparr>)"
  by (auto simp: l_frame_def)

lemma inst_list_link:
  assumes "inst_list w ps" and "has_vr w n" and "l_frame w (w\<lparr>ds_heap := h\<rparr>)"
    and "set xs = insert n (set ps)" and "distinct (0 # xs)"
    and "dpath ds_next ds_prev h None (Some 0) (0 # xs) r None"
  shows "inst_list (w\<lparr>ds_heap := h\<rparr>) xs"
  using assms l_frame_vr(2) [OF assms(3)] by (auto simp: inst_list_def)

text \<open>The three places where \<open>create_link\<close> can put the node \<open>n\<close>.\<close>

lemma create_link_only:
  assumes il: "inst_list w []" and n: "n \<noteq> 0" "has_vr w n"
  shows "\<exists>w'. create_link (Some n) w = Inr w' \<and> l_frame w w' \<and> inst_list w' [n]"
proof -
  from il obtain l where l: "ds_heap w 0 = Some l" "ds_next l = None" "ds_prev l = None"
    by (auto simp: inst_list_def)
  from n obtain dn where dn: "ds_heap w n = Some dn" by (auto elim: has_vrE)
  let ?h = "(ds_heap w)(0 := Some (l\<lparr>ds_next := Some n\<rparr>), n := Some (dn\<lparr>ds_prev := Some 0, ds_next := None\<rparr>))"
  have f: "l_frame w (w\<lparr>ds_heap := ?h\<rparr>)"
    by (rule l_frameI) (use l dn n in simp)
  have "create_link (Some n) w = Inr (w\<lparr>ds_heap := ?h\<rparr>)"
    using l dn n by (simp add: create_link_def inst_runtime_list_def)
  moreover have "inst_list (w\<lparr>ds_heap := ?h\<rparr>) [n]"
    by (rule inst_list_link [OF il n(2) f]) (use l n in simp_all)
  ultimately show ?thesis using f by blast
qed

lemma create_link_last:
  assumes il: "inst_list w (zs @ [b])" and new: "n \<notin> set (0 # zs @ [b])" and n: "has_vr w n"
    and below: "\<And>p. p \<in> set (zs @ [b]) \<Longrightarrow> vr_id (vrec w p) < vr_id (vrec w n)"
  shows "\<exists>w'. create_link (Some n) w = Inr w' \<and> l_frame w w' \<and> inst_list w' (zs @ [b, n])"
proof -
  from il obtain l q where l: "ds_heap w 0 = Some l"
    and ch: "chain ds_next (ds_heap w) (ds_next l) (zs @ [b])"
    and path: "dpath ds_next ds_prev (ds_heap w) None (Some 0) ((0 # zs) @ [b]) q None"
    and vrs: "\<And>p. p \<in> set (zs @ [b]) \<Longrightarrow> has_vr w p" and dist: "distinct ((0 # zs) @ [b])"
    by (auto simp: inst_list_def dest: dpath_chain)
  from n obtain dn vn where dn: "ds_heap w n = Some dn" "inst_vr (Some n) w = Inr vn" "vrec w n = vr vn"
    by (auto elim: has_vrE)
  from vrs [of b] obtain nb bv where nb: "ds_heap w b = Some nb" "inst_vr (Some b) w = Inr bv" "vrec w b = vr bv"
    by (auto elim: has_vrE)
  from ch obtain h0 where h0: "ds_next l = Some h0" by (cases zs) auto
  have scan: "create_scan w (vr_id (vr vn)) (ds_next l) = Inr (Some b)"
    using create_scan_chain [OF ch vrs, of "vr_id (vr vn)"] below dn(3)
    by (auto simp: from_on_def dropWhile_eq_Nil_conv split: list.splits)
  let ?dn = "dn\<lparr>ds_prev := Some b, ds_next := None\<rparr>"
  let ?h = "(ds_heap w)(n := Some ?dn, b := Some (nb\<lparr>ds_next := Some n\<rparr>))"
  have bn: "b \<noteq> n" using new by auto
  have f: "l_frame w (w\<lparr>ds_heap := ?h\<rparr>)"
    by (rule l_frameI) (use nb dn bn in simp)
  have "create_link (Some n) w = Inr (w\<lparr>ds_heap := ?h\<rparr>)"
    using l h0 dn nb scan bn below [of b]
    by (simp add: create_link_def inst_runtime_list_def fun_upd_twist [of n b])
  moreover have "inst_list (w\<lparr>ds_heap := ?h\<rparr>) (zs @ [b, n])"
    using il.insert_last [OF path dist _ nb(1), of n ?dn] new dist
    by (intro inst_list_link [OF il n f]) auto
  ultimately show ?thesis using f by blast
qed

lemma create_link_before:
  assumes il: "inst_list w (xs @ c # ys)" and new: "n \<notin> set (0 # xs @ c # ys)" and n: "has_vr w n"
    and below: "\<And>p. p \<in> set xs \<Longrightarrow> vr_id (vrec w p) < vr_id (vrec w n)"
    and place: "\<not> vr_id (vrec w c) < vr_id (vrec w n)"
  shows "\<exists>w'. create_link (Some n) w = Inr w' \<and> l_frame w w' \<and> inst_list w' (xs @ n # c # ys)"
proof -
  obtain bs b where bs: "0 # xs = bs @ [b]" by (metis append_butlast_last_id list.distinct(1))
  then have eq: "0 # xs @ c # ys = bs @ b # c # ys" "0 # xs @ n # c # ys = bs @ b # n # c # ys"
    by (metis append.assoc append_Cons append_Nil)+
  from il obtain l q where l: "ds_heap w 0 = Some l"
    and path': "dpath ds_next ds_prev (ds_heap w) (Some 0) (ds_next l) (xs @ c # ys) q None" "ds_prev l = None"
    and vrs: "\<And>p. p \<in> set (xs @ c # ys) \<Longrightarrow> has_vr w p" and dist': "distinct (0 # xs @ c # ys)"
    by (auto simp: inst_list_def)
  note dist = dist' [unfolded eq] and ch = dpath_chain [OF path'(1)]
  have path: "dpath ds_next ds_prev (ds_heap w) None (Some 0) (bs @ b # c # ys) q None"
    using l path' by (simp flip: eq)
  have new': "n \<notin> set (bs @ b # c # ys)" using new unfolding eq .
  from n obtain dn vn where dn: "ds_heap w n = Some dn" "inst_vr (Some n) w = Inr vn" "vrec w n = vr vn"
    by (auto elim: has_vrE)
  from vrs [of c] obtain nc cv where nc: "ds_heap w c = Some nc" "inst_vr (Some c) w = Inr cv" "vrec w c = vr cv"
    by (auto elim: has_vrE)
  from path nc obtain nb where nb: "ds_heap w b = Some nb" "ds_prev nc = Some b" by (auto simp: dpath_append)
  from ch obtain h0 where h0: "ds_next l = Some h0" by (cases xs) auto
  have scan: "create_scan w (vr_id (vr vn)) (ds_next l) = Inr (Some c)"
    using create_scan_chain [OF ch vrs, of "vr_id (vr vn)"] below place dn(3)
    by (simp add: from_on_def dropWhile_append2)
  let ?dn = "dn\<lparr>ds_prev := Some b, ds_next := Some c\<rparr>"
  let ?h = "(ds_heap w)(n := Some ?dn, b := Some (nb\<lparr>ds_next := Some n\<rparr>), c := Some (nc\<lparr>ds_prev := Some n\<rparr>))"
  have neq: "b \<noteq> c" "n \<noteq> b" "n \<noteq> c" using dist new' by auto
  have f: "l_frame w (w\<lparr>ds_heap := ?h\<rparr>)"
    by (rule l_frameI) (use dn nb nc neq in simp)
  have "create_link (Some n) w = Inr (w\<lparr>ds_heap := ?h\<rparr>)"
    using l h0 dn nc nb scan neq place by (simp add: create_link_def inst_runtime_list_def)
  moreover have "inst_list (w\<lparr>ds_heap := ?h\<rparr>) (xs @ n # c # ys)"
  proof (rule inst_list_link [OF il n f])
    show "dpath ds_next ds_prev ?h None (Some 0) (0 # xs @ n # c # ys) q None"
      unfolding eq(2) by (rule il.insert_before [OF path dist new' nb(1) nc(1)]) simp_all
  qed (use dist' new in auto)
  ultimately show ?thesis using f by blast
qed

text \<open>The new node \<open>n\<close> is linked before the first instance whose VRID is not smaller.\<close>

lemma create_link_ok:
  assumes il: "inst_list w ps" and new: "n \<notin> set (0 # ps)" and n: "has_vr w n"
  shows "\<exists>w'. create_link (Some n) w = Inr w' \<and> l_frame w w' \<and>
    inst_list w' (before w (vr_id (vrec w n)) ps @ n # from_on w (vr_id (vrec w n)) ps)"
proof (cases "from_on w (vr_id (vrec w n)) ps")
  case Nil
  then have all: "\<forall>p \<in> set ps. vr_id (vrec w p) < vr_id (vrec w n)"
    by (auto simp: from_on_def dropWhile_eq_Nil_conv)
  then have "before w (vr_id (vrec w n)) ps = ps" by (simp add: before_def takeWhile_eq_all_conv)
  with Nil all il new n show ?thesis
    using create_link_only [of w n] create_link_last [of w _ _ n]
    by (cases ps rule: rev_cases) auto
next
  case (Cons c ys)
  define xs where "xs = before w (vr_id (vrec w n)) ps"
  with Cons have ps: "ps = xs @ c # ys" using before_from [of w "vr_id (vrec w n)" ps] by simp
  have "\<not> vr_id (vrec w c) < vr_id (vrec w n)"
    using Cons hd_dropWhile [of "\<lambda>p. vr_id (vrec w p) < vr_id (vrec w n)" ps] by (auto simp: from_on_def)
  moreover have "vr_id (vrec w p) < vr_id (vrec w n)" if "p \<in> set xs" for p
    using that by (auto simp: xs_def before_def dest: set_takeWhileD)
  ultimately have "\<exists>w'. create_link (Some n) w = Inr w' \<and> l_frame w w' \<and> inst_list w' (xs @ n # c # ys)"
    using il new n unfolding ps by (intro create_link_before)
  then show ?thesis by (simp add: Cons xs_def)
qed

section \<open>The invariant of the table\<close>

text \<open>
  Instances in the order of their VRIDs, each the parent of its single router, whose interface
  name is a string; memory from \<open>brk\<close> on is free.
\<close>

definition own_vr :: "world \<Rightarrow> nat \<Rightarrow> bool" where
  "own_vr w p \<longleftrightarrow> wf_vr (vrec w p) \<and> parent (the_vr w p) = Some p \<and> vr_next (the_vr w p) = None"

definition fresh_above :: "world \<Rightarrow> bool" where
  "fresh_above w \<longleftrightarrow> 0 < brk w \<and> (\<forall>n \<ge> brk w. ds_heap w n = None \<and> vr_heap w n = None)"

definition table :: "world \<Rightarrow> nat list \<Rightarrow> bool" where
  "table w ps \<longleftrightarrow> inst_list w ps \<and> sorted (map (\<lambda>p. vr_id (vrec w p)) ps) \<and>
     (\<forall>p \<in> set ps. own_vr w p) \<and> fresh_above w"

definition vkey :: "vrrp_vr \<Rightarrow> u8 \<times> u8 list \<times> cint" where
  "vkey r = (vr_id r, cstr (vr_ifname r), vr_af r)"

lemma inst_list_old:
  assumes il: "inst_list w ps"
    and old: "\<And>a d. ds_heap w a = Some d \<Longrightarrow> ds_heap w' a = Some d" "\<And>a v. vr_heap w a = Some v \<Longrightarrow> vr_heap w' a = Some v"
  shows "inst_list w' ps" and "p \<in> set ps \<Longrightarrow> the_inst w' p = the_inst w p"
    and "p \<in> set ps \<Longrightarrow> the_vr w' p = the_vr w p" and "p \<in> set ps \<Longrightarrow> vrec w' p = vrec w p"
proof -
  from il obtain q where d: "dpath ds_next ds_prev (ds_heap w) None (Some 0) (0 # ps) q None"
    by (auto simp: inst_list_def)
  have "links ds_next ds_prev (ds_heap w') a = links ds_next ds_prev (ds_heap w) a" if "a \<in> set (0 # ps)" for a
    using dpath_alloc [OF d that] old(1) by (auto simp: links_def)
  then have "dpath ds_next ds_prev (ds_heap w') None (Some 0) (0 # ps) q None"
    using dpath_cong d by blast
  moreover have vr: "has_vr w' p \<and> the_inst w' p = the_inst w p \<and> the_vr w' p = the_vr w p" if "p \<in> set ps" for p
    using il that old by (fastforce simp: inst_list_def has_vr_def)
  ultimately show "inst_list w' ps"
    using il by (auto simp: inst_list_def)
  show "p \<in> set ps \<Longrightarrow> the_inst w' p = the_inst w p" "p \<in> set ps \<Longrightarrow> the_vr w' p = the_vr w p"
    "p \<in> set ps \<Longrightarrow> vrec w' p = vrec w p"
    using vr by (auto simp: vrec_def)
qed

lemma search_vr_eq:
  assumes "inst_list w ps"
  shows "vrrp_search_vr i ifname af w =
    Inr (case search_spec i ifname af w ps of None \<Rightarrow> None | Some p \<Rightarrow> ds_vr (the_inst w p))"
proof (cases "search_spec i ifname af w ps")
  case None
  then show ?thesis by (simp add: vrrp_search_vr_def search_inst_eq [OF assms])
next
  case (Some p)
  with assms have "has_vr w p" by (auto simp: inst_list_def dest: search_spec_member)
  with Some show ?thesis by (auto simp: vrrp_search_vr_def search_inst_eq [OF assms] has_vr_def)
qed

lemma check_conflict_eq:
  assumes "inst_list w ps"
  shows "vrrp_check_conflict i ifname af w =
    Inr (if search_spec i ifname af w ps = None then 0 else -1)"
proof (cases "search_spec i ifname af w ps")
  case None
  then show ?thesis by (simp add: vrrp_check_conflict_def search_vr_eq [OF assms])
next
  case (Some p)
  with assms have "has_vr w p" by (auto simp: inst_list_def dest: search_spec_member)
  with Some show ?thesis by (auto simp: vrrp_check_conflict_def search_vr_eq [OF assms] has_vr_def)
qed

section \<open>What creating an instance does\<close>

definition wf_request :: "vrrp_inst \<Rightarrow> bool" where
  "wf_request vi \<longleftrightarrow> wf_vr (vi_vr vi) \<and> 4 * unat (vr_ipnum (vi_vr vi)) \<le> length (vr_ip (vi_vr vi))"

definition valid_request :: "vrrp_inst \<Rightarrow> bool" where
  "valid_request vi \<longleftrightarrow> 0 <s delay (vi_va vi) \<and> 0 < vr_ipnum (vi_vr vi)"

text \<open>The router the daemon keeps for a request: its own copy of the addresses.\<close>

definition kept_vr :: "vrrp_vr \<Rightarrow> vrrp_vr" where
  "kept_vr r = r\<lparr>vr_ip := take (4 * unat (vr_ipnum r)) (vr_ip r)\<rparr>"

definition new_inst :: "vrrp_inst \<Rightarrow> world \<Rightarrow> vrrpd_ds" where
  "new_inst vi w = blank_ds\<lparr>ds_vr := Some (Suc (brk w)), state := VRRP_STATE_INIT,
     active := vi_active vi, state_trans_time := time_of_day (os w) (trace w)\<rparr>"

definition new_router :: "vrrp_inst \<Rightarrow> world \<Rightarrow> vrrpd_vr_ds" where
  "new_router vi w = blank_vr\<lparr>parent := Some (brk w), attr := vi_va vi, vr := kept_vr (vi_vr vi)\<rparr>"

text \<open>The state after the allocations, before the instance is linked into the list.\<close>

definition allocated :: "vrrp_inst \<Rightarrow> world \<Rightarrow> world" where
  "allocated vi w = w\<lparr>ds_heap := (ds_heap w)(brk w := Some (new_inst vi w)), brk := brk w + 3,
     vr_heap := (vr_heap w)(Suc (brk w) := Some (new_router vi w))\<rparr>"

definition request_free :: "vrrp_inst \<Rightarrow> world \<Rightarrow> nat list \<Rightarrow> bool" where
  "request_free vi w ps \<longleftrightarrow>
     search_spec (vr_id (vi_vr vi)) (Some (vr_ifname (vi_vr vi))) (vr_af (vi_vr vi)) w ps = None"

lemma create_inst_eq:
  assumes "inst_list w ps" and "no_oom w" and "wf_request vi"
  shows "vrrp_create_inst (Some vi) w =
    (if \<not> valid_request vi then Inr ((EINVAL, None), w)
     else if \<not> request_free vi w ps then Inr ((VRRP_EVREXIST, None), w)
     else bnd (create_link (Some (brk w)) (allocated vi w)) (\<lambda>w'. Inr ((VRRP_SUCCESS, Some (brk w)), w')))"
  using assms
  by (auto simp: vrrp_create_inst_def valid_request_def request_free_def check_conflict_eq vrrp_create_vr_def
      wf_request_def allocated_def new_inst_def new_router_def kept_vr_def numeral_3_eq_3 mult.commute)

lemma sorted_insert:
  assumes "sorted (map f (xs @ ys))" and "\<And>x. x \<in> set xs \<Longrightarrow> f x \<le> (f n :: 'a :: linorder)"
    and "\<And>y. y \<in> set ys \<Longrightarrow> f n \<le> f y"
  shows "sorted (map f (xs @ n # ys))"
  using assms by (auto simp: sorted_append)

lemma sorted_from_on:
  assumes "sorted (map (\<lambda>p. vr_id (vrec w p)) ps)" and "p \<in> set (from_on w i ps)"
  shows "i \<le> vr_id (vrec w p)"
  using assms
proof (induction ps)
  case (Cons a ps)
  then show ?case by (cases "vr_id (vrec w a) < i") (auto simp: from_on_def)
qed (simp add: from_on_def)

lemma fresh_not_in:
  assumes "table w ps"
  shows "brk w \<notin> set (0 # ps)"
  using assms by (fastforce simp: table_def fresh_above_def inst_list_def has_vr_def)

lemma allocated_list:
  assumes t: "table w ps"
  shows "inst_list (allocated vi w) ps" and "has_vr (allocated vi w) (brk w)"
    and "vrec (allocated vi w) (brk w) = kept_vr (vi_vr vi)"
    and "p \<in> set ps \<Longrightarrow> the_inst (allocated vi w) p = the_inst w p"
    and "p \<in> set ps \<Longrightarrow> the_vr (allocated vi w) p = the_vr w p"
    and "p \<in> set ps \<Longrightarrow> vrec (allocated vi w) p = vrec w p"
proof -
  have old: "ds_heap w a = Some d \<Longrightarrow> ds_heap (allocated vi w) a = Some d"
    "vr_heap w a = Some v \<Longrightarrow> vr_heap (allocated vi w) a = Some v" for a d v
    using t by (auto simp: table_def fresh_above_def allocated_def)
  have il: "inst_list w ps" using t by (simp add: table_def)
  note l = inst_list_old [OF il, of "allocated vi w", OF old]
  show "inst_list (allocated vi w) ps" by (rule l(1))
  show "p \<in> set ps \<Longrightarrow> the_inst (allocated vi w) p = the_inst w p" by (rule l(2))
  show "p \<in> set ps \<Longrightarrow> the_vr (allocated vi w) p = the_vr w p" by (rule l(3))
  show "p \<in> set ps \<Longrightarrow> vrec (allocated vi w) p = vrec w p" by (rule l(4))
  show "has_vr (allocated vi w) (brk w)"
    by (simp add: has_vr_def allocated_def new_inst_def)
  show "vrec (allocated vi w) (brk w) = kept_vr (vi_vr vi)"
    by (simp add: vrec_def the_vr_def the_inst_def allocated_def new_inst_def new_router_def)
qed

lemma l_frame_the_inst:
  assumes "l_frame w w'" and "has_vr w p"
  shows "ds_core (the_inst w' p) = ds_core (the_inst w p)"
  using assms by (auto elim!: has_vrE l_frame_inst)

text \<open>The list with the new instance in its place.\<close>

definition with_inst :: "vrrp_inst \<Rightarrow> world \<Rightarrow> nat list \<Rightarrow> nat list" where
  "with_inst vi w ps = before w (vr_id (vi_vr vi)) ps @ brk w # from_on w (vr_id (vi_vr vi)) ps"

lemma before_from_cong:
  "(\<And>p. p \<in> set ps \<Longrightarrow> vrec w' p = vrec w p) \<Longrightarrow> before w' i ps = before w i ps \<and> from_on w' i ps = from_on w i ps"
  by (simp add: before_def from_on_def cong: takeWhile_cong dropWhile_cong)

lemma table_insert:
  assumes t: "table w ps" and il: "inst_list w' (before w i ps @ n # from_on w i ps)"
    and old: "\<And>p. p \<in> set ps \<Longrightarrow> the_vr w' p = the_vr w p"
    and new: "vr_id (vrec w' n) = i" "own_vr w' n" and fresh: "fresh_above w'"
  shows "table w' (before w i ps @ n # from_on w i ps)"
proof -
  have v: "vrec w' p = vrec w p" if "p \<in> set ps" for p using old [OF that] by (simp add: vrec_def)
  have sub: "set (before w i ps) \<subseteq> set ps" "set (from_on w i ps) \<subseteq> set ps"
    using before_from [of w i ps] by (metis set_append Un_upper1 Un_upper2)+
  have s: "sorted (map (\<lambda>p. vr_id (vrec w p)) ps)" using t by (simp add: table_def)
  have "sorted (map (\<lambda>p. vr_id (vrec w' p)) (before w i ps @ n # from_on w i ps))"
  proof (rule sorted_insert)
    show "sorted (map (\<lambda>p. vr_id (vrec w' p)) (before w i ps @ from_on w i ps))"
      using s v by (simp cong: map_cong)
    show "vr_id (vrec w' x) \<le> vr_id (vrec w' n)" if "x \<in> set (before w i ps)" for x
      using that sub v new by (auto simp: before_def dest!: set_takeWhileD)
    show "vr_id (vrec w' n) \<le> vr_id (vrec w' x)" if "x \<in> set (from_on w i ps)" for x
      using sorted_from_on [OF s that] that sub v new by auto
  qed
  moreover have "own_vr w' p" if "p \<in> set ps" for p
    using t that old [OF that] v [OF that] by (simp add: table_def own_vr_def)
  ultimately show ?thesis
    using il fresh new sub by (auto simp: table_def)
qed

lemma fresh_link: "fresh_above w \<Longrightarrow> l_frame w w' \<Longrightarrow> fresh_above w'"
  unfolding fresh_above_def l_frame_def by clarsimp (metis map_option_is_None)

lemma fresh_allocated: "fresh_above w \<Longrightarrow> fresh_above (allocated vi w)"
  by (auto simp: fresh_above_def allocated_def)

lemma create_inst_ok:
  assumes t: "table w ps" and oom: "no_oom w" and wf: "wf_request vi"
    and ok: "valid_request vi" "request_free vi w ps"
  shows "\<exists>w'. vrrp_create_inst (Some vi) w = Inr ((VRRP_SUCCESS, Some (brk w)), w') \<and>
     table w' (with_inst vi w ps) \<and> l_frame (allocated vi w) w' \<and>
     ds_core (the_inst w' (brk w)) = ds_core (new_inst vi w) \<and> the_vr w' (brk w) = new_router vi w \<and>
     (\<forall>p \<in> set ps. ds_core (the_inst w' p) = ds_core (the_inst w p) \<and> the_vr w' p = the_vr w p)"
proof -
  let ?a = "allocated vi w" and ?n = "brk w"
  note a = allocated_list [OF t, where vi = vi]
  obtain w' where link: "create_link (Some ?n) ?a = Inr w'" and f: "l_frame ?a w'"
    and il: "inst_list w' (before ?a (vr_id (vi_vr vi)) ps @ ?n # from_on ?a (vr_id (vi_vr vi)) ps)"
    using create_link_ok [OF a(1) fresh_not_in [OF t] a(2)] by (auto simp: a(3) kept_vr_def)
  have il': "inst_list w' (with_inst vi w ps)"
    using il before_from_cong [of ps ?a w] a(6) by (simp add: with_inst_def)
  have old: "the_vr w' p = the_vr w p \<and> ds_core (the_inst w' p) = ds_core (the_inst w p)" if "p \<in> set ps" for p
  proof -
    have h: "has_vr ?a p" using a(1) that by (simp add: inst_list_def)
    then show ?thesis
      using l_frame_vr(3) [OF f h] l_frame_the_inst [OF f h] a(4,5) [OF that] by simp
  qed
  have new: "the_vr w' ?n = new_router vi w" "ds_core (the_inst w' ?n) = ds_core (new_inst vi w)"
    using l_frame_vr(3) [OF f a(2)] l_frame_the_inst [OF f a(2)]
    by (simp_all add: the_vr_def the_inst_def allocated_def new_inst_def)
  have "own_vr w' ?n"
    using wf new by (simp add: own_vr_def vrec_def new_router_def kept_vr_def wf_request_def wf_vr_def blank_vr_def)
  then have "table w' (with_inst vi w ps)"
    unfolding with_inst_def
  proof (intro table_insert [OF t il' [unfolded with_inst_def]])
    show "vr_id (vrec w' ?n) = vr_id (vi_vr vi)"
      by (simp add: vrec_def new new_router_def kept_vr_def)
    show "fresh_above w'"
      using t f by (auto simp: table_def intro: fresh_link fresh_allocated)
  qed (use old in simp_all)
  with ok old new link f show ?thesis
    using create_inst_eq [of w ps, OF _ oom wf] t by (auto simp: table_def)
qed

text \<open>
  C8: Creating an instance, for every request: it is refused with errno's EINVAL when the
  interval is not positive or there is no address, refused with VRRP_EVREXIST when the search finds
  its key, both times without any change; otherwise the instance is created in state INIT, the table
  gains exactly it, still in the order of the VRIDs, and every other instance is as it was.
\<close>

theorem create_inst_spec:
  assumes t: "table w ps" and oom: "no_oom w" and wf: "wf_request vi"
  shows "(\<not> valid_request vi \<and> vrrp_create_inst (Some vi) w = Inr ((EINVAL, None), w)) \<or>
    (valid_request vi \<and> \<not> request_free vi w ps \<and> vrrp_create_inst (Some vi) w = Inr ((VRRP_EVREXIST, None), w)) \<or>
    (valid_request vi \<and> request_free vi w ps \<and>
      (\<exists>w'. vrrp_create_inst (Some vi) w = Inr ((VRRP_SUCCESS, Some (brk w)), w') \<and>
         table w' (with_inst vi w ps) \<and>
         ds_core (the_inst w' (brk w)) = ds_core (new_inst vi w) \<and> the_vr w' (brk w) = new_router vi w \<and>
         (\<forall>p \<in> set ps. ds_core (the_inst w' p) = ds_core (the_inst w p) \<and> the_vr w' p = the_vr w p)))"
proof (cases "valid_request vi \<and> request_free vi w ps")
  case False
  then show ?thesis
    using create_inst_eq [OF _ oom wf, of ps] t by (auto simp: table_def)
next
  case True
  then show ?thesis using create_inst_ok [OF assms] by blast
qed

text \<open>The empty table, and the request of the examples.\<close>

definition demo_empty :: world where
  "demo_empty = demo_world 0 Map.empty [0 \<mapsto> demo_inst 0 None None None] None"

definition demo_req :: "u8 \<Rightarrow> vrrp_inst" where
  "demo_req i = \<lparr>vi_va = demo_attr 100, vi_vr = demo_vr i, vi_state = 0, vi_active = 0\<rparr>"

lemma table_demo_empty: "table demo_empty []"
  by (simp add: table_def inst_list_def fresh_above_def demo_empty_def)

lemma demo_empty_simps [simp]: "no_oom demo_empty" "brk demo_empty = 100" "adv_q demo_empty = None"
  "ds_heap demo_empty = [0 \<mapsto> demo_inst 0 None None None]" "vr_heap demo_empty = Map.empty"
  by (simp_all add: demo_empty_def)

lemma demo_req_ok: "wf_request (demo_req i)" "valid_request (demo_req i)"
  by (simp_all add: wf_request_def valid_request_def demo_req_def wf_vr_def has_nul_def demo_ifname_def
      demo_vr_def word_sless_alt)

lemma request_free_Nil: "request_free vi w []"
  by (simp add: request_free_def search_spec_def the_only_def)

theorem create_inst_spec_witness:
  "\<exists>w'. vrrp_create_inst (Some (demo_req 7)) demo_empty = Inr ((0, Some 100), w') \<and> table w' [100]"
  using create_inst_spec [OF table_demo_empty _ demo_req_ok(1) [of 7]]
  by (auto simp: demo_req_ok request_free_Nil with_inst_def before_def from_on_def)

section \<open>The table as a store of instances by name\<close>

text \<open>
  What the rest of the daemon relies on: within the invariant, creation is refused exactly when the
  key is taken, and afterwards the key is found and every other key is found as before.
\<close>

locale instance_store =
  fixes inv :: "'s \<Rightarrow> bool" and lookup :: "'k \<Rightarrow> 's \<Rightarrow> ptr res"
    and create :: "'v \<Rightarrow> 's \<Rightarrow> ((u32 \<times> ptr) \<times> 's) res"
    and key_of :: "'v \<Rightarrow> 'k" and key_ok :: "'k \<Rightarrow> bool" and ok :: "'v \<Rightarrow> bool"
  assumes lookup_total: "inv s \<Longrightarrow> key_ok k \<Longrightarrow> \<exists>p. lookup k s = Inr p"
    and ok_key: "ok v \<Longrightarrow> key_ok (key_of v)"
    and create_dup: "inv s \<Longrightarrow> ok v \<Longrightarrow> lookup (key_of v) s = Inr (Some p) \<Longrightarrow>
      create v s = Inr ((VRRP_EVREXIST, None), s)"
    and create_new: "inv s \<Longrightarrow> ok v \<Longrightarrow> lookup (key_of v) s = Inr None \<Longrightarrow>
      \<exists>p s'. create v s = Inr ((VRRP_SUCCESS, Some p), s') \<and> inv s' \<and>
        lookup (key_of v) s' = Inr (Some p) \<and> (\<forall>k. key_ok k \<longrightarrow> k \<noteq> key_of v \<longrightarrow> lookup k s' = lookup k s)"
begin

lemma create_inv: "inv s \<Longrightarrow> ok v \<Longrightarrow> returns (create v s) (\<lambda>(_, s'). inv s')"
  using lookup_total [of s "key_of v"] ok_key [of v] create_dup [of s v] create_new [of s v]
  by (metis (no_types, lifting) case_prod_conv not_None_eq returns_simps(1))

text \<open>After a creation, successful or not, the same request is refused.\<close>

lemma create_again:
  assumes "inv s" and "ok v"
  shows "returns (create v s) (\<lambda>(_, s'). create v s' = Inr ((VRRP_EVREXIST, None), s'))"
proof -
  obtain p where "lookup (key_of v) s = Inr p" using lookup_total assms ok_key by blast
  then show ?thesis
    using assms create_dup [of s v] create_new [of s v] create_dup [of _ v] by (cases p) fastforce+
qed

text \<open>Creating one instance does not decide whether another key can be created.\<close>

lemma create_other:
  assumes "inv s" and "ok v" and "key_ok k" and "k \<noteq> key_of v"
  shows "returns (create v s) (\<lambda>(_, s'). lookup k s' = lookup k s)"
proof -
  obtain p where "lookup (key_of v) s = Inr p" using lookup_total assms ok_key by blast
  then show ?thesis
    using assms create_dup [of s v] create_new [of s v] by (cases p) fastforce+
qed

end


definition table_inv :: "world \<Rightarrow> bool" where
  "table_inv w \<longleftrightarrow> (\<exists>ps. table w ps \<and> distinct (map (\<lambda>p. vkey (vrec w p)) ps)) \<and> no_oom w"

definition name_ok :: "u8 list \<Rightarrow> bool" where
  "name_ok nm \<longleftrightarrow> nm \<noteq> [] \<and> length nm < 32 \<and> 0 \<notin> set nm"

definition full_key :: "u8 \<times> u8 list \<times> cint \<Rightarrow> bool" where
  "full_key k = (case k of (i, nm, af) \<Rightarrow> i \<noteq> 0 \<and> name_ok nm \<and> af \<noteq> 0)"

definition full_request :: "vrrp_inst \<Rightarrow> bool" where
  "full_request vi \<longleftrightarrow> wf_request vi \<and> valid_request vi \<and> full_key (vkey (vi_vr vi))"

definition lookup_key :: "u8 \<times> u8 list \<times> cint \<Rightarrow> world \<Rightarrow> ptr res" where
  "lookup_key k w = (case k of (i, nm, af) \<Rightarrow> vrrp_search_inst i (Some nm) af w)"

lemma full_match_key:
  assumes "wf_vr r" and "full_key (i, nm, af)"
  shows "full_match i nm af r \<longleftrightarrow> vkey r = (i, nm, af)"
  using assms length_cstr_nul [of "vr_ifname r"] cstr_id [of nm] strncmp_eq_iff [of nm 32 "vr_ifname r"]
  by (auto simp: full_match_def vkey_def wf_vr_def full_key_def name_ok_def)

lemma lookup_key_eq:
  assumes t: "table w ps" and k: "full_key k"
  shows "lookup_key k w = Inr (List.find (\<lambda>p. vkey (vrec w p) = k) ps)"
proof -
  obtain i nm af where k': "k = (i, nm, af)" by (cases k) auto
  have "cstr nm \<noteq> []" using k cstr_id [of nm] by (auto simp: k' full_key_def name_ok_def)
  then have "lookup_key k w = Inr (List.find (\<lambda>p. full_match i nm af (vrec w p)) ps)"
    using k search_inst_eq [of w ps i "Some nm" af] t
    by (simp add: k' lookup_key_def table_def search_spec_def full_key_def no_name_def)
  also have "List.find (\<lambda>p. full_match i nm af (vrec w p)) ps = List.find (\<lambda>p. vkey (vrec w p) = k) ps"
    using t k by (intro find_cong) (auto simp: table_def own_vr_def full_match_key k')
  finally show ?thesis .
qed

lemma search_key:
  assumes "full_key (vkey r)" and "table w ps"
  shows "search_spec (vr_id r) (Some (vr_ifname r)) (vr_af r) w ps = List.find (\<lambda>p. vkey (vrec w p) = vkey r) ps"
proof -
  have "search_spec (vr_id r) (Some (vr_ifname r)) (vr_af r) w ps =
      search_spec (vr_id r) (Some (cstr (vr_ifname r))) (vr_af r) w ps"
    by (simp only: search_spec_def no_name_def full_match_def part_match_def cstr_idem
        strncmp_eq_cstr_left option.case option.sel)
  then show ?thesis
    using assms lookup_key_eq [OF assms(2,1)] search_inst_eq [of w ps] by (simp add: table_def lookup_key_def vkey_def)
qed

lemma find_insert: "\<not> P n \<Longrightarrow> List.find P (xs @ n # ys) = List.find P (xs @ ys)"
  by (induction xs) auto

lemma distinct_insert:
  "distinct (map f (xs @ n # ys)) \<longleftrightarrow> f n \<notin> f ` set (xs @ ys) \<and> distinct (map f (xs @ ys))"
  by auto

lemma find_distinct:
  "distinct (map f ps) \<Longrightarrow> List.find (\<lambda>p. f p = k) ps = Some p \<longleftrightarrow> p \<in> set ps \<and> f p = k"
  by (induction ps) auto

lemma find_None: "List.find (\<lambda>p. f p = k) ps = None \<longleftrightarrow> k \<notin> f ` set ps"
  by (auto simp: find_None_iff)

lemma set_with_inst: "set (with_inst vi w ps) = insert (brk w) (set ps)"
  using before_from [of w "vr_id (vi_vr vi)" ps] unfolding with_inst_def
  by (metis (no_types, lifting) Un_insert_right list.simps(15) set_append)

lemma find_with_inst:
  "f (brk w) \<noteq> k \<Longrightarrow> (\<And>p. p \<in> set ps \<Longrightarrow> f p = g p) \<Longrightarrow>
   List.find (\<lambda>p. f p = k) (with_inst vi w ps) = List.find (\<lambda>p. g p = k) ps"
  unfolding with_inst_def by (simp add: find_insert cong: find_cong)

interpretation ist: instance_store table_inv lookup_key "\<lambda>vi. vrrp_create_inst (Some vi)"
  "\<lambda>vi. vkey (vi_vr vi)" full_key full_request
proof unfold_locales
  fix w k assume "table_inv w" "full_key k"
  then show "\<exists>p. lookup_key k w = Inr p" by (auto simp: table_inv_def lookup_key_eq)
next
  fix vi assume "full_request vi"
  then show "full_key (vkey (vi_vr vi))" by (simp add: full_request_def)
next
  fix w vi p assume "table_inv w" "full_request vi" "lookup_key (vkey (vi_vr vi)) w = Inr (Some p)"
  then show "vrrp_create_inst (Some vi) w = Inr ((VRRP_EVREXIST, None), w)"
    by (auto simp: table_inv_def full_request_def lookup_key_eq table_def
        create_inst_eq request_free_def search_key)
next
  fix w vi assume "table_inv w" and v: "full_request vi" and "lookup_key (vkey (vi_vr vi)) w = Inr None"
  then obtain ps where t: "table w ps" and d: "distinct (map (\<lambda>p. vkey (vrec w p)) ps)" and oom: "no_oom w"
    and nf: "List.find (\<lambda>p. vkey (vrec w p) = vkey (vi_vr vi)) ps = None"
    by (auto simp: table_inv_def full_request_def lookup_key_eq)
  then have "request_free vi w ps"
    using v by (simp add: request_free_def search_key full_request_def)
  then obtain w' where w': "vrrp_create_inst (Some vi) w = Inr ((VRRP_SUCCESS, Some (brk w)), w')"
    "table w' (with_inst vi w ps)" "l_frame (allocated vi w) w'" "the_vr w' (brk w) = new_router vi w"
    "\<And>p. p \<in> set ps \<Longrightarrow> the_vr w' p = the_vr w p"
    using create_inst_ok [OF t oom] v by (fastforce simp: full_request_def)
  have kn: "vkey (vrec w' (brk w)) = vkey (vi_vr vi)"
    by (simp add: vrec_def w'(4) new_router_def kept_vr_def vkey_def)
  have ko: "vkey (vrec w' p) = vkey (vrec w p)" if "p \<in> set ps" for p
    using w'(5) [OF that] by (simp add: vrec_def)
  have d': "distinct (map (\<lambda>p. vkey (vrec w' p)) (with_inst vi w ps))"
    using d nf ko kn unfolding with_inst_def distinct_insert before_from find_None
    by (simp cong: map_cong image_cong)
  have oom': "no_oom w'" using oom w'(3) by (auto simp: l_frame_def allocated_def)
  have "lookup_key (vkey (vi_vr vi)) w' = Inr (Some (brk w))"
    using v find_distinct [OF d'] kn by (simp add: lookup_key_eq [OF w'(2)] full_request_def set_with_inst)
  moreover have "lookup_key k w' = lookup_key k w" if "full_key k" "k \<noteq> vkey (vi_vr vi)" for k
    using that kn ko by (simp add: lookup_key_eq [OF w'(2)] lookup_key_eq [OF t] find_with_inst)
  ultimately show "\<exists>p w'. vrrp_create_inst (Some vi) w = Inr ((VRRP_SUCCESS, Some p), w') \<and> table_inv w' \<and>
        lookup_key (vkey (vi_vr vi)) w' = Inr (Some p) \<and>
        (\<forall>k. full_key k \<longrightarrow> k \<noteq> vkey (vi_vr vi) \<longrightarrow> lookup_key k w' = lookup_key k w)"
    using w' d' oom' by (auto simp: table_inv_def)
qed

text \<open>
  C9: Within the invariant of the table, a well-formed request with a complete key (VRID, interface
  and family all given) leaves the invariant intact, keys unique included, and the same request
  sent again is refused with VRRP_EVREXIST and changes nothing.
\<close>

theorem create_inst_unique:
  assumes "table_inv w" and "full_request vi"
  shows "returns (vrrp_create_inst (Some vi) w) (\<lambda>(_, w'). table_inv w' \<and>
    vrrp_create_inst (Some vi) w' = Inr ((VRRP_EVREXIST, None), w'))"
  using ist.create_inv [OF assms] ist.create_again [OF assms]
  by (auto simp: returns_def)

lemma table_inv_demo_empty: "table_inv demo_empty"
  using table_demo_empty by (auto simp: table_inv_def)

lemma demo_vr_key [simp]: "vkey (demo_vr i) = (i, [101, 116, 104, 48], 2)"
  by (simp add: vkey_def)

lemma full_request_demo: "i \<noteq> 0 \<Longrightarrow> full_request (demo_req i)"
  by (simp add: full_request_def demo_req_ok) (simp add: demo_req_def full_key_def name_ok_def)

theorem create_inst_unique_witness:
  "returns (vrrp_create_inst (Some (demo_req 7)) demo_empty) (\<lambda>(_, w'). table_inv w' \<and>
    vrrp_create_inst (Some (demo_req 7)) w' = Inr ((VRRP_EVREXIST, None), w'))"
  by (rule create_inst_unique [OF table_inv_demo_empty full_request_demo]) simp

text \<open>
  C10: With a complete key a search finds exactly the instance with that key, and NULL when there
  is none; it never faults and always ends.
\<close>

theorem search_inst_complete:
  assumes t: "table w ps" and d: "distinct (map (\<lambda>p. vkey (vrec w p)) ps)" and k: "full_key (i, nm, af)"
  shows "(\<forall>p \<in> set ps. vkey (vrec w p) = (i, nm, af) \<longrightarrow> vrrp_search_inst i (Some nm) af w = Inr (Some p)) \<and>
    ((i, nm, af) \<notin> (\<lambda>p. vkey (vrec w p)) ` set ps \<longrightarrow> vrrp_search_inst i (Some nm) af w = Inr None)"
  using lookup_key_eq [OF t k] find_distinct [OF d, of "(i, nm, af)"] find_None [of "\<lambda>p. vkey (vrec w p)" "(i, nm, af)" ps]
  by (auto simp: lookup_key_def)

definition demo_one :: world where
  "demo_one = demo_world 0 [11 \<mapsto> demo_node 7 1 0 None None]
     [0 \<mapsto> demo_inst 0 None (Some 1) None, 1 \<mapsto> demo_inst 1 (Some 11) None (Some 0)] None"

lemma vrec_demo_one [simp]: "vrec demo_one (Suc 0) = demo_vr 7" "the_vr demo_one (Suc 0) = demo_node 7 1 0 None None"
  by (simp_all add: vrec_def the_vr_def the_inst_def demo_one_def)

lemma table_demo_one: "table demo_one [1]"
  by (simp add: table_def inst_list_def own_vr_def)
    (simp add: fresh_above_def wf_vr_def has_nul_def demo_ifname_def has_vr_def demo_one_def demo_vr_def)

lemma full_key_demo: "i \<noteq> 0 \<Longrightarrow> full_key (i, [101, 116, 104, 48], 2)"
  by (simp add: full_key_def name_ok_def)

theorem search_inst_complete_witness:
  "vrrp_search_inst 7 (Some [101, 116, 104, 48]) 2 demo_one = Inr (Some 1)"
  using search_inst_complete [OF table_demo_one _ full_key_demo [of 7]] by simp

text \<open>
  A request with VRID 0 searches with a wildcard. Once two instances share its interface the
  search reports none, so the request is granted every time it is sent: the table then holds
  several instances with one key.
\<close>

theorem create_vrid0_duplicates:
  assumes t: "table w ps" and oom: "no_oom w" and wf: "wf_request vi" "valid_request vi"
    and zero: "vr_id (vi_vr vi) = 0"
    and two: "distinct [p, q]" "p \<in> set ps" "q \<in> set ps"
    and match: "part_match 0 (Some (vr_ifname (vi_vr vi))) (vr_af (vi_vr vi)) (vrec w p)"
      "part_match 0 (Some (vr_ifname (vi_vr vi))) (vr_af (vi_vr vi)) (vrec w q)"
  shows "returns (bnd (vrrp_create_inst (Some vi) w) (\<lambda>(_, w'). vrrp_create_inst (Some vi) w'))
    (\<lambda>((r, _), w''). r = VRRP_SUCCESS \<and> (\<exists>qs. table w'' qs \<and> \<not> distinct (map (\<lambda>p. vkey (vrec w'' p)) qs)))"
proof -
  have none: "the_only (filter P xs) = None" if "p \<in> set xs" "q \<in> set xs" "P p" "P q" for P :: "nat \<Rightarrow> bool" and xs
  proof -
    have "filter P xs \<noteq> [x]" for x
    proof
      assume "filter P xs = [x]"
      then have "set (filter P xs) = {x}" by simp
      moreover have "p \<in> set (filter P xs)" "q \<in> set (filter P xs)" using that by simp_all
      ultimately show False using two(1) by auto
    qed
    then show ?thesis by (auto simp: the_only_def split: list.split)
  qed
  have free: "request_free vi u xs" if "p \<in> set xs" "q \<in> set xs" "vrec u p = vrec w p" "vrec u q = vrec w q" for u xs
    using that match by (simp add: request_free_def search_spec_def zero none)
  obtain w1 where w1: "vrrp_create_inst (Some vi) w = Inr ((VRRP_SUCCESS, Some (brk w)), w1)"
    "table w1 (with_inst vi w ps)" "l_frame (allocated vi w) w1" "the_vr w1 (brk w) = new_router vi w"
    "\<forall>p \<in> set ps. the_vr w1 p = the_vr w p"
    using create_inst_ok [OF t oom wf free] two by auto
  have oom1: "no_oom w1" using oom w1(3) by (auto simp: l_frame_def allocated_def)
  have "request_free vi w1 (with_inst vi w ps)"
    by (rule free) (use two w1(5) in \<open>auto simp: set_with_inst vrec_def\<close>)
  then obtain w2 where w2: "vrrp_create_inst (Some vi) w1 = Inr ((VRRP_SUCCESS, Some (brk w1)), w2)"
    "table w2 (with_inst vi w1 (with_inst vi w ps))" "the_vr w2 (brk w1) = new_router vi w1"
    "\<forall>p \<in> set (with_inst vi w ps). the_vr w2 p = the_vr w1 p"
    using create_inst_ok [OF w1(2) oom1 wf] by auto
  have in2: "brk w \<in> set (with_inst vi w ps)" by (simp add: set_with_inst)
  have "vkey (vrec w2 (brk w)) = vkey (vrec w2 (brk w1))"
    using w2(3,4) w1(4) in2 by (simp add: vrec_def new_router_def kept_vr_def vkey_def)
  moreover have "brk w \<noteq> brk w1" using fresh_not_in [OF w1(2)] in2 by auto
  ultimately have "\<not> distinct (map (\<lambda>p. vkey (vrec w2 p)) (with_inst vi w1 (with_inst vi w ps)))"
    using in2 by (auto simp: distinct_map inj_on_def set_with_inst)
  then show ?thesis using w1(1) w2(1,2) by auto
qed


definition demo_two :: world where
  "demo_two = demo_world 0 [11 \<mapsto> demo_node 7 1 0 None None, 12 \<mapsto> demo_node 8 2 0 None None]
     [0 \<mapsto> demo_inst 0 None (Some 1) None, 1 \<mapsto> demo_inst 1 (Some 11) (Some 2) (Some 0),
      2 \<mapsto> demo_inst 1 (Some 12) None (Some 1)] None"

lemma vrec_demo_two [simp]: "vrec demo_two 1 = demo_vr 7" "vrec demo_two 2 = demo_vr 8"
  "the_vr demo_two 1 = demo_node 7 1 0 None None" "the_vr demo_two 2 = demo_node 8 2 0 None None"
  by (simp_all add: vrec_def the_vr_def the_inst_def demo_two_def)

lemma wf_demo_vr [simp]: "wf_vr (demo_vr i)"
  by (simp add: wf_vr_def has_nul_def) (simp add: demo_ifname_def)

lemma table_demo_two: "table demo_two [1, 2]"
proof -
  have "inst_list demo_two [1, 2]" by (simp add: inst_list_def has_vr_def demo_two_def)
  moreover have "fresh_above demo_two" by (auto simp: fresh_above_def demo_two_def)
  ultimately show ?thesis by (simp add: table_def own_vr_def del: One_nat_def)
qed

theorem create_vrid0_duplicates_witness:
  "returns (bnd (vrrp_create_inst (Some (demo_req 0)) demo_two) (\<lambda>(_, w'). vrrp_create_inst (Some (demo_req 0)) w'))
    (\<lambda>((r, _), w''). r = VRRP_SUCCESS \<and> (\<exists>qs. table w'' qs \<and> \<not> distinct (map (\<lambda>p. vkey (vrec w'' p)) qs)))"
proof (rule create_vrid0_duplicates [OF table_demo_two _ demo_req_ok])
  show "no_oom demo_two" by (simp add: demo_two_def)
  show "distinct [1 :: nat, 2]" by simp
qed (simp_all add: part_match_def no_name_def demo_req_def del: One_nat_def)

section \<open>The queue by name, and the attributes\<close>

text \<open>
  \<open>vrrp_rmqueue\<close> does not find the only router on the queue: it takes two NULL links to mean
  that a router is not queued. It answers -1 and the router stays on the queue.
\<close>

theorem rmqueue_lone_missed:
  assumes "inst_list w ps" and "queue w [a]" and "queue_args_ok i af"
    and "search_spec i ifname af w ps = Some p" and "ds_vr (the_inst w p) = Some a"
  shows "vrrp_rmqueue i ifname af w = Inr (-1, w)"
  using assms by (auto simp: vrrp_rmqueue_def search_vr_eq queue_def)

lemma demo_one_queue: "demo_one\<lparr>adv_q := Some 11\<rparr> = demo_world 0 [11 \<mapsto> demo_node 7 1 0 None None]
     [0 \<mapsto> demo_inst 0 None (Some 1) None, 1 \<mapsto> demo_inst 1 (Some 11) None (Some 0)] (Some 11)"
  by (simp add: demo_one_def demo_world_def)

theorem rmqueue_lone_missed_witness:
  "vrrp_rmqueue 7 None 2 (demo_one\<lparr>adv_q := Some 11\<rparr>) = Inr (-1, demo_one\<lparr>adv_q := Some 11\<rparr>)"
  unfolding demo_one_queue
  by (rule rmqueue_lone_missed [where ps = "[1]" and a = 11 and p = 1])
    (auto simp: inst_list_def has_vr_def queue_def queue_args_ok_def search_spec_def the_only_def
      part_match_def no_name_def vrec_def the_vr_def the_inst_def)

text \<open>The attributes after a request to change them: -1 leaves one alone.\<close>

definition new_attr :: "cint \<Rightarrow> cint \<Rightarrow> cint \<Rightarrow> cint \<Rightarrow> vrrp_attr \<Rightarrow> vrrp_attr" where
  "new_attr pr dl pree acpt a =
     \<lparr>pri = if pr = -1 then pri a else ucast pr, delay = if dl = -1 then delay a else dl,
      pree_mode = if pree = -1 then pree_mode a else pree, accept_mode = if acpt = -1 then accept_mode a else acpt\<rparr>"

lemma inst_vstore_eq:
  "ds_heap w p = Some d \<Longrightarrow> ds_vr d = Some a \<Longrightarrow> vr_heap w a = Some v \<Longrightarrow>
   inst_vstore (Some p) f w = Inr (w\<lparr>vr_heap := (vr_heap w)(a := Some (f v))\<rparr>)"
  by (simp add: inst_vstore_def)

text \<open>A change of attributes is invisible to the searches.\<close>

lemma search_attr:
  assumes il: "inst_list w ps" and a: "vr_heap w a = Some v" and same: "vr v' = vr v"
  shows "inst_list (w\<lparr>vr_heap := (vr_heap w)(a := Some v')\<rparr>) ps"
    and "search_spec i ifname af (w\<lparr>vr_heap := (vr_heap w)(a := Some v')\<rparr>) ps = search_spec i ifname af w ps"
proof -
  let ?w = "w\<lparr>vr_heap := (vr_heap w)(a := Some v')\<rparr>"
  have "has_vr ?w p \<and> vrec ?w p = vrec w p" if "has_vr w p" for p
  proof -
    from that obtain d b u where "ds_heap w p = Some d" "ds_vr d = Some b" "vr_heap w b = Some u"
      by (auto simp: has_vr_def)
    then show ?thesis
      using a same by (cases "b = a") (auto simp: has_vr_def vrec_def the_vr_def the_inst_def)
  qed
  then have "has_vr ?w p \<and> vrec ?w p = vrec w p" if "p \<in> set ps" for p
    using that il by (auto simp: inst_list_def)
  then show "inst_list ?w ps" "search_spec i ifname af ?w ps = search_spec i ifname af w ps"
    using il by (auto simp: inst_list_def search_spec_def cong: find_cong filter_cong)
qed

lemma set_delay_idle:
  assumes il: "inst_list w ps" and s: "search_spec i ifname af w ps = Some p"
    and p: "ds_heap w p = Some d" "ds_vr d = Some a" "vr_heap w a = Some v"
    and links: "qnext v = None" "qprev v = None" and lock: "\<not> adv_q_lock w"
  shows "set_delay (Some p) i ifname af dl w =
    Inr (w\<lparr>vr_heap := (vr_heap w)(a := Some (v\<lparr>attr := (attr v)\<lparr>delay := dl\<rparr>\<rparr>))\<rparr>)"
proof -
  let ?v = "v\<lparr>attr := (attr v)\<lparr>delay := dl\<rparr>\<rparr>"
  let ?w = "w\<lparr>vr_heap := (vr_heap w)(a := Some ?v)\<rparr>"
  note sa = search_attr [OF il p(3), of ?v]
  have il': "inst_list (?w\<lparr>adv_q_lock := True\<rparr>) ps"
    using sa(1) by (simp add: inst_list_def has_vr_def)
  have "search_spec i ifname af (?w\<lparr>adv_q_lock := True\<rparr>) ps = search_spec i ifname af ?w ps"
    by (simp add: search_spec_def vrec_def the_vr_def the_inst_def)
  then have "vrrp_rmqueue i ifname af (?w\<lparr>adv_q_lock := True\<rparr>) =
      Inr (if queue_args_ok i af then -1 else EINVAL, ?w\<lparr>adv_q_lock := True\<rparr>)"
    using s sa(2) p links by (simp add: vrrp_rmqueue_def search_vr_eq [OF il'] the_inst_def)
  then show ?thesis
    using p lock by (simp add: set_delay_def inst_vstore_eq unlock_q_def)
qed

text \<open>
  C13: Changing the attributes of an instance whose router is alone on the queue or not queued:
  exactly the attributes that are not -1 change (the priority modulo 256). The advertisement
  timer of such a router is not re-armed with the new interval, although the code means to. (A router
  that is linked to itself is found, taken off the queue and put back, which does set the timer.)
\<close>

theorem set_inst_prop_spec:
  assumes il: "inst_list w ps" and s: "search_spec i ifname af w ps = Some p"
    and p: "ds_heap w p = Some d" "ds_vr d = Some a" "vr_heap w a = Some v"
    and links: "qnext v = None" "qprev v = None" and lock: "\<not> adv_q_lock w"
    and args: "flag_arg pree" "flag_arg acpt"
  shows "vrrp_set_inst_prop i ifname af pr dl pree acpt w =
    Inr (VRRP_SUCCESS, w\<lparr>vr_heap := (vr_heap w)(a := Some (v\<lparr>attr := new_attr pr dl pree acpt (attr v)\<rparr>))\<rparr>)"
proof -
  define W where "W x = w\<lparr>vr_heap := (vr_heap w)(a := Some x)\<rparr>" for x
  have W0: "w = W v" using p by (simp add: W_def fun_upd_idem)
  have st: "inst_vstore (Some p) f (W x) = Inr (W (f x))" for f x
    using p by (simp add: W_def inst_vstore_eq)
  have dly: "set_delay (Some p) i ifname af dl (W x) = Inr (W (x\<lparr>attr := (attr x)\<lparr>delay := dl\<rparr>\<rparr>))"
    if "vr x = vr v" "qnext x = None" "qprev x = None" for x
    using set_delay_idle [of "W x" ps i ifname af p d a x dl] search_attr [OF il p(3) that(1)] that s p lock
    by (simp add: W_def)
  have "vrrp_search_inst i ifname af (W v) = Inr (Some p)"
    using search_inst_eq [OF il] s by (simp flip: W0)
  then have "vrrp_set_inst_prop i ifname af pr dl pree acpt (W v) =
      Inr (VRRP_SUCCESS, W (v\<lparr>attr := new_attr pr dl pree acpt (attr v)\<rparr>))"
    using args links
    by (cases v, cases "attr v") (auto simp: vrrp_set_inst_prop_def st dly flag_arg_def new_attr_def)
  then show ?thesis unfolding W0 [symmetric] by (simp add: W_def)
qed

theorem set_inst_prop_spec_witness:
  "returns (vrrp_set_inst_prop 7 None 2 300 5 (-1) 0 demo_one)
     (\<lambda>(r, w'). r = 0 \<and> attr (the_vr w' 1) = \<lparr>pri = 44, delay = 5, pree_mode = 1, accept_mode = 0\<rparr>)"
proof -
  have w: "ds_heap demo_one 1 = Some (demo_inst 1 (Some 11) None (Some 0))"
    "vr_heap demo_one 11 = Some (demo_node 7 1 0 None None)" "\<not> adv_q_lock demo_one"
    by (simp_all add: demo_one_def)
  have s: "search_spec 7 None 2 demo_one [1] = Some 1"
    by (simp add: search_spec_def the_only_def part_match_def no_name_def)
  have "inst_list demo_one [1]" using table_demo_one by (simp add: table_def)
  from set_inst_prop_spec [OF this s w(1) _ w(2) _ _ w(3), of "-1" 0 300 5] w show ?thesis
    by (simp add: flag_arg_def new_attr_def the_vr_def the_inst_def)
qed

section \<open>Walking the table\<close>

text \<open>The key a client asks with next: that of the instance after position \<open>k\<close>, or all wildcards.\<close>

definition next_key :: "world \<Rightarrow> nat list \<Rightarrow> nat \<Rightarrow> u8 \<times> u8 list \<times> cint" where
  "next_key w ps k = (if Suc k < length ps then vkey (vrec w (ps ! Suc k)) else (0, [], 0))"

lemma chain_nth:
  "chain nxt h c xs \<Longrightarrow> k < length xs \<Longrightarrow>
   \<exists>n. h (xs ! k) = Some n \<and> nxt n = (if Suc k < length xs then Some (xs ! Suc k) else None)"
proof (induction xs arbitrary: c k)
  case (Cons a as)
  then obtain n where n: "h a = Some n" "chain nxt h (nxt n) as" by auto
  show ?case
  proof (cases k)
    case 0
    with n show ?thesis by (cases as) auto
  next
    case (Suc j)
    with Cons.IH [OF n(2), of j] Cons.prems(2) show ?thesis by auto
  qed
qed simp

lemma full_key_id: "full_key (i, nm, af) \<Longrightarrow> i \<noteq> 0"
  by (simp add: full_key_def)

text \<open>Which instance \<open>vrrp_get_instx\<close> picks.\<close>

lemma get_instx_pick:
  assumes t: "table w ps" and d: "distinct (map (\<lambda>p. vkey (vrec w p)) ps)"
    and full: "\<And>p. p \<in> set ps \<Longrightarrow> full_key (vkey (vrec w p))" and k: "k < length ps"
    and asked: "(i, cstr nm, af) = vkey (vrec w (ps ! k)) \<or> (k = 0 \<and> (i, cstr nm, af) = (0, [], 0))"
  shows "(if i = 0 \<and> af = AF_UNSPEC \<and> no_name (Some nm)
          then bnd (dload inst_runtime_list w) (\<lambda>l. Inr (ds_next l))
          else vrrp_search_inst i (Some nm) af w) = Inr (Some (ps ! k))"
  using asked
proof
  assume key: "(i, cstr nm, af) = vkey (vrec w (ps ! k))"
  have mem: "ps ! k \<in> set ps" using k by simp
  have fk: "full_key (i, cstr nm, af)" using full [OF mem] key by simp
  then have fi: "i \<noteq> 0" by (rule full_key_id)
  have "lookup_key (i, cstr nm, af) w = Inr (Some (ps ! k))"
    using lookup_key_eq [OF t fk] find_distinct [OF d] key mem by simp
  moreover have "search_spec i (Some (cstr nm)) af w ps = search_spec i (Some nm) af w ps"
    by (simp only: search_spec_def no_name_def full_match_def part_match_def cstr_idem
        strncmp_eq_cstr_left option.case option.sel)
  moreover have il: "inst_list w ps" using t by (simp add: table_def)
  ultimately show ?thesis
    using fi by (simp add: lookup_key_def search_inst_eq [OF il])
next
  assume "k = 0 \<and> (i, cstr nm, af) = (0, [], 0)"
  moreover obtain l where "ds_heap w 0 = Some l" "chain ds_next (ds_heap w) (ds_next l) ps"
    using t by (auto simp: table_def elim!: inst_listE)
  ultimately show ?thesis
    using k by (cases ps) (auto simp: inst_runtime_list_def no_name_def)
qed



end
