(* ===== verification/StateMachine.thy ===== *)
theory StateMachine
  imports InstTable "HOL-Library.Sublist"
begin

text \<open>
  The state changes of an instance (state.c). Each walks the instance's routers, works on the
  advertisement queue, sets the state and lets \<open>vrrp_state_execution\<close> start or stop the router
  process.
\<close>

section \<open>Starting and stopping the router process\<close>

text \<open>\<open>ether_ntoa\<close> of the C library: hexadecimal bytes without leading zeros, separated by colons.\<close>

definition hex_digit :: "u8 \<Rightarrow> u8" where
  "hex_digit d = (if d < 10 then 48 + d else 87 + d)"

definition hex_byte :: "u8 \<Rightarrow> u8 list" where
  "hex_byte b = (if b < 16 then [hex_digit b] else [hex_digit (drop_bit 4 b), hex_digit (b AND 15)])"

fun ether_ntoa :: "u8 list \<Rightarrow> u8 list" where
  "ether_ntoa [] = []"
| "ether_ntoa [b] = hex_byte b"
| "ether_ntoa (b # bs) = hex_byte b @ [58] @ ether_ntoa bs"

definition SIGINT :: nat where [simp]: "SIGINT = 2"

text \<open>
  \<open>vrrp_state_execution\<close>. A \<open>fork\<close> that answers 0 is the child, which executes the router with
  the interface name and the virtual MAC or exits with 127. For the two transitions the code
  does not mention it falls off its end.
\<close>

definition vrrp_state_execution :: "vrrp_state_trans_t \<Rightarrow> ptr \<Rightarrow> world \<Rightarrow> (u32 \<times> world) res" where
  "vrrp_state_execution tr v w =
     bnd (inst_vr v w) (\<lambda>r.
     let ifname = cstr (vr_ifname (vr r)) in
     bnd (scratch w) (\<lambda>w.
     bnd (vrrp_vr_vmac (vr_id (vr r)) w) (\<lambda>(vmac, w).
     if tr = INIT_TO_MAST \<or> tr = BACK_TO_MAST then
       (let p = fork_ret (os w) (trace w); w = emit (EvFork ifname (ether_ntoa vmac)) w in
        if p = -1 then Inr (-1, w)
        else if p = 0 then Inl (ProcessExit 127)
        else bnd (dstore v (\<lambda>d. d\<lparr>pid := p\<rparr>) w) (\<lambda>w. Inr (0, w)))
     else if tr = MAST_TO_BACK \<or> tr = MAST_TO_INIT then
       bnd (vrrp_send_adv v 0 w) (\<lambda>(_, w).
       bnd (dload v w) (\<lambda>d.
       let (ret, w) = kill (pid d) SIGINT w in
       Inr (if ret = 0 then VRRP_SUCCESS else -1, w)))
     else Inr (stack_junk (os w) 0 (trace w), w))))"

definition vrrp_master :: "ptr \<Rightarrow> u32" where
  "vrrp_master vri = VRRP_SUCCESS"

definition vrrp_unmaster :: "ptr \<Rightarrow> u32" where
  "vrrp_unmaster vri = VRRP_SUCCESS"

text \<open>The first VRID whose \<open>flag\<close> is 1, or 0.\<close>

definition any_master_up :: "world \<Rightarrow> cint" where
  "any_master_up w =
     (case List.find (\<lambda>i. flag w (of_nat i) = 1) [1..<256] of None \<Rightarrow> 0 | Some i \<Rightarrow> of_nat i)"

section \<open>The transitions\<close>

text \<open>
  The loop \<open>for (vri = v->vr; vri != NULL; vri = vri->next)\<close>: \<open>f\<close> is the body, \<open>x\<close> the local
  variables it changes.
\<close>

definition for_vrs :: "(ptr \<Rightarrow> 'a \<Rightarrow> world \<Rightarrow> ('a \<times> world) res) \<Rightarrow> ptr \<Rightarrow> 'a \<Rightarrow> world \<Rightarrow> ('a \<times> world) res" where
  "for_vrs f p x w = loop (\<lambda>(vri, x, w).
     if vri = None then Inr (Inr (x, w))
     else bnd (f vri x w) (\<lambda>(x, w). bnd (vload vri w) (\<lambda>r. Inr (Inl (vr_next r, x, w))))) (p, x, w)"

text \<open>\<open>vri->timeout = VRRP_SEC2USEC(v->vrrp_delay)\<close>\<close>

definition set_adv_timer :: "ptr \<Rightarrow> ptr \<Rightarrow> world \<Rightarrow> world res" where
  "set_adv_timer v vri w =
     bnd (inst_vr v w) (\<lambda>r. vstore vri (\<lambda>e. e\<lparr>timeout := VRRP_SEC2USEC (delay (attr r))\<rparr>) w)"

definition locked :: "(world \<Rightarrow> (u32 \<times> world) res) \<Rightarrow> world \<Rightarrow> world res" where
  "locked f w = bnd (lock_q w) (\<lambda>w. bnd (f w) (\<lambda>(_, w). Inr (unlock_q w)))"

text \<open>Taking a router off the queue and putting it back with a fresh advertisement timer.\<close>

definition requeue :: "ptr \<Rightarrow> ptr \<Rightarrow> world \<Rightarrow> (u32 \<times> world) res" where
  "requeue v vri w =
     bnd (vrrp_rmqueue_impl vri w) (\<lambda>(_, w).
     bnd (set_adv_timer v vri w) (\<lambda>w.
     vrrp_enqueue_impl vri w))"

definition set_state :: "ptr \<Rightarrow> u8 \<Rightarrow> world \<Rightarrow> world res" where
  "set_state v s w = dstore v (\<lambda>d. d\<lparr>state := s\<rparr>) w"

text \<open>The local \<open>r\<close> and \<open>ret\<close> of \<open>vrrp_state_i2m\<close> start with what the stack held.\<close>

definition vrrp_state_i2m :: "ptr \<Rightarrow> world \<Rightarrow> (u32 \<times> world) res" where
  "vrrp_state_i2m v w =
     bnd (dload v w) (\<lambda>d.
     bnd (for_vrs (\<lambda>vri (r, ret) w.
            let r = vrrp_master vri in
            if r \<noteq> VRRP_SUCCESS then Inr ((r, r), w)
            else
              bnd (set_adv_timer v vri w) (\<lambda>w.
              bnd (locked (vrrp_enqueue_impl vri) w) (\<lambda>w. Inr ((r, ret), w))))
          (ds_vr d) (stack_junk (os w) 1 (trace w), stack_junk (os w) 2 (trace w)) w) (\<lambda>((r, ret), w).
     if r = VRRP_SUCCESS then
       bnd (set_state v VRRP_STATE_MAST w) (\<lambda>w.
       bnd (vrrp_state_execution INIT_TO_MAST v w) (\<lambda>(_, w). Inr (ret, w)))
     else Inr (ret, w)))"

definition vrrp_state_b2m :: "ptr \<Rightarrow> world \<Rightarrow> (u32 \<times> world) res" where
  "vrrp_state_b2m v w =
     bnd (dload v w) (\<lambda>d.
     bnd (for_vrs (\<lambda>vri ret w.
            let r = vrrp_master vri in
            if r \<noteq> VRRP_SUCCESS then Inr (r, w)
            else bnd (requeue v vri w) (\<lambda>(_, w). Inr (ret, w)))
          (ds_vr d) VRRP_SUCCESS w) (\<lambda>(ret, w).
     if ret = VRRP_SUCCESS then
       bnd (set_state v VRRP_STATE_MAST w) (\<lambda>w.
       bnd (vrrp_state_execution BACK_TO_MAST v w) (\<lambda>(_, w).
       bnd (inst_vr v w) (\<lambda>r. Inr (ret, emit (EvAlarm (delay (attr r))) w))))
     else Inr (ret, w)))"

text \<open>The end of \<open>vrrp_state_i2b\<close> and \<open>vrrp_state_m2b\<close>: wait one interval for a master.\<close>

definition wait_for_master :: "ptr \<Rightarrow> world \<Rightarrow> world res" where
  "wait_for_master v w =
     bnd (inst_vr v w) (\<lambda>r.
     let w = emit (EvSleep (delay (attr r))) w in
     if any_master_up w = 0 then map_sum id snd (vrrp_state_b2m v w) else Inr w)"

definition vrrp_state_i2b :: "ptr \<Rightarrow> world \<Rightarrow> (u32 \<times> world) res" where
  "vrrp_state_i2b v w =
     bnd (dload v w) (\<lambda>d.
     bnd (for_vrs (\<lambda>vri u w.
            bnd (set_adv_timer v vri w) (\<lambda>w.
            bnd (locked (vrrp_enqueue_impl vri) w) (\<lambda>w. Inr (u, w))))
          (ds_vr d) () w) (\<lambda>(_, w).
     bnd (set_state v VRRP_STATE_BACK w) (\<lambda>w.
     bnd (wait_for_master v w) (\<lambda>w. Inr (VRRP_SUCCESS, w)))))"

definition vrrp_state_m2i :: "ptr \<Rightarrow> world \<Rightarrow> (u32 \<times> world) res" where
  "vrrp_state_m2i v w =
     bnd (dload v w) (\<lambda>d.
     bnd (for_vrs (\<lambda>vri ret w.
            let r = vrrp_unmaster vri in
            if r \<noteq> VRRP_SUCCESS then Inr (r, w)
            else bnd (locked (vrrp_rmqueue_impl vri) w) (\<lambda>w. Inr (ret, w)))
          (ds_vr d) VRRP_SUCCESS w) (\<lambda>(ret, w).
     if ret = VRRP_SUCCESS then
       bnd (set_state v VRRP_STATE_INIT w) (\<lambda>w.
       bnd (vrrp_state_execution MAST_TO_INIT v w) (\<lambda>(_, w). Inr (ret, w)))
     else Inr (ret, w)))"

definition vrrp_state_b2i :: "ptr \<Rightarrow> world \<Rightarrow> (u32 \<times> world) res" where
  "vrrp_state_b2i v w =
     bnd (dload v w) (\<lambda>d.
     bnd (for_vrs (\<lambda>vri u w.
            bnd (set_adv_timer v vri w) (\<lambda>w.
            bnd (locked (vrrp_rmqueue_impl vri) w) (\<lambda>w. Inr (u, w))))
          (ds_vr d) () w) (\<lambda>(_, w).
     bnd (set_state v VRRP_STATE_INIT w) (\<lambda>w. Inr (VRRP_SUCCESS, w))))"

definition vrrp_state_m2b :: "ptr \<Rightarrow> world \<Rightarrow> (u32 \<times> world) res" where
  "vrrp_state_m2b v w =
     bnd (dload v w) (\<lambda>d.
     bnd (for_vrs (\<lambda>vri ret w.
            let r = vrrp_unmaster vri in
            if r \<noteq> VRRP_SUCCESS then Inr (r, w)
            else bnd (locked (requeue v vri) w) (\<lambda>w. Inr (ret, w)))
          (ds_vr d) VRRP_SUCCESS w) (\<lambda>(ret, w).
     bnd (if ret = VRRP_SUCCESS then
            bnd (set_state v VRRP_STATE_BACK w) (\<lambda>w.
            map_sum id snd (vrrp_state_execution MAST_TO_BACK v w))
          else Inr w) (\<lambda>w.
     bnd (wait_for_master v w) (\<lambda>w. Inr (ret, w)))))"

section \<open>What the transitions leave alone\<close>

text \<open>
  A transition of the instance \<open>p\<close> writes the state and process of \<open>p\<close>, the queue, and nothing else
  but what it allocates and asks of the kernel.
\<close>

definition st_core :: "vrrpd_ds \<Rightarrow> vrrpd_ds" where
  "st_core d = d\<lparr>state := 0, pid := 0\<rparr>"

definition st_frame :: "ptr \<Rightarrow> world \<Rightarrow> world \<Rightarrow> bool" where
  "st_frame p w w' \<longleftrightarrow>
     (\<forall>b. map_option vr_core (vr_heap w' b) = map_option vr_core (vr_heap w b)) \<and>
     (\<forall>b. map_option st_core (ds_heap w' b) = map_option st_core (ds_heap w b)) \<and>
     (\<forall>b. Some b \<noteq> p \<longrightarrow> ds_heap w' b = ds_heap w b) \<and>
     brk w \<le> brk w' \<and> adv_q_lock w' = adv_q_lock w \<and> flag w' = flag w \<and>
     netfds w' = netfds w \<and> pollfds w' = pollfds w \<and> poll_intfs w' = poll_intfs w \<and>
     poll_afs w' = poll_afs w \<and> os w' = os w"

lemma st_core_upd [simp]:
  "st_core (d\<lparr>state := s\<rparr>) = st_core d" "st_core (d\<lparr>pid := n\<rparr>) = st_core d"
  by (simp_all add: st_core_def)

lemma st_core_fields:
  assumes "st_core d = st_core d'"
  shows "ds_vr d = ds_vr d'" "active d = active d'" "ds_next d = ds_next d'" "ds_prev d = ds_prev d'"
  using assms by (cases d; cases d'; simp add: st_core_def)+

lemma st_frame_refl [simp]: "st_frame p w w"
  by (simp add: st_frame_def)

lemma st_frame_trans: "st_frame p w w' \<Longrightarrow> st_frame p w' w'' \<Longrightarrow> st_frame p w w''"
  by (auto simp: st_frame_def)

lemma q_frame_st: "q_frame w w' \<Longrightarrow> st_frame p w w'"
  by (auto simp: q_frame_def st_frame_def)

lemma st_frame_emit: "st_frame p w0 w \<Longrightarrow> st_frame p w0 (emit e w)"
  by (simp add: st_frame_def)

lemma st_frame_brk: "st_frame p w0 w \<Longrightarrow> st_frame p w0 (w\<lparr>brk := Suc (brk w)\<rparr>)"
  by (simp add: st_frame_def)

text \<open>
  One rule for each operation, from a state \<open>w\<close> that the frame relates to the initial state \<open>w0\<close>;
  the rules of sequencing and of the loop let the transitions be taken apart by \<open>intro\<close>.
\<close>

abbreviation framed :: "ptr \<Rightarrow> world \<Rightarrow> ('a \<times> world) res \<Rightarrow> bool" where
  "framed p w0 r \<equiv> ensures r (\<lambda>(_, w'). st_frame p w0 w')"

lemma framed_load: "(\<And>a. framed p w0 (f a)) \<Longrightarrow> framed p w0 (bnd (r :: 'b res) f)"
  by (cases r) auto

lemma framed_bnd: "framed p w0 r \<Longrightarrow> (\<And>a w. st_frame p w0 w \<Longrightarrow> framed p w0 (f (a, w))) \<Longrightarrow> framed p w0 (bnd r f)"
  by (erule ensures_bndI) auto

lemma framed_bndw: "ensures r (st_frame p w0) \<Longrightarrow> (\<And>w. st_frame p w0 w \<Longrightarrow> framed p w0 (f w)) \<Longrightarrow> framed p w0 (bnd r f)"
  by (erule ensures_bndI) auto

lemma framed_Inr: "st_frame p w0 w \<Longrightarrow> framed p w0 (Inr (x, w))"
  by simp

lemma st_frame_vr:
  "st_frame p w0 w \<Longrightarrow> vr_heap w a = Some v \<Longrightarrow> vr_core v' = vr_core v \<Longrightarrow>
   st_frame p w0 (w\<lparr>vr_heap := (vr_heap w)(a := Some v')\<rparr>)"
  unfolding st_frame_def by simp (metis option.map(2))

lemma st_frame_ds:
  "st_frame p w0 w \<Longrightarrow> p = Some a \<Longrightarrow> ds_heap w a = Some d \<Longrightarrow> st_core d' = st_core d \<Longrightarrow>
   st_frame p w0 (w\<lparr>ds_heap := (ds_heap w)(a := Some d')\<rparr>)"
  unfolding st_frame_def by simp (metis option.map(2))

lemma framed_q:
  assumes "st_frame p w0 w" and "ensures r (\<lambda>(x :: u32, w'). x = 0 \<and> q_frame w w')"
  shows "framed p w0 r"
  by (rule ensures_mono [OF assms(2)]) (auto intro: st_frame_trans [OF assms(1)] q_frame_st)

lemma framed_rmqueue: "st_frame p w0 w \<Longrightarrow> framed p w0 (vrrp_rmqueue_impl e w)"
  by (rule framed_q [OF _ rmqueue_impl_frame])

lemma framed_enqueue: "st_frame p w0 w \<Longrightarrow> framed p w0 (vrrp_enqueue_impl e w)"
  by (rule framed_q [OF _ enqueue_impl_frame])

lemma framed_timer: "st_frame p w0 w \<Longrightarrow> ensures (set_adv_timer v e w) (st_frame p w0)"
  by (auto simp: set_adv_timer_def ensures_def bnd_Inr_iff intro: st_frame_vr dest!: vstore_InrD)

lemma framed_requeue: "st_frame p w0 w \<Longrightarrow> framed p w0 (requeue v e w)"
  unfolding requeue_def
  by (rule framed_bnd [OF framed_rmqueue], assumption, simp, rule framed_bndw [OF framed_timer], assumption,
      rule framed_enqueue)

lemma framed_locked:
  assumes "st_frame p w0 w" and "\<And>u. framed p u (f u)"
  shows "ensures (locked f w) (st_frame p w0)"
proof -
  have "ensures (f (w\<lparr>adv_q_lock := True\<rparr>)) (\<lambda>(_, w'). st_frame p (w\<lparr>adv_q_lock := True\<rparr>) w')"
    by (rule assms(2))
  then have "ensures (f (w\<lparr>adv_q_lock := True\<rparr>)) (\<lambda>(_, w'). adv_q_lock w = False \<longrightarrow> st_frame p w (unlock_q w'))"
    by (rule ensures_mono) (auto simp: st_frame_def unlock_q_def)
  then show ?thesis
    unfolding locked_def
    by (auto simp: wp elim!: ensures_mono intro: st_frame_trans [OF assms(1)])
qed

lemma framed_state: "st_frame p w0 w \<Longrightarrow> ensures (set_state p s w) (st_frame p w0)"
  by (auto simp: set_state_def ensures_def intro: st_frame_ds dest!: dstore_InrD)

lemma framed_scratch: "st_frame p w0 w \<Longrightarrow> ensures (scratch w) (st_frame p w0)"
  by (simp add: wp st_frame_brk)

lemma framed_vmac: "st_frame p w0 w \<Longrightarrow> framed p w0 (vrrp_vr_vmac i w)"
  by (simp add: vrrp_vr_vmac_def wp st_frame_brk)

lemma framed_ether: "st_frame p w0 w \<Longrightarrow> framed p w0 (CreateEthernetHeader r b pr w)"
  unfolding CreateEthernetHeader_def Let_def
  by (rule framed_bnd [OF framed_vmac]) simp_all

lemma framed_vrrp_header: "st_frame p w0 w \<Longrightarrow> framed p w0 (CreateVRRPHeader v off b pr w)"
  unfolding CreateVRRPHeader_def
  by ((rule framed_bndw [OF framed_scratch] framed_load framed_Inr | assumption)+)

lemma framed_build: "st_frame p w0 w \<Longrightarrow> framed p w0 (vrrp_build_pkt v b pr w)"
  unfolding vrrp_build_pkt_def Let_def
  by ((rule framed_bnd [OF framed_ether] framed_bndw [OF framed_scratch] framed_vrrp_header framed_load
      | assumption | simp only: prod.case)+)

lemma framed_send: "st_frame p w0 w \<Longrightarrow> framed p w0 (vrrp_send_adv v pr w)"
  unfolding vrrp_send_adv_def Let_def
  by ((rule framed_bnd [OF framed_build] framed_load | assumption | simp only: prod.case)+)
    (auto simp: SendVRRPPacket_def Let_def intro!: st_frame_emit)

lemma framed_pid: "st_frame p w0 w \<Longrightarrow> ensures (dstore p (pid_update f) w) (st_frame p w0)"
  by (auto simp: ensures_def st_core_def intro!: st_frame_ds dest!: dstore_InrD)

lemma framed_execution: "st_frame p w0 w \<Longrightarrow> framed p w0 (vrrp_state_execution tr p w)"
  unfolding vrrp_state_execution_def Let_def
proof ((rule framed_bnd [OF framed_vmac] framed_bndw [OF framed_scratch] framed_load
      | assumption | simp only: prod.case)+, goal_cases)
  case (1 r u a u')
  then have u': "st_frame p w0 u'" by blast
  have start: "framed p w0 (if n = -1 then Inr (-1, w') else if n = 0 then Inl (ProcessExit 127)
      else bnd (dstore p (pid_update (\<lambda>_. n)) w') (\<lambda>w. Inr (0 :: u32, w)))" if "st_frame p w0 w'" for n w'
    using that by (auto intro!: framed_bndw [OF framed_pid])
  have stop: "framed p w0 (bnd (vrrp_send_adv p 0 u') (\<lambda>(_, w). bnd (dload p w) (\<lambda>d.
      case kill (pid d) SIGINT w of (ret, w) \<Rightarrow> Inr (if ret = 0 then VRRP_SUCCESS else -1, w))))"
    by (rule framed_bnd [OF framed_send [OF u']], simp only: prod.case, rule framed_load)
      (simp add: kill_def st_frame_emit)
  show ?case using u' start [OF st_frame_emit [OF u']] stop by simp
qed

lemma ensures_load: "(\<And>a. ensures (f a) Q) \<Longrightarrow> ensures (bnd r f) Q"
  by (cases r) auto

lemma framed_loop:
  assumes "st_frame p w0 w" and "\<And>vri x w. st_frame p w0 w \<Longrightarrow> framed p w0 (f vri x w)"
  shows "framed p w0 (for_vrs f c x w)"
  unfolding for_vrs_def
proof (rule loop_ensures [where I = "\<lambda>(_, _, w). st_frame p w0 w"], simp add: assms(1), clarify, goal_cases)
  case (1 vri x w)
  then show ?case
    by (cases vri) (simp, simp, rule ensures_bndI [OF assms(2)], assumption, clarify, rule ensures_load, simp)
qed

lemmas framed_steps = framed_bnd [OF framed_loop] framed_bnd [OF framed_requeue] framed_bndw [OF framed_state]
  framed_bndw [OF framed_timer] framed_bndw [OF framed_locked] framed_bnd [OF framed_execution]
  framed_load framed_Inr st_frame_emit framed_requeue framed_enqueue framed_rmqueue st_frame_refl
  ensures_if [THEN iffD2] conjI impI

lemma framed_wait:
  assumes "framed p w0 r" shows "ensures (map_sum id snd r) (st_frame p w0)"
  using assms by (cases r) auto

text \<open>The transitions, taken apart by these rules.\<close>

lemma framed_b2m: "st_frame p w0 w \<Longrightarrow> framed p w0 (vrrp_state_b2m p w)"
  unfolding vrrp_state_b2m_def Let_def
  by ((rule framed_steps | assumption | simp only: prod.case)+)

lemma framed_master: "st_frame p w0 w \<Longrightarrow> ensures (wait_for_master p w) (st_frame p w0)"
  unfolding wait_for_master_def Let_def
  by (rule ensures_load, simp add: st_frame_emit, rule impI, rule framed_wait [OF framed_b2m], rule st_frame_emit)

lemma framed_i2m: "st_frame p w0 w \<Longrightarrow> framed p w0 (vrrp_state_i2m p w)"
  unfolding vrrp_state_i2m_def Let_def
  by ((rule framed_steps | assumption | simp only: prod.case split_beta fst_conv snd_conv)+)

lemma framed_i2b: "st_frame p w0 w \<Longrightarrow> framed p w0 (vrrp_state_i2b p w)"
  unfolding vrrp_state_i2b_def Let_def
  by ((rule framed_bndw [OF framed_master] framed_steps | assumption | simp only: prod.case)+)

lemma framed_m2i: "st_frame p w0 w \<Longrightarrow> framed p w0 (vrrp_state_m2i p w)"
  unfolding vrrp_state_m2i_def Let_def
  by ((rule framed_steps | assumption | simp only: prod.case)+)

lemma framed_b2i: "st_frame p w0 w \<Longrightarrow> framed p w0 (vrrp_state_b2i p w)"
  unfolding vrrp_state_b2i_def Let_def
  by ((rule framed_steps | assumption | simp only: prod.case)+)

lemma framed_m2b_down:
  "st_frame p w0 w \<Longrightarrow> ensures (bnd (set_state p s w) (\<lambda>w. map_sum id snd (vrrp_state_execution t p w))) (st_frame p w0)"
  by (rule ensures_bndI [OF framed_state], assumption, rule framed_wait [OF framed_execution])

lemma framed_if:
  "ensures (if c then r else s) (st_frame p w0) \<Longrightarrow> (\<And>w. st_frame p w0 w \<Longrightarrow> framed p w0 (f w)) \<Longrightarrow>
   framed p w0 (bnd (if c then r else s) f)"
  by (rule framed_bndw)

lemma framed_m2b: "st_frame p w0 w \<Longrightarrow> framed p w0 (vrrp_state_m2b p w)"
  unfolding vrrp_state_m2b_def Let_def
  by ((rule framed_bndw [OF framed_master] framed_m2b_down framed_bnd [OF framed_loop]
       framed_if framed_steps | assumption | simp only: prod.case ensures_simps)+)

lemmas framed_transitions = framed_i2m framed_i2b framed_m2i framed_b2i framed_m2b framed_b2m

section \<open>The table through the transitions\<close>

lemma st_frame_inst:
  assumes "st_frame p w w'" and "has_vr w b"
  shows "has_vr w' b" and "st_core (the_inst w' b) = st_core (the_inst w b)"
    and "vr_core (the_vr w' b) = vr_core (the_vr w b)" and "Some b \<noteq> p \<Longrightarrow> the_inst w' b = the_inst w b"
proof -
  from assms(2) obtain d a v where d: "ds_heap w b = Some d" "ds_vr d = Some a" "vr_heap w a = Some v"
    by (auto simp: has_vr_def)
  have "map_option st_core (ds_heap w' b) = map_option st_core (ds_heap w b)"
    and "map_option vr_core (vr_heap w' a) = map_option vr_core (vr_heap w a)"
    and other: "Some b \<noteq> p \<Longrightarrow> ds_heap w' b = ds_heap w b"
    using assms(1) by (auto simp: st_frame_def)
  then obtain d' v' where d': "ds_heap w' b = Some d'" "st_core d' = st_core d" "vr_heap w' a = Some v'" "vr_core v' = vr_core v"
    using d by auto
  with d st_core_fields(1) [OF d'(2)] show "has_vr w' b" "st_core (the_inst w' b) = st_core (the_inst w b)"
    "vr_core (the_vr w' b) = vr_core (the_vr w b)"
    by (auto simp: has_vr_def)
  show "the_inst w' b = the_inst w b" if "Some b \<noteq> p"
    using other [OF that] by (simp add: the_inst_def)
qed

lemma st_frame_table:
  assumes f: "st_frame p w w'" and t: "table w ps"
  shows "table w' ps"
proof -
  have links: "links ds_next ds_prev (ds_heap w') b = links ds_next ds_prev (ds_heap w) b" for b
  proof -
    have "map_option st_core (ds_heap w' b) = map_option st_core (ds_heap w b)"
      using f by (simp add: st_frame_def)
    then show ?thesis
      by (cases "ds_heap w b"; cases "ds_heap w' b") (auto simp: links_def dest: st_core_fields)
  qed
  have il: "inst_list w ps" using t by (simp add: table_def)
  have vrs: "has_vr w b" if "b \<in> set ps" for b using il that by (auto simp: inst_list_def)
  have core: "vr (the_vr w' b) = vr (the_vr w b)" "parent (the_vr w' b) = parent (the_vr w b)"
    "vr_next (the_vr w' b) = vr_next (the_vr w b)" if "b \<in> set ps" for b
    using vr_core_fields [OF st_frame_inst(3) [OF f vrs [OF that]]] by auto
  have "inst_list w' ps"
    using il st_frame_inst(1) [OF f vrs] dpath_cong [of "0 # ps" ds_next ds_prev "ds_heap w'" "ds_heap w", OF links]
    by (simp add: inst_list_def del: dpath.simps)
  moreover have "fresh_above w'"
    unfolding fresh_above_def
  proof (intro conjI allI impI)
    fix n assume n: "brk w' \<le> n"
    with f have "brk w \<le> n" by (auto simp: st_frame_def)
    then have "ds_heap w n = None" "vr_heap w n = None" using t by (auto simp: table_def fresh_above_def)
    moreover have "map_option st_core (ds_heap w' n) = map_option st_core (ds_heap w n)"
      "map_option vr_core (vr_heap w' n) = map_option vr_core (vr_heap w n)"
      using f by (auto simp: st_frame_def)
    ultimately show "ds_heap w' n = None" "vr_heap w' n = None" by auto
  qed (use f t in \<open>auto simp: st_frame_def table_def fresh_above_def\<close>)
  ultimately show ?thesis
    using t core by (auto simp: table_def own_vr_def vrec_def cong: map_cong)
qed

text \<open>
  C7: None of the six transitions of an instance \<open>p\<close> disturbs the table: if it returns, the same
  instances are listed in the same order with the same routers and attributes, the state and
  process of every other instance are as before, and the queue's mutex is as it was found.
\<close>

theorem transitions_keep_table:
  assumes "table w ps" and "f \<in> {vrrp_state_i2m, vrrp_state_i2b, vrrp_state_m2i, vrrp_state_b2i, vrrp_state_m2b, vrrp_state_b2m}"
  shows "ensures (f (Some p) w) (\<lambda>(r, w'). table w' ps \<and> adv_q_lock w' = adv_q_lock w \<and>
    (\<forall>b \<in> set ps. vrec w' b = vrec w b \<and> attr (the_vr w' b) = attr (the_vr w b) \<and>
       (b \<noteq> p \<longrightarrow> the_inst w' b = the_inst w b)))"
proof -
  have "framed (Some p) w (f (Some p) w)"
    using assms(2) framed_transitions [OF st_frame_refl] by auto
  then show ?thesis
  proof (rule ensures_mono, clarify)
    fix r w' assume f: "st_frame (Some p) w w'"
    have vrs: "has_vr w b" if "b \<in> set ps" for b using assms(1) that by (auto simp: table_def inst_list_def)
    show "table w' ps \<and> adv_q_lock w' = adv_q_lock w \<and>
      (\<forall>b \<in> set ps. vrec w' b = vrec w b \<and> attr (the_vr w' b) = attr (the_vr w b) \<and>
       (b \<noteq> p \<longrightarrow> the_inst w' b = the_inst w b))"
      using st_frame_table [OF f assms(1)] st_frame_inst(3,4) [OF f vrs] f
      by (auto simp: vrec_def st_frame_def dest: vr_core_fields)
  qed
qed

theorem transitions_keep_table_witness:
  "ensures (vrrp_state_b2i (Some 1) demo_two) (\<lambda>(r, w'). table w' [1, 2] \<and> adv_q_lock w' = adv_q_lock demo_two \<and>
    (\<forall>b \<in> set [1, 2]. vrec w' b = vrec demo_two b \<and> attr (the_vr w' b) = attr (the_vr demo_two b) \<and>
       (b \<noteq> 1 \<longrightarrow> the_inst w' b = the_inst demo_two b)))"
  by (rule transitions_keep_table [OF table_demo_two]) simp

section \<open>One router and the queue\<close>

text \<open>
  The shapes the queue takes when one router \<open>a\<close> uses it: empty; \<open>a\<close> alone, with NULL links; or
  \<open>a\<close> linked to itself, which the code produces and lives with.
\<close>

datatype qshape = QEmpty | QOnly | QSelf

definition shaped :: "world \<Rightarrow> nat \<Rightarrow> vrrpd_vr_ds \<Rightarrow> qshape \<Rightarrow> bool" where
  "shaped w a v s \<longleftrightarrow> vr_heap w a = Some v \<and>
     (case s of
        QEmpty \<Rightarrow> adv_q w = None \<and> qnext v = None \<and> qprev v = None
      | QOnly \<Rightarrow> adv_q w = Some a \<and> qnext v = None \<and> qprev v = None
      | QSelf \<Rightarrow> adv_q w = Some a \<and> qnext v = Some a \<and> qprev v = Some a)"

text \<open>Removal and insertion on the shapes; insertion when \<open>ualarm\<close> answers no less than the timeout.\<close>

fun shape_rm :: "qshape \<Rightarrow> qshape" where
  "shape_rm QSelf = QOnly"
| "shape_rm _ = QEmpty"

fun shape_enq :: "qshape \<Rightarrow> qshape" where
  "shape_enq QEmpty = QOnly"
| "shape_enq _ = QSelf"

lemma shaped_queue: "shaped w a v QOnly \<Longrightarrow> queue w [a]" "shaped w a v QEmpty \<Longrightarrow> queue w [] \<and> idle a w"
  by (auto simp: shaped_def queue_def idle_def)

lemma rmqueue_shaped:
  assumes "shaped w a v s"
  shows "\<exists>v' q. vrrp_rmqueue_impl (Some a) w = Inr (0, w\<lparr>adv_q := q, vr_heap := (vr_heap w)(a := Some v')\<rparr>) \<and>
    vr_core v' = vr_core v \<and> shaped (w\<lparr>adv_q := q, vr_heap := (vr_heap w)(a := Some v')\<rparr>) a v' (shape_rm s)"
proof (cases s)
  case QEmpty
  with assms show ?thesis
    by (intro exI [of _ v] exI [of _ None]) (auto simp: shaped_def vrrp_rmqueue_impl_def fun_upd_idem)
next
  case QOnly
  with assms show ?thesis
    by (intro exI [of _ v] exI [of _ None]) (auto simp: shaped_def vrrp_rmqueue_impl_def fun_upd_idem)
next
  case QSelf
  with assms show ?thesis
    by (intro exI [of _ "v\<lparr>timeout := timeout v + timeout v, qnext := None, qprev := None\<rparr>"] exI [of _ "Some a"])
      (auto simp: shaped_def vrrp_rmqueue_impl_def)
qed

lemma enqueue_scan_stop: "\<not> acc < t \<Longrightarrow> enqueue_scan w t cur acc = Inr (cur, acc)"
  by (subst enqueue_scan_step) simp

lemma enqueue_shaped:
  assumes s: "shaped w a v s" and r: "s \<noteq> QEmpty \<Longrightarrow> timeout v \<le> ualarm_ret (os w) (trace w)"
  shows "\<exists>v' q es. vrrp_enqueue_impl (Some a) w =
      Inr (0, w\<lparr>adv_q := q, vr_heap := (vr_heap w)(a := Some v'), trace := trace w @ es\<rparr>) \<and> vr_core v' = vr_core v \<and>
    shaped (w\<lparr>adv_q := q, vr_heap := (vr_heap w)(a := Some v'), trace := trace w @ es\<rparr>) a v' (shape_enq s) \<and>
    set es \<subseteq> range EvUalarm"
proof (cases "s = QEmpty")
  case True
  with s show ?thesis
    by (intro exI [of _ "v\<lparr>qprev := None, timeout := 0\<rparr>"] exI [of _ "Some a"] exI [of _ "[EvUalarm (timeout v)]"])
      (auto simp: shaped_def enqueue_impl_empty emit_def)
next
  case False
  let ?r = "ualarm_ret (os w) (trace w)"
  let ?v = "v\<lparr>timeout := ?r - timeout v, qnext := Some a, qprev := Some a\<rparr>"
  have "adv_q w = Some a" "vr_heap w a = Some v" using s False by (cases s; simp add: shaped_def)+
  with r False show ?thesis
    by (intro exI [of _ ?v] exI [of _ "Some a"] exI [of _ "[EvUalarm (timeout v), EvUalarm (timeout ?v)]"])
      (cases s; auto simp: shaped_def vrrp_enqueue_impl_def ualarm_def emit_def enqueue_place_def
        enqueue_scan_stop enqueue_before_def not_less)
qed


text \<open>Queueing the router a second time with a timer that is not due in time runs past the end of the queue.\<close>

lemma enqueue_only_crash:
  assumes "shaped w a v QOnly" and r: "ualarm_ret (os w) (trace w) < timeout v"
  shows "vrrp_enqueue_impl (Some a) w = Inl NullDeref"
proof -
  have w: "adv_q w = Some a" "vr_heap w a = Some v" "qnext v = None" using assms by (simp_all add: shaped_def)
  with r have "enqueue_scan (emit (EvUalarm (timeout v)) w) (timeout v) (Some a) (ualarm_ret (os w) (trace w)) =
      Inr (None, ualarm_ret (os w) (trace w) + timeout v)"
    by (subst enqueue_scan_step, simp, subst enqueue_scan_step) simp
  then show ?thesis
    using w by (simp add: vrrp_enqueue_impl_def ualarm_def enqueue_place_def enqueue_append_def enqueue_before_def)
qed

text \<open>
  Putting the router on the queue that already holds it. If \<open>ualarm\<close> answers less than the
  timeout, which it does whenever an alarm is pending, the daemon dereferences NULL; otherwise the
  router ends up linked to itself, and is still linked to itself after it is queued again.
\<close>

theorem enqueue_twice:
  assumes "shaped w a v QOnly"
  shows "(ualarm_ret (os w) (trace w) < timeout v \<longrightarrow> vrrp_enqueue_impl (Some a) w = Inl NullDeref) \<and>
    (timeout v \<le> ualarm_ret (os w) (trace w) \<longrightarrow>
      returns (vrrp_enqueue_impl (Some a) w) (\<lambda>(r, w'). r = 0 \<and> (\<exists>v'. shaped w' a v' QSelf)))"
proof (intro conjI impI)
  assume "ualarm_ret (os w) (trace w) < timeout v"
  with assms show "vrrp_enqueue_impl (Some a) w = Inl NullDeref" by (rule enqueue_only_crash)
next
  assume "timeout v \<le> ualarm_ret (os w) (trace w)"
  with enqueue_shaped [OF assms]
  show "returns (vrrp_enqueue_impl (Some a) w) (\<lambda>(r, w'). r = 0 \<and> (\<exists>v'. shaped w' a v' QSelf))"
    by (auto simp: returns_def)
qed

theorem enqueue_twice_witness:
  "vrrp_enqueue_impl (Some 11) (demo_world 999 [11 \<mapsto> demo_node 7 1 1000000 None None] Map.empty (Some 11)) = Inl NullDeref"
  using enqueue_twice [of "demo_world 999 [11 \<mapsto> demo_node 7 1 1000000 None None] Map.empty (Some 11)" 11
      "demo_node 7 1 1000000 None None"]
  by (simp add: shaped_def)

section \<open>An instance with one router\<close>

text \<open>
  \<open>unit w p a st s\<close>: the instance \<open>p\<close> in state \<open>st\<close> with its one router \<open>a\<close>, whose queue has the shape
  \<open>s\<close>, able to send. \<open>acts\<close> are the calls of the process other than \<open>ualarm\<close>.
\<close>

definition unit :: "world \<Rightarrow> nat \<Rightarrow> nat \<Rightarrow> u8 \<Rightarrow> qshape \<Rightarrow> bool" where
  "unit w p a st s \<longleftrightarrow> (\<exists>d v. ds_heap w p = Some d \<and> ds_vr d = Some a \<and> state d = st \<and> shaped w a v s \<and>
     vr_next v = None \<and> parent v = Some p \<and> wf_vr (vr v) \<and> (\<exists>i. vfd v = Some i \<and> i < length (netfds w)))"

fun is_ualarm :: "event \<Rightarrow> bool" where
  "is_ualarm (EvUalarm _) = True"
| "is_ualarm _ = False"

fun is_fork :: "event \<Rightarrow> bool" where
  "is_fork (EvFork _ _) = True"
| "is_fork _ = False"

definition acts :: "world \<Rightarrow> event list" where
  "acts w = filter (\<lambda>e. \<not> is_ualarm e) (trace w)"

text \<open>\<open>moves p a es st s w w'\<close>: from \<open>w\<close> to \<open>w'\<close> the instance did \<open>es\<close> and is now as given; its process is
  another one only if it forked. Nothing is taken back from the trace.\<close>

definition moves :: "nat \<Rightarrow> nat \<Rightarrow> event list \<Rightarrow> u8 \<Rightarrow> qshape \<Rightarrow> world \<Rightarrow> world \<Rightarrow> bool" where
  "moves p a es st s w w' \<longleftrightarrow> unit w' p a st s \<and> st_frame (Some p) w w' \<and> acts w' = acts w @ es \<and>
     prefix (trace w) (trace w') \<and> ((\<forall>e \<in> set es. \<not> is_fork e) \<longrightarrow> pid (the_inst w' p) = pid (the_inst w p))"

text \<open>
  What the environment must do for an instance whose queue has the shape \<open>s\<close>: memory is there, \<open>fork\<close>
  answers the parent, and, only for the self-linked queue, \<open>ualarm\<close> refuses (it answers -1, as the
  C library does for a second or more).
\<close>

definition able :: "world \<Rightarrow> qshape \<Rightarrow> bool" where
  "able w s \<longleftrightarrow> no_oom w \<and> (\<forall>t. fork_ret (os w) t \<noteq> 0) \<and>
     (s = QSelf \<longrightarrow> (\<forall>t. ualarm_ret (os w) t = -1))"

lemma able_enq: "able w (shape_enq s) \<Longrightarrow> s \<noteq> QEmpty \<Longrightarrow> able w QSelf"
  by (cases s) simp_all

lemma able_rm: "able w s \<Longrightarrow> shape_rm s \<noteq> QEmpty \<Longrightarrow> able w QSelf"
  by (cases s) simp_all

lemma able_only: "able w QEmpty \<Longrightarrow> able w (shape_enq QEmpty)"
  by (simp add: able_def)

lemma able_requeue: "able w s \<Longrightarrow> able w (shape_enq (shape_rm s))"
  by (cases s) (simp_all add: able_def)

lemma moves_trans:
  "moves p a es st s w w' \<Longrightarrow> moves p a es' st' s' w' w'' \<Longrightarrow> moves p a (es @ es') st' s' w w''"
  by (auto simp: moves_def intro: st_frame_trans)

lemma moves_unit: "moves p a es st s w w' \<Longrightarrow> unit w' p a st s"
  by (simp add: moves_def)

lemma able_moves: "moves p a es st s w w' \<Longrightarrow> able w' s0 = able w s0"
  by (simp add: moves_def st_frame_def able_def no_oom_def)

lemma unitE:
  assumes "unit w p a st s"
  obtains d v where "ds_heap w p = Some d" "ds_vr d = Some a" "state d = st" "shaped w a v s" "vr_heap w a = Some v"
    "vr_next v = None" "parent v = Some p" "wf_vr (vr v)" "the_vr w p = v" "vrec w p = vr v" "inst_vr (Some p) w = Inr v"
  using assms by (fastforce simp: unit_def shaped_def vrec_def inst_vr_def)

text \<open>A store to the router that keeps its core, and to the queue, keeps the rest of the instance.\<close>

lemma unit_vr:
  assumes "unit w p a st s" and "vr_heap w a = Some v" and "vr_core v' = vr_core v"
    and "shaped (w\<lparr>adv_q := q, vr_heap := (vr_heap w)(a := Some v')\<rparr>) a v' s'"
  shows "moves p a [] st s' w (w\<lparr>adv_q := q, vr_heap := (vr_heap w)(a := Some v')\<rparr>)"
proof -
  have "st_frame (Some p) w (w\<lparr>adv_q := q, vr_heap := (vr_heap w)(a := Some v')\<rparr>)"
    using st_frame_vr [OF st_frame_refl assms(2,3), of "Some p"] by (simp add: st_frame_def)
  then show ?thesis
    using assms vr_core_fields [OF assms(3)] by (auto simp: moves_def unit_def shaped_def acts_def the_inst_def)
qed

lemma moves_trace:
  "moves p a es st s w w' \<Longrightarrow> \<forall>e \<in> set es'. is_ualarm e \<Longrightarrow> moves p a es st s w (w'\<lparr>trace := trace w' @ es'\<rparr>)"
  by (auto simp: moves_def unit_def shaped_def st_frame_def acts_def the_inst_def split: qshape.splits)

lemma moves_rm:
  assumes "unit w p a st s"
  shows "returns (vrrp_rmqueue_impl (Some a) w) (\<lambda>(r, w'). r = 0 \<and> moves p a [] st (shape_rm s) w w')"
proof -
  from assms obtain d v where v: "shaped w a v s" "vr_heap w a = Some v" by (auto elim: unitE)
  from rmqueue_shaped [OF v(1)] unit_vr [OF assms v(2)] show ?thesis by (auto simp: returns_def)
qed

lemma moves_enq:
  assumes "unit w p a st s" and "s \<noteq> QEmpty \<Longrightarrow> able w QSelf"
  shows "returns (vrrp_enqueue_impl (Some a) w) (\<lambda>(r, w'). r = 0 \<and> moves p a [] st (shape_enq s) w w')"
proof -
  from assms(1) obtain d v where v: "shaped w a v s" "vr_heap w a = Some v" by (auto elim: unitE)
  have "s \<noteq> QEmpty \<Longrightarrow> timeout v \<le> ualarm_ret (os w) (trace w)" using assms(2) by (simp add: able_def)
  from enqueue_shaped [OF v(1) this] obtain v' q es where e: "vrrp_enqueue_impl (Some a) w =
      Inr (0, w\<lparr>adv_q := q, vr_heap := (vr_heap w)(a := Some v'), trace := trace w @ es\<rparr>)" "vr_core v' = vr_core v"
    "shaped (w\<lparr>adv_q := q, vr_heap := (vr_heap w)(a := Some v'), trace := trace w @ es\<rparr>) a v' (shape_enq s)"
    "set es \<subseteq> range EvUalarm"
    by blast
  have "shaped (w\<lparr>adv_q := q, vr_heap := (vr_heap w)(a := Some v')\<rparr>) a v' (shape_enq s)"
    using e(3) by (simp add: shaped_def split: qshape.splits)
  moreover have "\<forall>e \<in> set es. is_ualarm e" using e(4) by auto
  ultimately show ?thesis using moves_trace [OF unit_vr [OF assms(1) v(2) e(2)], of q "shape_enq s" es] e(1) by simp
qed

lemma moves_timer:
  assumes "unit w p a st s"
  shows "returns (set_adv_timer (Some p) (Some a) w) (moves p a [] st s w)"
proof -
  from assms obtain d v where v: "shaped w a v s" "vr_heap w a = Some v" "inst_vr (Some p) w = Inr v"
    by (auto elim: unitE)
  let ?v = "v\<lparr>timeout := VRRP_SEC2USEC (delay (attr v))\<rparr>"
  have "moves p a [] st s w (w\<lparr>adv_q := adv_q w, vr_heap := (vr_heap w)(a := Some ?v)\<rparr>)"
    by (rule unit_vr [OF assms v(2)]) (use v in \<open>auto simp: shaped_def split: qshape.splits\<close>)
  with v show ?thesis by (simp add: set_adv_timer_def)
qed

lemma moves_requeue:
  assumes "unit w p a st s" and "able w s"
  shows "returns (requeue (Some p) (Some a) w) (\<lambda>(r, w'). r = 0 \<and> moves p a [] st (shape_enq (shape_rm s)) w w')"
  unfolding requeue_def
proof (rule returns_bndI [OF moves_rm [OF assms(1)]], clarify)
  fix w1 assume m1: "moves p a [] st (shape_rm s) w w1"
  show "returns (bnd (set_adv_timer (Some p) (Some a) w1) (vrrp_enqueue_impl (Some a)))
      (\<lambda>(r, w'). r = 0 \<and> moves p a [] st (shape_enq (shape_rm s)) w w')"
  proof (rule returns_bndI [OF moves_timer [OF moves_unit [OF m1]]])
    fix w2 assume "moves p a [] st (shape_rm s) w1 w2"
    with m1 have m2: "moves p a [] st (shape_rm s) w w2" using moves_trans by fastforce
    with assms(2) have "able w2 s" by (simp add: able_moves)
    then show "returns (vrrp_enqueue_impl (Some a) w2) (\<lambda>(r, w'). r = 0 \<and> moves p a [] st (shape_enq (shape_rm s)) w w')"
      by (rule returns_mono [OF moves_enq [OF moves_unit [OF m2] able_rm]]) (use moves_trans [OF m2] in auto)
  qed
qed

lemma moves_state:
  assumes "unit w p a st s"
  shows "returns (set_state (Some p) st' w) (moves p a [] st' s w)"
  using assms by (auto simp: set_state_def moves_def the_inst_def unit_def shaped_def acts_def st_frame_def elim!: unitE split: qshape.splits)


text \<open>Starting the router process, and stopping it after a last advertisement of priority 0.\<close>

definition fork_event :: "vrrp_vr \<Rightarrow> event" where
  "fork_event r = EvFork (cstr (vr_ifname r)) (ether_ntoa [0, 0, 0x5e, 0, 1, vr_id r])"

lemma shaped_world [simp]:
  "shaped (w\<lparr>ds_heap := h\<rparr>) a v s = shaped w a v s" "shaped (w\<lparr>brk := n\<rparr>) a v s = shaped w a v s"
  "shaped (w\<lparr>trace := t\<rparr>) a v s = shaped w a v s" "shaped (emit e w) a v s = shaped w a v s"
  by (simp_all add: shaped_def split: qshape.split)

lemma moves_world:
  assumes "unit w p a st s" and "ds_heap w p = Some d" and "st_core d' = st_core d" and "brk w \<le> n"
    and "pid d' = pid d \<or> (\<exists>e \<in> set es. is_fork e)"
  shows "moves p a (filter (\<lambda>e. \<not> is_ualarm e) es) (state d') s w
    (w\<lparr>brk := n, trace := trace w @ es, ds_heap := (ds_heap w)(p := Some d')\<rparr>)"
  using assms st_core_fields(1) [OF assms(3)]
  by (auto simp: moves_def unit_def st_frame_def acts_def the_inst_def) (metis is_fork.simps(1) is_ualarm.elims(2) is_fork.simps(2))

lemma moves_calls:
  assumes "unit w p a st s" and "brk w \<le> n"
  shows "moves p a (filter (\<lambda>e. \<not> is_ualarm e) es) st s w (w\<lparr>brk := n, trace := trace w @ es\<rparr>)"
  using assms by (auto simp: moves_def unit_def st_frame_def acts_def the_inst_def)

lemma moves_start:
  assumes u: "unit w p a st s" and q: "able w s0" and tr: "tr = INIT_TO_MAST \<or> tr = BACK_TO_MAST"
  shows "returns (vrrp_state_execution tr (Some p) w)
    (\<lambda>(r, w'). moves p a [fork_event (vrec w p)] st s w w' \<and>
       (r = 0 \<longrightarrow> pid (the_inst w' p) = fork_ret (os w) (trace w)))"
proof -
  from u obtain d v where v: "ds_heap w p = Some d" "state d = st" "vrec w p = vr v" "inst_vr (Some p) w = Inr v"
    by (rule unitE) blast
  let ?f = "fork_ret (os w) (trace w)" and ?e = "fork_event (vr v)"
  have "moves p a [?e] st s w (w\<lparr>brk := Suc (Suc (brk w)), trace := trace w @ [?e]\<rparr>)"
    using moves_calls [OF u, of "Suc (Suc (brk w))" "[?e]"] by (simp add: fork_event_def)
  moreover have "moves p a [?e] st s w (w\<lparr>brk := Suc (Suc (brk w)), trace := trace w @ [?e],
      ds_heap := (ds_heap w)(p := Some (d\<lparr>pid := ?f\<rparr>))\<rparr>)"
    using moves_world [OF u v(1), of "d\<lparr>pid := ?f\<rparr>" "Suc (Suc (brk w))" "[?e]"] v(2) by (simp add: fork_event_def)
  ultimately show ?thesis
    using q tr v by (auto simp: vrrp_state_execution_def vrrp_vr_vmac_def able_def emit_def fork_event_def Let_def)
qed

text \<open>
  The calls that send an advertisement when the calls \<open>t\<close> have been made: the packet is written only if
  \<open>setsockopt\<close> fails. And the calls that stop a router process. \<open>send_fd w p\<close> is the socket set up for \<open>p\<close>.
\<close>

definition adv_events :: "os \<Rightarrow> event list \<Rightarrow> cint \<Rightarrow> u8 list \<Rightarrow> event list" where
  "adv_events sys t raw pkt = EvSetsockopt raw # (if setsockopt_ret sys t = 0 then [] else [EvWrite raw pkt])"

definition stop_events :: "os \<Rightarrow> event list \<Rightarrow> cint \<Rightarrow> u8 list \<Rightarrow> cint \<Rightarrow> event list" where
  "stop_events sys t raw pkt n = adv_events sys t raw pkt @ [EvKill n SIGINT]"

definition send_fd :: "world \<Rightarrow> nat \<Rightarrow> cint" where
  "send_fd w p = s_send (netfds w ! the (vfd (the_vr w p)))"

text \<open>
  \<open>called w t es w'\<close>: on the way from \<open>w\<close> to \<open>w'\<close> the calls \<open>es\<close> were made in a row, when \<open>t\<close> were all
  the calls made before; since \<open>w\<close> these were calls of \<open>ualarm\<close> only.
\<close>

definition called :: "world \<Rightarrow> event list \<Rightarrow> event list \<Rightarrow> world \<Rightarrow> bool" where
  "called w t es w' \<longleftrightarrow>
     prefix (trace w) t \<and> filter (\<lambda>e. \<not> is_ualarm e) t = acts w \<and> prefix (t @ es) (trace w')"

text \<open>A packet that announces priority 0 for the router \<open>r\<close>.\<close>

definition farewell :: "vrrp_vr \<Rightarrow> u8 list \<Rightarrow> bool" where
  "farewell r pkt \<longleftrightarrow> length pkt = 110 \<and> take 34 pkt = adv_headers r \<and> pri (vi_va (inst_at [] (drop 34 pkt))) = 0"

text \<open>\<open>quits w p es w'\<close>: the calls \<open>es\<close> made on the way from \<open>w\<close> to \<open>w'\<close> are those of a last advertisement of \<open>p\<close>
  and of the interrupt of its router process.\<close>

definition quits :: "world \<Rightarrow> nat \<Rightarrow> event list \<Rightarrow> world \<Rightarrow> bool" where
  "quits w p es w' \<longleftrightarrow> (\<exists>t pkt. farewell (vrec w p) pkt \<and>
     es = stop_events (os w) t (send_fd w p) pkt (pid (the_inst w p)) \<and> called w t es w')"

lemma called_mono: "called w t es w1 \<Longrightarrow> prefix (trace w1) (trace w2) \<Longrightarrow> called w t es w2"
  by (auto simp: called_def intro: prefix_order.trans)

lemma called_from:
  "called w1 t es w2 \<Longrightarrow> prefix (trace w) (trace w1) \<Longrightarrow> acts w1 = acts w \<Longrightarrow> called w t es w2"
  by (auto simp: called_def intro: prefix_order.trans)

lemma called_now: "trace w' = trace w @ es \<Longrightarrow> called w (trace w) es w'"
  by (simp add: called_def acts_def)

lemma quits_mono: "quits w p es w1 \<Longrightarrow> prefix (trace w1) (trace w2) \<Longrightarrow> quits w p es w2"
  unfolding quits_def by (blast intro: called_mono)

lemma moves_prefix: "moves p a es st s w w' \<Longrightarrow> prefix (trace w) (trace w')"
  by (simp add: moves_def)

lemma unit_sendable:
  assumes "unit w p a st s" and "able w s0"
  shows "\<exists>d v fd. sendable (w\<lparr>brk := n\<rparr>) p d v fd \<and> ds_heap w p = Some d \<and> vrec w p = vr v \<and> inst_vr (Some p) w = Inr v \<and>
    s_send fd = send_fd w p"
  using assms by (fastforce simp: unit_def able_def sendable_def shaped_def vrec_def inst_vr_def send_fd_def)

lemma moves_stop:
  assumes u: "unit w p a st s" and q: "able w s0" and tr: "tr = MAST_TO_INIT \<or> tr = MAST_TO_BACK"
  shows "returns (vrrp_state_execution tr (Some p) w) (\<lambda>(r, w'). \<exists>es. quits w p es w' \<and> moves p a es st s w w')"
proof -
  obtain d v fd where s: "sendable (w\<lparr>brk := Suc (Suc (brk w))\<rparr>) p d v fd" and d: "ds_heap w p = Some d"
    and v: "vrec w p = vr v" "inst_vr (Some p) w = Inr v" "s_send fd = send_fd w p"
    using unit_sendable [OF u q] by blast
  obtain r pkt where send: "vrrp_send_adv (Some p) 0 (w\<lparr>brk := Suc (Suc (brk w))\<rparr>) = Inr (r,
      w\<lparr>brk := brk w + 5, trace := trace w @ EvSetsockopt (s_send fd) #
         (if setsockopt_ret (os w) (trace w) = 0 then [] else [EvWrite (s_send fd) pkt])\<rparr>)"
    and pkt: "farewell (vr v) pkt"
    using send_adv_ok [OF s, of 0 "[]"] by (auto simp: farewell_def sent_inst_def numeral_eq_Suc)
  let ?es = "stop_events (os w) (trace w) (send_fd w p) pkt (pid d)"
  let ?w = "w\<lparr>brk := brk w + 5, trace := trace w @ ?es\<rparr>"
  have es: "filter (\<lambda>e. \<not> is_ualarm e) ?es = ?es" by (simp add: stop_events_def adv_events_def)
  have m: "moves p a ?es st s w ?w"
    using moves_calls [OF u, of "brk w + 5" ?es] es by simp
  have "quits w p ?es ?w"
    using pkt v d by (auto simp: quits_def the_inst_def intro!: called_now exI [of _ "trace w"] exI [of _ pkt])
  moreover have "\<exists>r. vrrp_state_execution tr (Some p) w = Inr (r, ?w)"
    using q tr v d send
    by (auto simp: vrrp_state_execution_def vrrp_vr_vmac_def able_def kill_def emit_def stop_events_def adv_events_def Let_def)
  ultimately show ?thesis using m by auto
qed

lemma moves_same:
  assumes "moves p a es st s w w'" and "unit w p a st0 s0"
  shows "vrec w' p = vrec w p" and "attr (the_vr w' p) = attr (the_vr w p)" and "send_fd w' p = send_fd w p"
proof -
  have f: "st_frame (Some p) w w'" using assms(1) by (simp add: moves_def)
  have "has_vr w p" using assms(2) by (auto simp: unit_def has_vr_def shaped_def)
  from vr_core_fields [OF st_frame_inst(3) [OF f this]] f
  show "vrec w' p = vrec w p" and "attr (the_vr w' p) = attr (the_vr w p)" and "send_fd w' p = send_fd w p"
    by (simp_all add: vrec_def send_fd_def st_frame_def)
qed

lemma quits_from:
  assumes m: "moves p a [] st s w w1" and u: "unit w p a st0 s0" and q: "quits w1 p es w2"
  shows "quits w p es w2"
proof -
  have "prefix (trace w) (trace w1)" "acts w1 = acts w" "os w1 = os w" "pid (the_inst w1 p) = pid (the_inst w p)"
    using m by (simp_all add: moves_def st_frame_def)
  with q moves_same [OF m u] show ?thesis by (auto simp: quits_def intro: called_from)
qed

text \<open>Sequencing: \<open>does r p a y es st s w\<close> says that \<open>r\<close> returns \<open>y\<close> having moved the instance so.\<close>

definition does :: "('a \<times> world) res \<Rightarrow> nat \<Rightarrow> nat \<Rightarrow> 'a \<Rightarrow> event list \<Rightarrow> u8 \<Rightarrow> qshape \<Rightarrow> world \<Rightarrow> bool" where
  "does r p a y es st s w \<longleftrightarrow> returns r (\<lambda>(x, w'). x = y \<and> moves p a es st s w w')"

lemma does_bnd:
  assumes "does r p a x es st s w"
    and "\<And>w'. moves p a es st s w w' \<Longrightarrow> unit w' p a st s \<Longrightarrow> does (f (x, w')) p a y es' st' s' w'"
  shows "does (bnd r f) p a y (es @ es') st' s' w"
  unfolding does_def
proof (rule returns_bndI [OF assms(1) [unfolded does_def]], clarify)
  fix w' assume m: "moves p a es st s w w'"
  show "returns (f (x, w')) (\<lambda>(z, w''). z = y \<and> moves p a (es @ es') st' s' w w'')"
    by (rule returns_mono [OF assms(2) [OF m moves_unit [OF m], unfolded does_def]])
      (auto intro: moves_trans [OF m])
qed

lemma does_bndw:
  assumes "returns r (moves p a es st s w)"
    and "\<And>w'. moves p a es st s w w' \<Longrightarrow> unit w' p a st s \<Longrightarrow> does (f w') p a y es' st' s' w'"
  shows "does (bnd r f) p a y (es @ es') st' s' w"
  unfolding does_def
proof (rule returns_bndI [OF assms(1)])
  fix w' assume m: "moves p a es st s w w'"
  show "returns (f w') (\<lambda>(z, w''). z = y \<and> moves p a (es @ es') st' s' w w'')"
    by (rule returns_mono [OF assms(2) [OF m moves_unit [OF m], unfolded does_def]])
      (auto intro: moves_trans [OF m])
qed

lemma moves_refl: "unit w p a st s \<Longrightarrow> moves p a [] st s w w"
  by (simp add: moves_def)

lemma does_Inr: "unit w p a st s \<Longrightarrow> does (Inr (y, w)) p a y [] st s w"
  by (simp add: does_def moves_refl)

lemma does_snd: "does r p a y es st s w \<Longrightarrow> returns (map_sum id snd r) (moves p a es st s w)"
  by (auto simp: does_def returns_map_sum elim: returns_mono)

lemma does_ret: "does r p a x es st s w \<Longrightarrow> does (bnd r (\<lambda>(_, w). Inr (y, w))) p a y es st s w"
  using does_bnd [of r p a x es st s w _ y "[]" st s] by (simp add: does_Inr)

lemma does_retw: "returns r (moves p a es st s w) \<Longrightarrow> does (bnd r (\<lambda>w. Inr (y, w))) p a y es st s w"
  using does_bndw [of r p a es st s w _ y "[]" st s] by (simp add: does_Inr)

text \<open>The loop over the routers runs once.\<close>

lemma does_loop:
  assumes "does (f (Some a) x w) p a y es st s w"
  shows "does (for_vrs f (Some a) x w) p a y es st s w"
proof -
  from assms obtain w' where w': "f (Some a) x w = Inr (y, w')" and m: "moves p a es st s w w'"
    by (auto simp: does_def elim!: returnsE)
  from moves_unit [OF m] obtain v where "vr_heap w' a = Some v" "vr_next v = None"
    by (auto simp: unit_def shaped_def)
  with w' have "for_vrs f (Some a) x w = Inr (y, w')"
    unfolding for_vrs_def by (subst loop_unfold, simp, subst loop_unfold) simp
  with m show ?thesis by (simp add: does_def)
qed

lemma unit_lock [simp]: "unit (w\<lparr>adv_q_lock := b\<rparr>) p a st s = unit w p a st s" "unit (unlock_q w) p a st s = unit w p a st s"
  by (simp_all add: unit_def shaped_def unlock_q_def split: qshape.split)

lemma moves_locked:
  assumes "\<not> adv_q_lock w" and "returns (f (w\<lparr>adv_q_lock := True\<rparr>)) (\<lambda>(r, w'). r = 0 \<and> moves p a es st s (w\<lparr>adv_q_lock := True\<rparr>) w')"
  shows "returns (locked f w) (moves p a es st s w)"
  using assms by (auto simp: locked_def returns_def moves_def st_frame_def acts_def the_inst_def)

lemma does_event: "unit w p a st s \<Longrightarrow> \<not> is_ualarm e \<Longrightarrow> does (Inr (y, emit e w)) p a y [e] st s w"
  using moves_calls [of w p a st s "brk w" "[e]"] by (simp add: does_def emit_def)

lemma able_lock [simp]: "able (w\<lparr>adv_q_lock := b\<rparr>) s = able w s"
  by (simp add: able_def no_oom_def)

lemma unit_load:
  assumes "unit w p a st s"
  shows "\<exists>d. dload (Some p) w = Inr d \<and> ds_vr d = Some a \<and> state d = st"
    and "inst_vr (Some p) w = Inr (the_vr w p)"
  using assms by (auto simp: unit_def inst_vr_def shaped_def)

section \<open>The transitions of an instance with one router\<close>

definition master_events :: "world \<Rightarrow> nat \<Rightarrow> event list" where
  "master_events w p = [fork_event (vrec w p), EvAlarm (delay (attr (the_vr w p)))]"

lemma does_start:
  assumes "unit w p a st s" and "able w s0" and "tr = INIT_TO_MAST \<or> tr = BACK_TO_MAST"
    and "\<And>w'. moves p a [fork_event (vrec w p)] st s w w' \<Longrightarrow> unit w' p a st s \<Longrightarrow> does (f w') p a y es' st' s' w'"
  shows "does (bnd (vrrp_state_execution tr (Some p) w) (\<lambda>(_, w). f w)) p a y (fork_event (vrec w p) # es') st' s' w"
  unfolding does_def
proof (rule returns_bndI [OF moves_start [OF assms(1-3)]], clarify)
  fix w' assume m: "moves p a [fork_event (vrec w p)] st s w w'"
  show "returns (f w') (\<lambda>(z, w''). z = y \<and> moves p a (fork_event (vrec w p) # es') st' s' w w'')"
    by (rule returns_mono [OF assms(4) [OF m moves_unit [OF m], unfolded does_def]])
      (use moves_trans [OF m] in auto)
qed

lemma b2m_does:
  assumes u: "unit w p a st s" and q: "able w s"
  shows "does (vrrp_state_b2m (Some p) w) p a 0 (master_events w p) VRRP_STATE_MAST (shape_enq (shape_rm s)) w"
proof -
  obtain d where d: "dload (Some p) w = Inr d" "ds_vr d = Some a" using unit_load(1) [OF u] by blast
  let ?s = "shape_enq (shape_rm s)"
  have loop: "does (for_vrs (\<lambda>vri ret w. let r = vrrp_master vri in
            if r \<noteq> VRRP_SUCCESS then Inr (r, w)
            else bnd (requeue (Some p) vri w) (\<lambda>(_, w). Inr (ret, w))) (Some a) VRRP_SUCCESS w) p a VRRP_SUCCESS [] st ?s w"
    by (rule does_loop)
      (use does_ret [of "requeue (Some p) (Some a) w"] moves_requeue [OF u q] in \<open>simp add: vrrp_master_def does_def\<close>)
  show ?thesis
    unfolding vrrp_state_b2m_def d bnd_simps master_events_def
  proof (rule does_bnd [OF loop, where es' = "[] @ _", simplified append_Nil], simp, rule does_bndw [OF moves_state, simplified], assumption, goal_cases)
    case (1 w1 w2)
    have m: "moves p a [] 2 ?s w w2" using moves_trans [OF 1(1) 1(3)] by simp
    then have same: "vrec w2 p = vrec w p" "attr (the_vr w2 p) = attr (the_vr w p)" using moves_same u by blast+
    have "does (bnd (vrrp_state_execution BACK_TO_MAST (Some p) w2) (\<lambda>(_, w).
       bnd (inst_vr (Some p) w) (\<lambda>r. Inr (0, emit (EvAlarm (delay (attr r))) w)))) p a 0
       (fork_event (vrec w2 p) # [EvAlarm (delay (attr (the_vr w p)))]) 2 ?s w2"
    proof (rule does_start [OF 1(4)])
      fix w3 assume m3: "moves p a [fork_event (vrec w2 p)] 2 ?s w2 w3" and u3: "unit w3 p a 2 ?s"
      show "does (bnd (inst_vr (Some p) w3) (\<lambda>r. Inr (0, emit (EvAlarm (delay (attr r))) w3))) p a 0
          [EvAlarm (delay (attr (the_vr w p)))] 2 ?s w3"
        using moves_same(2) [OF m3 1(4)] same unit_load(2) [OF u3] by (simp add: does_event [OF u3])
    qed (use q able_moves [OF m] in auto)
    then show ?case by (simp add: same)
  qed
qed


lemma locked_rm:
  assumes "unit w p a st s" and "\<not> adv_q_lock w"
  shows "returns (locked (vrrp_rmqueue_impl (Some a)) w) (moves p a [] st (shape_rm s) w)"
  by (rule moves_locked [OF assms(2)], rule moves_rm) (use assms in simp)

lemma locked_enq:
  assumes "unit w p a st s" and "\<not> adv_q_lock w" and "s \<noteq> QEmpty \<Longrightarrow> able w QSelf"
  shows "returns (locked (vrrp_enqueue_impl (Some a)) w) (moves p a [] st (shape_enq s) w)"
  by (rule moves_locked [OF assms(2)], rule moves_enq) (use assms in simp_all)

lemma locked_requeue:
  assumes "unit w p a st s" and "\<not> adv_q_lock w" and "able w s"
  shows "returns (locked (requeue (Some p) (Some a)) w) (moves p a [] st (shape_enq (shape_rm s)) w)"
  by (rule moves_locked [OF assms(2)], rule moves_requeue) (use assms in simp_all)

lemma moves_lock: "moves p a es st s w w' \<Longrightarrow> adv_q_lock w' = adv_q_lock w"
  by (simp add: moves_def st_frame_def)

lemma b2i_does:
  assumes u: "unit w p a st s" and l: "\<not> adv_q_lock w"
  shows "does (vrrp_state_b2i (Some p) w) p a 0 [] VRRP_STATE_INIT (shape_rm s) w"
proof -
  obtain d where d: "dload (Some p) w = Inr d" "ds_vr d = Some a" using unit_load(1) [OF u] by blast
  have body: "does (bnd (set_adv_timer (Some p) (Some a) w) (\<lambda>w. bnd (locked (vrrp_rmqueue_impl (Some a)) w)
      (\<lambda>w. Inr ((), w)))) p a () ([] @ []) st (shape_rm s) w"
    by (rule does_bndw [OF moves_timer [OF u]]) (use l moves_lock in \<open>auto intro!: does_retw locked_rm\<close>)
  have "does (vrrp_state_b2i (Some p) w) p a 0 ([] @ []) VRRP_STATE_INIT (shape_rm s) w"
    unfolding vrrp_state_b2i_def d bnd_simps
  proof (rule does_bnd, rule does_loop, rule body [unfolded append_Nil], clarify)
    fix w' assume "unit w' p a st (shape_rm s)"
    then show "does (bnd (set_state (Some p) VRRP_STATE_INIT w') (\<lambda>w. Inr (VRRP_SUCCESS, w))) p a 0 []
        VRRP_STATE_INIT (shape_rm s) w'"
      using does_retw [OF moves_state, of w' p a st "shape_rm s" VRRP_STATE_INIT VRRP_SUCCESS] by simp
  qed
  then show ?thesis by simp
qed

text \<open>
  Going down: the events of \<open>vrrp_state_execution\<close> depend on the packet, so they are given by a
  property; \<open>fin\<close> is what follows them.
\<close>

definition goes_down :: "(u32 \<times> world) res \<Rightarrow> nat \<Rightarrow> nat \<Rightarrow> event list \<Rightarrow> u8 \<Rightarrow> qshape \<Rightarrow> world \<Rightarrow> bool" where
  "goes_down r p a fin st s w \<longleftrightarrow>
     returns r (\<lambda>(x, w'). x = 0 \<and> (\<exists>es. quits w p es w' \<and> moves p a (es @ fin) st s w w'))"

lemma stop_step:
  assumes m: "moves p a [] st s w w'" and u: "unit w p a st0 s0" and q: "able w s1"
    and tr: "tr = MAST_TO_INIT \<or> tr = MAST_TO_BACK"
    and rest: "\<And>w1 es. moves p a es st s w w1 \<Longrightarrow> unit w1 p a st s \<Longrightarrow> does (f w1) p a 0 fin st' s' w1"
  shows "goes_down (bnd (vrrp_state_execution tr (Some p) w') (\<lambda>(_, w). f w)) p a fin st' s' w"
  unfolding goes_down_def
proof (rule returns_bndI [OF moves_stop [OF moves_unit [OF m] q [folded able_moves [OF m]] tr]], clarify)
  fix w1 es assume q1: "quits w' p es w1" and m1: "moves p a es st s w' w1"
  from moves_trans [OF m m1] have m2: "moves p a es st s w w1" by simp
  have "quits w p es w2 \<and> moves p a (es @ fin) st' s' w w2" if "moves p a fin st' s' w1 w2" for w2
    using quits_mono [OF quits_from [OF m u q1] moves_prefix [OF that]] moves_trans [OF m2 that] by blast
  then show "returns (f w1) (\<lambda>(x, w'). x = 0 \<and> (\<exists>es. quits w p es w' \<and> moves p a (es @ fin) st' s' w w'))"
    by (intro returns_mono [OF rest [OF m2 moves_unit [OF m2], unfolded does_def]]) auto
qed

lemma goes_downI:
  assumes "does r p a x [] st0 s0 w" and "\<And>w'. moves p a [] st0 s0 w w' \<Longrightarrow> unit w' p a st0 s0 \<Longrightarrow> goes_down (f (x, w')) p a fin st s w"
  shows "goes_down (bnd r f) p a fin st s w"
  using assms by (auto simp: does_def goes_down_def moves_def elim!: returnsE)

lemma goes_downIw:
  assumes "returns r (moves p a [] st0 s0 w)" and "\<And>w'. moves p a [] st0 s0 w w' \<Longrightarrow> unit w' p a st0 s0 \<Longrightarrow> goes_down (f w') p a fin st s w"
  shows "goes_down (bnd r f) p a fin st s w"
  using assms by (auto simp: does_def goes_down_def moves_def elim!: returnsE)

lemma goes_down_after:
  assumes m: "moves p a [] st0 s0 w w'" and r: "returns r (moves p a [] st1 s1 w')"
    and f: "\<And>w2. moves p a [] st1 s1 w w2 \<Longrightarrow> unit w2 p a st1 s1 \<Longrightarrow> goes_down (f w2) p a fin st s w"
  shows "goes_down (bnd r f) p a fin st s w"
proof (rule goes_downIw)
  show "returns r (moves p a [] st1 s1 w)"
    by (rule returns_mono [OF r]) (use moves_trans [OF m] in fastforce)
qed (rule f)

lemma m2i_does:
  assumes u: "unit w p a st s" and q: "able w s" and l: "\<not> adv_q_lock w"
  shows "goes_down (vrrp_state_m2i (Some p) w) p a [] VRRP_STATE_INIT (shape_rm s) w"
proof -
  obtain d where d: "dload (Some p) w = Inr d" "ds_vr d = Some a" using unit_load(1) [OF u] by blast
  show ?thesis
    unfolding vrrp_state_m2i_def d bnd_simps
  proof (rule goes_downI, rule does_loop)
    show "does (let r = vrrp_unmaster (Some a) in if r \<noteq> VRRP_SUCCESS then Inr (r, w)
        else bnd (locked (vrrp_rmqueue_impl (Some a)) w) (\<lambda>w. Inr (VRRP_SUCCESS, w))) p a VRRP_SUCCESS [] st (shape_rm s) w"
      using does_retw [OF locked_rm [OF u l]] by (simp add: vrrp_unmaster_def)
  next
    fix w1 assume m1: "moves p a [] st (shape_rm s) w w1" and u1: "unit w1 p a st (shape_rm s)"
    have "goes_down (bnd (set_state (Some p) VRRP_STATE_INIT w1) (\<lambda>w. bnd (vrrp_state_execution MAST_TO_INIT (Some p) w)
        (\<lambda>(_, w). Inr (VRRP_SUCCESS, w)))) p a [] VRRP_STATE_INIT (shape_rm s) w"
      by (rule goes_down_after [OF m1 moves_state [OF u1]], rule stop_step [OF _ u q]) (auto intro: does_Inr)
    then show "goes_down (case (VRRP_SUCCESS, w1) of (ret, w) \<Rightarrow> if ret = VRRP_SUCCESS then
        bnd (set_state (Some p) VRRP_STATE_INIT w) (\<lambda>w. bnd (vrrp_state_execution MAST_TO_INIT (Some p) w) (\<lambda>(_, w). Inr (ret, w)))
        else Inr (ret, w)) p a [] VRRP_STATE_INIT (shape_rm s) w"
      by simp
  qed
qed

text \<open>Waiting for a master: what follows, the state and the queue, by whether a master was heard.\<close>

definition wait_events :: "world \<Rightarrow> nat \<Rightarrow> event list" where
  "wait_events w p = EvSleep (delay (attr (the_vr w p))) # (if any_master_up w = 0 then master_events w p else [])"

definition wait_state :: "world \<Rightarrow> u8 \<Rightarrow> u8" where
  "wait_state w st = (if any_master_up w = 0 then VRRP_STATE_MAST else st)"

definition wait_shape :: "world \<Rightarrow> qshape \<Rightarrow> qshape" where
  "wait_shape w s = (if any_master_up w = 0 then shape_enq (shape_rm s) else s)"

lemma moves_flags: "moves p a es st s w w' \<Longrightarrow> any_master_up w' = any_master_up w"
  by (simp add: moves_def st_frame_def any_master_up_def)

lemma wait_moves:
  assumes u: "unit w p a st s" and q: "able w s"
  shows "returns (wait_for_master (Some p) w) (moves p a (wait_events w p) (wait_state w st) (wait_shape w s) w)"
proof -
  let ?e = "EvSleep (delay (attr (the_vr w p)))"
  have m: "moves p a [?e] st s w (emit ?e w)"
    using does_event [OF u, of ?e "()"] by (simp add: does_def)
  note same = moves_same [OF m u] and up = moves_flags [OF m]
  have q': "able (emit ?e w) s" using q able_moves [OF m] by simp
  have ev: "master_events (emit ?e w) p = master_events w p" using same by (simp add: master_events_def)
  show ?thesis
  proof (cases "any_master_up w = 0")
    case True
    have "returns (map_sum id snd (vrrp_state_b2m (Some p) (emit ?e w)))
        (moves p a ([?e] @ master_events w p) 2 (shape_enq (shape_rm s)) w)"
      using does_snd [OF b2m_does [OF moves_unit [OF m] q']] by (auto simp: ev elim!: returns_mono dest: moves_trans [OF m])
    with True up show ?thesis
      by (simp add: wait_for_master_def unit_load(2) [OF u] wait_events_def wait_state_def wait_shape_def)
  next
    case False
    with m up show ?thesis
      by (simp add: wait_for_master_def unit_load(2) [OF u] wait_events_def wait_state_def wait_shape_def)
  qed
qed

lemma moves_after: "moves p a [] st0 s0 w w' \<Longrightarrow> returns r (moves p a es st s w') \<Longrightarrow> returns r (moves p a es st s w)"
  using moves_trans by (fastforce elim!: returns_mono)

lemma wait_same:
  assumes "moves p a es st s w w'" and "unit w p a st0 s0"
  shows "wait_events w' p = wait_events w p" "wait_state w' st = wait_state w st" "wait_shape w' s = wait_shape w s"
  using moves_same [OF assms] moves_flags [OF assms(1)]
  by (simp_all add: wait_events_def master_events_def wait_state_def wait_shape_def)

text \<open>Setting the state and waiting: the end of \<open>vrrp_state_i2b\<close>.\<close>

lemma back_and_wait:
  assumes u: "unit w p a st s" and q: "able w s"
  shows "does (bnd (set_state (Some p) VRRP_STATE_BACK w) (\<lambda>w. bnd (wait_for_master (Some p) w) (\<lambda>w. Inr (y, w))))
    p a y (wait_events w p) (wait_state w VRRP_STATE_BACK) (wait_shape w s) w"
proof -
  have "does (bnd (set_state (Some p) VRRP_STATE_BACK w) (\<lambda>w. bnd (wait_for_master (Some p) w) (\<lambda>w. Inr (y, w))))
    p a y ([] @ wait_events w p) (wait_state w VRRP_STATE_BACK) (wait_shape w s) w"
  proof (rule does_bndw [OF moves_state [OF u]])
    fix w1 assume m: "moves p a [] VRRP_STATE_BACK s w w1" and u1: "unit w1 p a VRRP_STATE_BACK s"
    from q able_moves [OF m] have "able w1 s" by simp
    from does_retw [OF wait_moves [OF u1 this]] wait_same [OF m u]
    show "does (bnd (wait_for_master (Some p) w1) (\<lambda>w. Inr (y, w))) p a y (wait_events w p)
        (wait_state w VRRP_STATE_BACK) (wait_shape w s) w1"
      by simp
  qed
  then show ?thesis by simp
qed

lemma i2b_does:
  assumes u: "unit w p a st s" and q: "able w (shape_enq s)" and l: "\<not> adv_q_lock w"
  shows "does (vrrp_state_i2b (Some p) w) p a 0 (wait_events w p) (wait_state w VRRP_STATE_BACK)
    (wait_shape w (shape_enq s)) w"
proof -
  obtain d where d: "dload (Some p) w = Inr d" "ds_vr d = Some a" using unit_load(1) [OF u] by blast
  have body: "does (bnd (set_adv_timer (Some p) (Some a) w) (\<lambda>w. bnd (locked (vrrp_enqueue_impl (Some a)) w)
      (\<lambda>w. Inr ((), w)))) p a () ([] @ []) st (shape_enq s) w"
    by (rule does_bndw [OF moves_timer [OF u]])
      (use l able_enq [OF q] moves_lock able_moves in \<open>auto intro!: does_retw locked_enq\<close>)
  have "does (vrrp_state_i2b (Some p) w) p a 0 ([] @ wait_events w p) (wait_state w VRRP_STATE_BACK)
    (wait_shape w (shape_enq s)) w"
    unfolding vrrp_state_i2b_def d bnd_simps
  proof (rule does_bnd, rule does_loop, rule body [unfolded append_Nil], clarify)
    fix w' assume m: "moves p a [] st (shape_enq s) w w'" and u': "unit w' p a st (shape_enq s)"
    from q able_moves [OF m] have "able w' (shape_enq s)" by simp
    from back_and_wait [OF u' this, of VRRP_SUCCESS] wait_same [OF m u]
    show "does (bnd (set_state (Some p) VRRP_STATE_BACK w') (\<lambda>w. bnd (wait_for_master (Some p) w)
        (\<lambda>w. Inr (VRRP_SUCCESS, w)))) p a 0 (wait_events w p) (wait_state w VRRP_STATE_BACK) (wait_shape w (shape_enq s)) w'"
      by (simp add: wait_state_def wait_shape_def moves_flags [OF m])
  qed
  then show ?thesis by simp
qed

lemma i2m_does:
  assumes u: "unit w p a st s" and q: "able w (shape_enq s)" and l: "\<not> adv_q_lock w"
  shows "does (vrrp_state_i2m (Some p) w) p a (stack_junk (os w) 2 (trace w)) [fork_event (vrec w p)]
    VRRP_STATE_MAST (shape_enq s) w"
proof -
  let ?y = "stack_junk (os w) 2 (trace w)"
  obtain d where d: "dload (Some p) w = Inr d" "ds_vr d = Some a" using unit_load(1) [OF u] by blast
  have body: "does (bnd (set_adv_timer (Some p) (Some a) w) (\<lambda>w. bnd (locked (vrrp_enqueue_impl (Some a)) w)
      (\<lambda>w. Inr ((VRRP_SUCCESS, ?y), w)))) p a (VRRP_SUCCESS, ?y) ([] @ []) st (shape_enq s) w"
    by (rule does_bndw [OF moves_timer [OF u]])
      (use l able_enq [OF q] moves_lock able_moves in \<open>auto intro!: does_retw locked_enq\<close>)
  have "does (vrrp_state_i2m (Some p) w) p a ?y ([] @ [] @ [fork_event (vrec w p)]) VRRP_STATE_MAST (shape_enq s) w"
    unfolding vrrp_state_i2m_def d bnd_simps
  proof (rule does_bnd [where x = "(VRRP_SUCCESS, ?y)" and st = st and s = "shape_enq s"], rule does_loop, goal_cases)
    case 1
    show ?case using body by (simp add: vrrp_master_def)
  next
    case (2 w1)
    have "does (bnd (set_state (Some p) VRRP_STATE_MAST w1) (\<lambda>w. bnd (vrrp_state_execution INIT_TO_MAST (Some p) w)
        (\<lambda>(_, w). Inr (?y, w)))) p a ?y ([] @ [fork_event (vrec w p)]) VRRP_STATE_MAST (shape_enq s) w1"
    proof (rule does_bndw [OF moves_state [OF 2(2)]])
      fix w2 assume m2: "moves p a [] VRRP_STATE_MAST (shape_enq s) w1 w2" and u2: "unit w2 p a VRRP_STATE_MAST (shape_enq s)"
      have m: "moves p a [] VRRP_STATE_MAST (shape_enq s) w w2" using moves_trans [OF 2(1) m2] by simp
      have "able w2 (shape_enq s)" using q able_moves [OF m] by simp
      from does_start [OF u2 this, of INIT_TO_MAST "\<lambda>w. Inr (?y, w)" ?y "[]"] moves_same(1) [OF m u]
      show "does (bnd (vrrp_state_execution INIT_TO_MAST (Some p) w2) (\<lambda>(_, w). Inr (?y, w))) p a ?y
          [fork_event (vrec w p)] VRRP_STATE_MAST (shape_enq s) w2"
        by (auto intro: does_Inr)
    qed
    then show ?case by simp
  qed
  then show ?thesis by simp
qed

lemma m2b_does:
  assumes u: "unit w p a st s" and q: "able w s" and l: "\<not> adv_q_lock w"
  shows "goes_down (vrrp_state_m2b (Some p) w) p a (wait_events w p) (wait_state w VRRP_STATE_BACK)
    (wait_shape w (shape_enq (shape_rm s))) w"
proof -
  let ?s = "shape_enq (shape_rm s)"
  obtain d where d: "dload (Some p) w = Inr d" "ds_vr d = Some a" using unit_load(1) [OF u] by blast
  have loop: "does (for_vrs (\<lambda>vri ret w. let r = vrrp_unmaster vri in
            if r \<noteq> VRRP_SUCCESS then Inr (r, w)
            else bnd (locked (requeue (Some p) vri) w) (\<lambda>w. Inr (ret, w))) (Some a) VRRP_SUCCESS w) p a VRRP_SUCCESS [] st ?s w"
    by (rule does_loop) (use does_retw [OF locked_requeue [OF u l q]] in \<open>simp add: vrrp_unmaster_def\<close>)
  have down: "goes_down (bnd (set_state (Some p) VRRP_STATE_BACK w1) (\<lambda>w.
      bnd (vrrp_state_execution MAST_TO_BACK (Some p) w) (\<lambda>(_, w).
      bnd (wait_for_master (Some p) w) (\<lambda>w. Inr (VRRP_SUCCESS, w))))) p a (wait_events w p)
      (wait_state w VRRP_STATE_BACK) (wait_shape w ?s) w" if m1: "moves p a [] st ?s w w1" and u1: "unit w1 p a st ?s" for w1
  proof (rule goes_down_after [OF m1 moves_state [OF u1]], rule stop_step [OF _ u q])
    fix w3 es assume m3: "moves p a es VRRP_STATE_BACK ?s w w3" and u3: "unit w3 p a VRRP_STATE_BACK ?s"
    from able_requeue [OF q] able_moves [OF m3] have "able w3 ?s" by simp
    from does_retw [OF wait_moves [OF u3 this], of VRRP_SUCCESS] wait_same [OF m3 u]
    show "does (bnd (wait_for_master (Some p) w3) (\<lambda>w. Inr (VRRP_SUCCESS, w))) p a 0 (wait_events w p)
      (wait_state w VRRP_STATE_BACK) (wait_shape w ?s) w3" by simp
  qed simp_all
  show ?thesis
    unfolding vrrp_state_m2b_def d bnd_simps
    by (rule goes_downI [OF loop]) (use down in \<open>simp add: bnd_assoc map_sum_bnd split_def\<close>)
qed

section \<open>What each transition does\<close>

definition demo_unit :: "u8 \<Rightarrow> ptr \<Rightarrow> world" where
  "demo_unit st q = demo_world (-1) [11 \<mapsto> demo_node 7 1 0 None None]
     [0 \<mapsto> demo_inst 0 None (Some 1) None, 1 \<mapsto> demo_inst st (Some 11) None (Some 0)] q"

lemma unit_demo: "unit (demo_unit st None) 1 11 st QEmpty" "unit (demo_unit st (Some 11)) 1 11 st QOnly"
  by (simp_all add: unit_def shaped_def demo_unit_def)

lemma able_demo: "able (demo_unit st q) s" "\<not> adv_q_lock (demo_unit st q)"
  by (simp_all add: able_def demo_unit_def no_oom_def)

lemma demo_unit_vr [simp]: "the_vr (demo_unit st q) (Suc 0) = demo_node 7 1 0 None None"
  "vrec (demo_unit st q) (Suc 0) = demo_vr 7" "pid (the_inst (demo_unit st q) (Suc 0)) = 0" "acts (demo_unit st q) = []"
  by (simp_all add: vrec_def the_vr_def the_inst_def demo_unit_def acts_def)

lemma find_False [simp]: "List.find (\<lambda>x. False) xs = None"
  by (induction xs) simp_all

lemma no_master_demo: "any_master_up (demo_unit st q) = 0"
  by (simp add: any_master_up_def demo_unit_def)

text \<open>
  C4: A backup that takes over starts the router process for its interface and virtual MAC, sets its
  state to MASTER and an alarm after one interval, and is left queued; it asks nothing else of the
  system, and the call reports success even when \<open>fork\<close> failed.
\<close>

theorem takeover_spec:
  assumes "unit w p a st s" and "able w s"
  shows "returns (vrrp_state_b2m (Some p) w) (\<lambda>(r, w'). r = VRRP_SUCCESS \<and>
    unit w' p a VRRP_STATE_MAST (shape_enq (shape_rm s)) \<and> st_frame (Some p) w w' \<and>
    acts w' = acts w @ [fork_event (vrec w p), EvAlarm (delay (attr (the_vr w p)))])"
  using b2m_does [OF assms] by (auto simp: does_def moves_def master_events_def elim!: returns_mono)

theorem takeover_spec_witness:
  "returns (vrrp_state_b2m (Some 1) (demo_unit 3 (Some 11))) (\<lambda>(r, w'). r = 0 \<and> unit w' 1 11 2 QOnly \<and>
    acts w' = [EvFork [101, 116, 104, 48] (ether_ntoa [0, 0, 0x5e, 0, 1, 7]), EvAlarm 1])"
  by (rule returns_mono [OF takeover_spec [OF unit_demo(2) able_demo(1)]]) (auto simp: fork_event_def)

text \<open>
  C5: Starting an instance queues its router and waits one interval as a backup. If no VRID was
  heard by then it takes over (the router process, the alarm, state MASTER), otherwise it stays a
  backup; either way the call reports success.
\<close>

theorem startup_spec:
  assumes "unit w p a st QEmpty" and "able w QEmpty" and "\<not> adv_q_lock w"
  shows "returns (vrrp_state_i2b (Some p) w) (\<lambda>(r, w'). r = VRRP_SUCCESS \<and>
    unit w' p a (if any_master_up w = 0 then VRRP_STATE_MAST else VRRP_STATE_BACK) QOnly \<and>
    acts w' = acts w @ EvSleep (delay (attr (the_vr w p))) # (if any_master_up w = 0
      then [fork_event (vrec w p), EvAlarm (delay (attr (the_vr w p)))] else []))"
  using i2b_does [OF assms(1) able_only [OF assms(2)] assms(3)]
  by (auto simp: does_def moves_def wait_events_def wait_state_def wait_shape_def master_events_def elim!: returns_mono)

theorem startup_spec_witness:
  "returns (vrrp_state_i2b (Some 1) (demo_unit 1 None)) (\<lambda>(r, w'). r = 0 \<and> unit w' 1 11 2 QOnly)"
  by (rule returns_mono [OF startup_spec [OF unit_demo(1) able_demo]]) (auto simp: no_master_demo)

text \<open>
  An instance whose priority makes it start as master becomes one, but the code the caller
  gets is the value an uninitialised local variable happened to have.
\<close>

theorem i2m_returns_garbage:
  assumes "unit w p a st QEmpty" and "able w QEmpty" and "\<not> adv_q_lock w"
  shows "returns (vrrp_state_i2m (Some p) w) (\<lambda>(r, w'). r = stack_junk (os w) 2 (trace w) \<and>
    unit w' p a VRRP_STATE_MAST QOnly \<and> acts w' = acts w @ [fork_event (vrec w p)])"
  using i2m_does [OF assms(1) able_only [OF assms(2)] assms(3)] by (auto simp: does_def moves_def elim!: returns_mono)

theorem i2m_returns_garbage_witness:
  "returns (vrrp_state_i2m (Some 1) (demo_unit 1 None)) (\<lambda>(r, w'). r = 0xBEEF)"
  by (rule returns_mono [OF i2m_returns_garbage [OF unit_demo(1) able_demo]]) (auto simp: demo_unit_def demo_os_def)

text \<open>
  C6: A master that is shut down leaves the queue, asks for the TTL of a last advertisement of priority 0, writes
  it exactly if that call fails, interrupts its router process, in this order, and is in state INIT. A master that
  gives way does the same, but goes back to the queue and waits one interval as a backup; if no VRID was heard by then
  it takes over again and is in state MASTER, otherwise it stays a backup.
\<close>

theorem step_down_spec:
  assumes u: "unit w p a st QOnly" and q: "able w QOnly" "\<not> adv_q_lock w"
  shows "returns (vrrp_state_m2i (Some p) w) (\<lambda>(r, w'). r = VRRP_SUCCESS \<and> unit w' p a VRRP_STATE_INIT QEmpty \<and>
      (\<exists>es. quits w p es w' \<and> acts w' = acts w @ es)) \<and>
    returns (vrrp_state_m2b (Some p) w) (\<lambda>(r, w'). r = VRRP_SUCCESS \<and>
      unit w' p a (if any_master_up w = 0 then VRRP_STATE_MAST else VRRP_STATE_BACK) QOnly \<and>
      (\<exists>es. quits w p es w' \<and> acts w' = acts w @ es @ EvSleep (delay (attr (the_vr w p))) # (if any_master_up w = 0
        then [fork_event (vrec w p), EvAlarm (delay (attr (the_vr w p)))] else [])))"
proof
  show "returns (vrrp_state_m2i (Some p) w) (\<lambda>(r, w'). r = VRRP_SUCCESS \<and> unit w' p a VRRP_STATE_INIT QEmpty \<and>
      (\<exists>es. quits w p es w' \<and> acts w' = acts w @ es))"
    using m2i_does [OF u q] by (fastforce simp: goes_down_def moves_def elim!: returns_mono)
  show "returns (vrrp_state_m2b (Some p) w) (\<lambda>(r, w'). r = VRRP_SUCCESS \<and>
      unit w' p a (if any_master_up w = 0 then VRRP_STATE_MAST else VRRP_STATE_BACK) QOnly \<and>
      (\<exists>es. quits w p es w' \<and> acts w' = acts w @ es @ EvSleep (delay (attr (the_vr w p))) # (if any_master_up w = 0
        then [fork_event (vrec w p), EvAlarm (delay (attr (the_vr w p)))] else [])))"
    by (rule returns_mono [OF m2b_does [OF u q, unfolded goes_down_def]])
      (auto simp: moves_def wait_shape_def wait_state_def wait_events_def master_events_def)
qed

theorem step_down_spec_witness:
  "returns (vrrp_state_m2i (Some 1) (demo_unit 2 (Some 11))) (\<lambda>(r, w'). r = 0 \<and> unit w' 1 11 1 QEmpty \<and>
     last (acts w') = EvKill 0 2)"
  by (rule returns_mono [OF step_down_spec [OF unit_demo(2) able_demo, THEN conjunct1]])
    (auto simp: quits_def stop_events_def)

text \<open>
  A transition that takes the queue's mutex stops the daemon for good when the mutex is held,
  as it is while the timer's signal handler runs in the same thread.
\<close>

theorem transitions_deadlock:
  assumes u: "unit w p a st s" and l: "adv_q_lock w"
    and f: "f \<in> {vrrp_state_i2m, vrrp_state_i2b, vrrp_state_m2i, vrrp_state_b2i, vrrp_state_m2b}"
  shows "f (Some p) w = Inl SelfDeadlock"
proof -
  obtain d where d: "dload (Some p) w = Inr d" "ds_vr d = Some a" using unit_load(1) [OF u] by blast
  have lk: "locked g w' = Inl SelfDeadlock" if "adv_q_lock w'" for g w' using that by (simp add: locked_def)
  obtain w1 where w1: "set_adv_timer (Some p) (Some a) w = Inr w1" "adv_q_lock w1"
    using moves_timer [OF u] l moves_lock by (fastforce elim!: returnsE)
  have loop: "for_vrs g (Some a) x w = Inl SelfDeadlock" if "g (Some a) x w = Inl SelfDeadlock" for g x
    unfolding for_vrs_def by (subst loop_unfold) (simp add: that)
  show ?thesis
    using f d w1 l
    by (auto simp: vrrp_state_i2m_def vrrp_state_i2b_def vrrp_state_m2i_def vrrp_state_b2i_def vrrp_state_m2b_def
        loop lk vrrp_master_def vrrp_unmaster_def)
qed

theorem transitions_deadlock_witness:
  "vrrp_state_m2b (Some 1) ((demo_unit 2 (Some 11))\<lparr>adv_q_lock := True\<rparr>) = Inl SelfDeadlock"
  by (rule transitions_deadlock [of _ 1 11 2 QOnly]) (use unit_demo(2) [of 2] in simp_all)

end
