(* ===== verification/Lifecycle.thy ===== *)
theory Lifecycle
  imports StateMachine
begin

text \<open>
  Starting, stopping and destroying an instance by name (vrrpd_impl.c), and the timer (timer.c):
  the signal handler that serves the router at the head of the advertisement queue.
\<close>

section \<open>Commands on an instance\<close>

text \<open>The log messages index the four names of \<open>vrrp_stats\<close> with the state.\<close>

definition stat_name :: "u8 \<Rightarrow> unit res" where
  "stat_name s = (if s < 4 then Inr () else Inl OutOfBounds)"

definition vrrp_startup_inst :: "u8 \<Rightarrow> u8 list option \<Rightarrow> cint \<Rightarrow> world \<Rightarrow> (u32 \<times> world) res" where
  "vrrp_startup_inst i ifname af w =
     (if af \<noteq> AF_INET then Inr (EINVAL, w)
      else if \<not> 0 < i then Inr (EINVAL, w)
      else
        bnd (vrrp_search_inst i ifname af w) (\<lambda>v.
        if v = None then Inr (VRRP_ENOINST, w)
        else
          bnd (dload v w) (\<lambda>d.
          bnd (stat_name (state d)) (\<lambda>_.
          if state d \<noteq> VRRP_STATE_INIT then Inr (VRRP_EINVAL, w)
          else vrrp_state_i2b v w))))"

definition vrrp_shutdown_inst :: "u8 \<Rightarrow> u8 list option \<Rightarrow> cint \<Rightarrow> world \<Rightarrow> (u32 \<times> world) res" where
  "vrrp_shutdown_inst i ifname af w =
     (if af \<noteq> AF_INET then Inr (EINVAL, w)
      else if \<not> 0 < i then Inr (EINVAL, w)
      else
        bnd (vrrp_search_inst i ifname af w) (\<lambda>v.
        if v = None then Inr (VRRP_ENOINST, w)
        else
          bnd (dload v w) (\<lambda>d.
          if state d = VRRP_STATE_MAST then vrrp_state_m2i v w
          else if state d = VRRP_STATE_BACK then vrrp_state_b2i v w
          else Inr (VRRP_EINVAL, w))))"

text \<open>The two stores that take an instance out of the list.\<close>

definition unlink_inst :: "ptr \<Rightarrow> world \<Rightarrow> world res" where
  "unlink_inst i w =
     bnd (dload i w) (\<lambda>c.
     bnd (dstore (ds_prev c) (\<lambda>p. p\<lparr>ds_next := ds_next c\<rparr>) w) (\<lambda>w.
     bnd (dload i w) (\<lambda>c.
     if ds_next c \<noteq> None then dstore (ds_next c) (\<lambda>n. n\<lparr>ds_prev := ds_prev c\<rparr>) w
     else Inr w)))"

text \<open>\<open>vrrp_destroy_inst\<close> reads the state before it asks whether the instance was found.\<close>

definition vrrp_destroy_inst :: "u8 \<Rightarrow> u8 list option \<Rightarrow> cint \<Rightarrow> world \<Rightarrow> (u32 \<times> world) res" where
  "vrrp_destroy_inst i ifname af w =
     (if af \<noteq> AF_INET then Inr (EINVAL, w)
      else
        bnd (vrrp_search_inst i ifname af w) (\<lambda>curr.
        bnd (dload curr w) (\<lambda>d.
        if state d = VRRP_STATE_MAST then
          bnd (vrrp_shutdown_inst i ifname af w) (\<lambda>(_, w).
          if curr = None then Inr (VRRP_ENOINST, w)
          else
            bnd (locked (vrrp_rmqueue i ifname af) w) (\<lambda>w.
            bnd (unlink_inst curr w) (\<lambda>w.
            Inr (VRRP_SUCCESS, w))))
        else if curr = None then Inr (VRRP_ENOINST, w)
        else
          bnd (locked (vrrp_rmqueue i ifname af) w) (\<lambda>w.
          bnd (vrrp_state_execution MAST_TO_INIT curr w) (\<lambda>(_, w).
          bnd (unlink_inst curr w) (\<lambda>w.
          Inr (VRRP_SUCCESS, w)))))))"

text \<open>Advertising for every instance, once for each of its routers (vrrpd_impl.c), and vrrpd.c's own handler.\<close>

definition vrrp_send_adv_impl_more :: "ptr \<Rightarrow> world \<Rightarrow> (u32 \<times> world) res" where
  "vrrp_send_adv_impl_more v w =
     bnd (dload v w) (\<lambda>d.
     loop (\<lambda>(r, w).
       if r = None then Inr (Inr (0, w))
       else
         bnd (vrrp_send_adv v 1 w) (\<lambda>(_, w).
         bnd (vload r w) (\<lambda>n. Inr (Inl (vr_next n, w))))) (ds_vr d, w))"

definition vrrp_send_adv_impl :: "world \<Rightarrow> (u32 \<times> world) res" where
  "vrrp_send_adv_impl w =
     bnd (dload inst_runtime_list w) (\<lambda>l.
     loop (\<lambda>(v, w).
       if v = None then Inr (Inr (0, w))
       else
         bnd (vrrp_send_adv_impl_more v w) (\<lambda>(_, w).
         bnd (dload v w) (\<lambda>d. Inr (Inl (ds_next d, w))))) (ds_next l, w))"

definition vrrpd_signal_alarm :: "world \<Rightarrow> world res" where
  "vrrpd_signal_alarm w = bnd (vrrp_send_adv_impl w) (\<lambda>(_, w). Inr (emit (EvAlarm 2) w))"

section \<open>The timer\<close>

text \<open>The copies of an instance and its router that the handler sends from and never frees.\<close>

definition copy_inst :: "ptr \<Rightarrow> world \<Rightarrow> (ptr \<times> world) res" where
  "copy_inst p w =
     (let (send_vr, w) = malloc w; (send_inst, w) = malloc w in
      bnd (dload p w) (\<lambda>d.
      bnd (vload (ds_vr d) w) (\<lambda>v.
      case send_vr of None \<Rightarrow> Inl NullDeref | Some va \<Rightarrow>
      case send_inst of None \<Rightarrow> Inl NullDeref | Some ia \<Rightarrow>
        Inr (send_inst, w\<lparr>vr_heap := (vr_heap w)(va := Some v),
                          ds_heap := (ds_heap w)(ia := Some (d\<lparr>ds_vr := send_vr\<rparr>))\<rparr>))))"

text \<open>\<open>entry->timeout = ...; vrrp_enqueue_impl(entry); alarm(...)\<close>, the end of both branches.\<close>

definition rearm :: "ptr \<Rightarrow> ptr \<Rightarrow> world \<Rightarrow> world res" where
  "rearm entry next_entry w =
     bnd (vload entry w) (\<lambda>e.
     bnd (vstore entry (\<lambda>e. e\<lparr>timeout := VRRP_SEC2USEC (delay (attr e))\<rparr>) w) (\<lambda>w.
     bnd (vrrp_enqueue_impl entry w) (\<lambda>(_, w).
     bnd (vload (if next_entry = None then entry else next_entry) w) (\<lambda>n.
     Inr (emit (EvAlarm (delay (attr n))) w)))))"

definition serve :: "ptr \<Rightarrow> ptr \<Rightarrow> world \<Rightarrow> world res" where
  "serve entry next_entry w =
     bnd (vload entry w) (\<lambda>e.
     bnd (dload (parent e) w) (\<lambda>p.
     if state p = VRRP_STATE_MAST then
       bnd (copy_inst (parent e) w) (\<lambda>(send_inst, w).
       bnd (vrrp_send_adv send_inst 1 w) (\<lambda>(_, w).
       rearm entry next_entry w))
     else if state p = VRRP_STATE_BACK then
       bnd (vrrp_state_b2m (parent e) w) (\<lambda>(_, w).
       rearm entry next_entry w)
     else Inr w))"

definition signal_alarm :: "world \<Rightarrow> world res" where
  "signal_alarm w =
     bnd (lock_q w) (\<lambda>w.
     bnd (loop (\<lambda>(more, next_entry, w).
            if \<not> more then Inr (Inr w)
            else
              bnd (vrrp_dequeue w) (\<lambda>(entry, w).
              if entry = None then Inr (Inr w)
              else
                bnd (vload entry w) (\<lambda>e.
                let (more, next_entry) =
                  (if qnext e \<noteq> None \<and> timeout e = 0 then (True, qnext e) else (False, next_entry)) in
                bnd (serve entry next_entry w) (\<lambda>w. Inr (Inl (more, next_entry, w)))))) (True, None, w)) (\<lambda>w.
     Inr (unlock_q w)))"

section \<open>Taking an instance out of the list\<close>

lemma unlink_ok:
  assumes il: "inst_list w (xs @ p # ys)"
  shows "\<exists>w'. unlink_inst (Some p) w = Inr w' \<and> l_frame w w' \<and> inst_list w' (xs @ ys)"
proof -
  obtain bs b where bs: "0 # xs = bs @ [b]" by (metis append_butlast_last_id list.distinct(1))
  then have eq: "0 # xs @ zs = bs @ b # zs" for zs by (metis append.assoc append_Cons append_Nil)
  from il obtain q where path: "dpath ds_next ds_prev (ds_heap w) None (Some 0) (bs @ b # p # ys) q None"
    and vrs: "\<And>p. p \<in> set (xs @ ys) \<Longrightarrow> has_vr w p" and dist: "distinct (bs @ b # p # ys)"
    unfolding inst_list_def eq by auto
  from path obtain nb np where nb: "ds_heap w b = Some nb" and np: "ds_heap w p = Some np" "ds_prev np = Some b"
    "ds_next np = (case ys of [] \<Rightarrow> None | d # _ \<Rightarrow> Some d)"
    by (auto simp: dpath_append dest: dpath_head)
  have bp: "b \<noteq> p" using dist by auto
  have il': "inst_list (w\<lparr>ds_heap := h\<rparr>) (xs @ ys)"
    if f: "l_frame w (w\<lparr>ds_heap := h\<rparr>)" and d: "dpath ds_next ds_prev h None (Some 0) (bs @ b # ys) r None" for h r
    using vrs l_frame_vr(2) [OF f] d dist unfolding inst_list_def eq by auto
  show ?thesis
  proof (cases ys)
    case Nil
    let ?h = "(ds_heap w)(b := Some (nb\<lparr>ds_next := None\<rparr>))"
    have "dpath ds_next ds_prev ?h None (Some 0) (bs @ [b]) (Some b) None"
      using il.unlink_last [of "ds_heap w" None "Some 0" bs b p q, OF _ _ nb] path dist Nil by simp
    moreover have f: "l_frame w (w\<lparr>ds_heap := ?h\<rparr>)" by (rule l_frameI) (use nb in simp)
    ultimately show ?thesis
      using il' [OF f] nb np bp Nil by (auto simp: unlink_inst_def)
  next
    case (Cons d zs)
    with path obtain nd where nd: "ds_heap w d = Some nd" by (auto simp: dpath_append)
    let ?h = "(ds_heap w)(b := Some (nb\<lparr>ds_next := Some d\<rparr>), d := Some (nd\<lparr>ds_prev := Some b\<rparr>))"
    have "dpath ds_next ds_prev ?h None (Some 0) (bs @ b # ys) q None"
      using il.unlink_mid [of "ds_heap w" None "Some 0" bs b p d zs q None, OF _ _ nb nd] path dist Cons by simp
    moreover have f: "l_frame w (w\<lparr>ds_heap := ?h\<rparr>)" by (rule l_frameI) (use nb nd dist Cons in auto)
    moreover have "b \<noteq> d" using dist Cons by auto
    ultimately show ?thesis
      using il' [OF f] nb np nd bp Cons by (auto simp: unlink_inst_def)
  qed
qed

lemma table_unlink:
  assumes t: "table w (xs @ p # ys)" and f: "l_frame w w'" and il: "inst_list w' (xs @ ys)"
  shows "table w' (xs @ ys)"
proof -
  have "has_vr w b" if "b \<in> set (xs @ ys)" for b using t that by (auto simp: table_def inst_list_def)
  then have "the_vr w' b = the_vr w b" if "b \<in> set (xs @ ys)" for b using l_frame_vr(3) [OF f] that by blast
  then show ?thesis
    using t il fresh_link [OF _ f] by (auto simp: table_def own_vr_def vrec_def sorted_append cong: map_cong)
qed

lemma remove1_split: "p \<in> set ps \<Longrightarrow> \<exists>xs ys. ps = xs @ p # ys \<and> remove1 p ps = xs @ ys"
proof -
  assume "p \<in> set ps"
  then obtain xs ys where "ps = xs @ p # ys" "p \<notin> set xs" using split_list_first by fastforce
  then show "\<exists>xs ys. ps = xs @ p # ys \<and> remove1 p ps = xs @ ys"
    by (intro exI [of _ xs] exI [of _ ys]) (simp add: remove1_append)
qed

lemma unlink_table:
  assumes t: "table w ps" and p: "p \<in> set ps"
  shows "\<exists>w'. unlink_inst (Some p) w = Inr w' \<and> l_frame w w' \<and> table w' (remove1 p ps)"
proof -
  obtain xs ys where ps: "ps = xs @ p # ys" "remove1 p ps = xs @ ys"
    using remove1_split [OF p] by blast
  have t': "table w (xs @ p # ys)" using t unfolding ps(1) .
  then have "inst_list w (xs @ p # ys)" by (simp add: table_def)
  from unlink_ok [OF this] obtain w' where "unlink_inst (Some p) w = Inr w'" "l_frame w w'" "inst_list w' (xs @ ys)"
    by blast
  with table_unlink [OF t'] show ?thesis unfolding ps(2) by blast
qed

lemma unit_link:
  assumes "l_frame w w'" and "unit w p a st s"
  shows "unit w' p a st s"
proof -
  from assms(2) obtain d v where d: "ds_heap w p = Some d" "ds_vr d = Some a" "state d = st" "shaped w a v s"
     "vr_next v = None" "parent v = Some p" "wf_vr (vr v)" "\<exists>i. vfd v = Some i \<and> i < length (netfds w)"
    by (auto simp: unit_def)
  obtain d' where d': "ds_heap w' p = Some d'" "ds_core d' = ds_core d" by (rule l_frame_inst [OF assms(1) d(1)])
  have w': "vr_heap w' = vr_heap w" "adv_q w' = adv_q w" "netfds w' = netfds w" using assms(1) by (auto simp: l_frame_def)
  have "shaped w' a v s" using d(4) w' by (simp add: shaped_def split: qshape.splits)
  with d d' ds_core_fields [OF d'(2)] w' show ?thesis by (auto simp: unit_def)
qed

section \<open>Destroying an instance\<close>

text \<open>
  Asked to destroy an instance that does not exist, the daemon dereferences NULL: the state is
  read before the result of the search is tested.
\<close>

theorem destroy_missing_crashes:
  assumes "inst_list w ps" and "search_spec i ifname AF_INET w ps = None"
  shows "vrrp_destroy_inst i ifname AF_INET w = Inl NullDeref"
  using assms by (simp add: vrrp_destroy_inst_def search_inst_eq)

theorem destroy_missing_crashes_witness:
  "vrrp_destroy_inst 9 None 2 demo_one = Inl NullDeref"
proof -
  have "inst_list demo_one [1]" using table_demo_one by (simp add: table_def)
  from destroy_missing_crashes [OF this] show ?thesis
    by (simp add: search_spec_def the_only_def part_match_def no_name_def)
qed

lemma search_cong:
  "(\<And>p. p \<in> set ps \<Longrightarrow> vrec w' p = vrec w p) \<Longrightarrow> search_spec i ifname af w' ps = search_spec i ifname af w ps"
  by (simp add: search_spec_def cong: find_cong filter_cong)

lemma moves_table:
  assumes m: "moves p a es st s w w'" and t: "table w ps"
  shows "table w' ps" and "search_spec i ifname af w' ps = search_spec i ifname af w ps"
    and "b \<in> set ps \<Longrightarrow> vrec w' b = vrec w b"
proof -
  have f: "st_frame (Some p) w w'" using m by (simp add: moves_def)
  show "table w' ps" by (rule st_frame_table [OF f t])
  have "has_vr w b" if "b \<in> set ps" for b using t that by (auto simp: table_def inst_list_def)
  from vr_core_fields(2) [OF st_frame_inst(3) [OF f this]]
  have v: "vrec w' b = vrec w b" if "b \<in> set ps" for b using that by (simp add: vrec_def)
  then show "b \<in> set ps \<Longrightarrow> vrec w' b = vrec w b" .
  from v show "search_spec i ifname af w' ps = search_spec i ifname af w ps" by (rule search_cong)
qed

text \<open>The router alone on the queue, or not on it, is not found by name.\<close>

lemma rmqueue_idle:
  assumes il: "inst_list w ps" and s: "search_spec i ifname af w ps = Some p" and u: "unit w p a st s"
    and sh: "s \<noteq> QSelf"
  shows "\<exists>r. vrrp_rmqueue i ifname af w = Inr (r, w)"
proof -
  from u sh obtain d v where v: "ds_heap w p = Some d" "ds_vr d = Some a" "vr_heap w a = Some v" "qnext v = None" "qprev v = None"
    by (cases s) (auto simp: unit_def shaped_def)
  with s show ?thesis by (auto simp: vrrp_rmqueue_def search_vr_eq [OF il] the_inst_def)
qed

lemma locked_rmqueue_idle:
  assumes il: "inst_list w ps" and s: "search_spec i ifname af w ps = Some p" and u: "unit w p a st s"
    and sh: "s \<noteq> QSelf" and l: "\<not> adv_q_lock w"
  shows "locked (vrrp_rmqueue i ifname af) w = Inr w"
proof -
  let ?w = "w\<lparr>adv_q_lock := True\<rparr>"
  have "inst_list ?w ps" using il by (simp add: inst_list_def has_vr_def)
  moreover have "search_spec i ifname af ?w ps = Some p"
    using s search_cong [of ps ?w w i ifname af] by (simp add: vrec_def the_vr_def the_inst_def)
  moreover have "unit ?w p a st s" using u by simp
  ultimately obtain r where "vrrp_rmqueue i ifname af ?w = Inr (r, ?w)" using rmqueue_idle sh by blast
  then show ?thesis using l by (simp add: locked_def unlock_q_def)
qed

text \<open>What taking the instance out of the list leaves alone.\<close>

lemma quits_link: "l_frame w1 w2 \<Longrightarrow> quits w p es w1 \<Longrightarrow> quits w p es w2 \<and> acts w2 = acts w1"
  by (auto simp: l_frame_def acts_def intro: quits_mono)

lemma search_zero_rm: "vrrp_rmqueue 0 ifname AF_INET w = Inr (EINVAL, w)"
  by (simp add: vrrp_rmqueue_def queue_args_ok_def)

lemma destroy_master_ok:
  assumes t: "table w ps" and u: "unit w p a VRRP_STATE_MAST s" and q: "able w s" "\<not> adv_q_lock w"
    and s: "search_spec i ifname AF_INET w ps = Some p" and i: "0 < i"
  shows "returns (vrrp_destroy_inst i ifname AF_INET w) (\<lambda>(r, w'). r = VRRP_SUCCESS \<and>
    table w' (remove1 p ps) \<and> unit w' p a VRRP_STATE_INIT (shape_rm s) \<and> (\<exists>es. quits w p es w' \<and> acts w' = acts w @ es))"
proof -
  have il: "inst_list w ps" using t by (simp add: table_def)
  have p: "p \<in> set ps" by (rule search_spec_member [OF s])
  obtain d where d: "dload (Some p) w = Inr d" "state d = VRRP_STATE_MAST" using unit_load(1) [OF u] by blast
  obtain w1 es where m2i: "vrrp_state_m2i (Some p) w = Inr (0, w1)" and es: "quits w p es w1"
    and m: "moves p a es VRRP_STATE_INIT (shape_rm s) w w1"
    using m2i_does [OF u q] by (auto simp: goes_down_def elim!: returnsE)
  have l1: "\<not> adv_q_lock w1" using moves_lock [OF m] q by simp
  have shut: "vrrp_shutdown_inst i ifname 2 w = Inr (0, w1)"
    using i d m2i s by (simp add: vrrp_shutdown_inst_def search_inst_eq [OF il])
  have t1: "table w1 ps" and s1: "search_spec i ifname AF_INET w1 ps = Some p"
    using moves_table [OF m t] s by auto
  have "shape_rm s \<noteq> QSelf" by (cases s) simp_all
  then have rm: "locked (vrrp_rmqueue i ifname AF_INET) w1 = Inr w1"
    by (intro locked_rmqueue_idle [OF _ s1 moves_unit [OF m] _ l1]) (use t1 in \<open>simp_all add: table_def\<close>)
  obtain w2 where w2: "unlink_inst (Some p) w1 = Inr w2" "l_frame w1 w2" "table w2 (remove1 p ps)"
    using unlink_table [OF t1 p] by blast
  have "vrrp_destroy_inst i ifname AF_INET w = Inr (0, w2)"
    using d shut rm w2(1) s by (simp add: vrrp_destroy_inst_def search_inst_eq [OF il])
  then show ?thesis
    using w2(3) unit_link [OF w2(2) moves_unit [OF m]] quits_link [OF w2(2) es] m by (auto simp: moves_def)
qed

text \<open>With the VRID 0 the search may find the master, but the shutdown and the removal from the queue refuse.\<close>

lemma destroy_wild_ok:
  assumes t: "table w ps" and u: "unit w p a VRRP_STATE_MAST s" and l: "\<not> adv_q_lock w"
    and s: "search_spec 0 ifname AF_INET w ps = Some p"
  shows "returns (vrrp_destroy_inst 0 ifname AF_INET w) (\<lambda>(r, w'). r = VRRP_SUCCESS \<and>
    table w' (remove1 p ps) \<and> unit w' p a VRRP_STATE_MAST s \<and> acts w' = acts w)"
proof -
  have il: "inst_list w ps" using t by (simp add: table_def)
  have p: "p \<in> set ps" by (rule search_spec_member [OF s])
  obtain d where d: "dload (Some p) w = Inr d" "state d = VRRP_STATE_MAST" using unit_load(1) [OF u] by blast
  have shut: "vrrp_shutdown_inst 0 ifname AF_INET w = Inr (EINVAL, w)" by (simp add: vrrp_shutdown_inst_def)
  have rm: "locked (vrrp_rmqueue 0 ifname AF_INET) w = Inr w"
    using l search_zero_rm by (simp add: locked_def unlock_q_def)
  obtain w2 where w2: "unlink_inst (Some p) w = Inr w2" "l_frame w w2" "table w2 (remove1 p ps)"
    using unlink_table [OF t p] by blast
  have "vrrp_destroy_inst 0 ifname AF_INET w = Inr (0, w2)"
    using d shut rm w2(1) s by (simp add: vrrp_destroy_inst_def search_inst_eq [OF il])
  moreover have "acts w2 = acts w" using w2(2) by (auto simp: l_frame_def acts_def)
  ultimately show ?thesis using w2(3) unit_link [OF w2(2) u] by simp
qed

text \<open>
  C19: Destroying a master. Asked for by its VRID, it leaves the queue (one that is linked to itself stays there, alone),
  announces its end (which is written exactly if the call for the TTL fails), interrupts its router process and is in
  state INIT, as in a shutdown. Found by the wildcard
  VRID 0 it is not stopped: the shutdown refuses the VRID, and nobody looks at what it says. Either way the
  table loses exactly this instance and the call reports success; in the second case its router process and its entry on
  the queue live on.
\<close>

theorem destroy_master_spec:
  assumes t: "table w ps" and u: "unit w p a VRRP_STATE_MAST s" and q: "able w s" "\<not> adv_q_lock w"
    and s: "search_spec i ifname AF_INET w ps = Some p"
  shows "returns (vrrp_destroy_inst i ifname AF_INET w) (\<lambda>(r, w'). r = VRRP_SUCCESS \<and> table w' (remove1 p ps) \<and>
    (if i = 0 then unit w' p a VRRP_STATE_MAST s \<and> acts w' = acts w
     else unit w' p a VRRP_STATE_INIT (shape_rm s) \<and> (\<exists>es. quits w p es w' \<and> acts w' = acts w @ es)))"
proof (cases "i = 0")
  case True
  with destroy_wild_ok [OF t u q(2)] s show ?thesis by (auto elim!: returns_mono)
next
  case False
  then have "0 < i" by (simp add: word_gt_0)
  from destroy_master_ok [OF t u q s this] False show ?thesis by (auto elim!: returns_mono)
qed

lemma table_demo_unit: "table (demo_unit st q) [1]"
  by (simp add: table_def inst_list_def own_vr_def)
    (simp add: fresh_above_def has_vr_def demo_unit_def)

lemma search_demo_unit: "search_spec 7 None 2 (demo_unit st q) [1] = Some 1"
  by (simp add: search_spec_def the_only_def part_match_def no_name_def)

theorem destroy_master_spec_witness:
  "returns (vrrp_destroy_inst 7 None 2 (demo_unit 2 (Some 11))) (\<lambda>(r, w'). r = 0 \<and> table w' [] \<and> adv_q w' = None \<and>
     last (acts w') = EvKill 0 2)"
proof -
  have u: "unit (demo_unit 2 (Some 11)) 1 11 VRRP_STATE_MAST QOnly" using unit_demo(2) by simp
  from destroy_master_spec [OF table_demo_unit u able_demo, of 7 None] search_demo_unit show ?thesis
    by (auto simp: quits_def stop_events_def unit_def shaped_def elim!: returns_mono)
qed

text \<open>Removal by name takes only a router off the queue that is linked to itself, and it stays the queue's head.\<close>

definition left :: "u8 \<Rightarrow> qshape \<Rightarrow> qshape" where
  "left i s = (if s = QSelf \<and> i \<noteq> 0 then QOnly else s)"

lemma left_simps [simp]: "left i QEmpty = QEmpty" "left i QOnly = QOnly" "left i s \<noteq> QEmpty \<longleftrightarrow> s \<noteq> QEmpty"
  "s \<noteq> QSelf \<Longrightarrow> left i s = s"
  by (auto simp: left_def)

lemma rmqueue_by_name:
  assumes il: "inst_list w ps" and s: "search_spec i ifname AF_INET w ps = Some p" and u: "unit w p a st QSelf" and i: "i \<noteq> 0"
  shows "vrrp_rmqueue i ifname AF_INET w = vrrp_rmqueue_impl (Some a) w"
proof -
  from u obtain d v where "ds_heap w p = Some d" "ds_vr d = Some a" "vr_heap w a = Some v" "qprev v = Some a"
    by (auto simp: unit_def shaped_def)
  with s i show ?thesis
    by (simp add: vrrp_rmqueue_def queue_args_ok_def search_vr_eq [OF il] the_inst_def word_gt_0)
qed

lemma locked_by_name:
  assumes t: "table w ps" and s: "search_spec i ifname AF_INET w ps = Some p" and u: "unit w p a st s" and l: "\<not> adv_q_lock w"
  shows "returns (locked (vrrp_rmqueue i ifname AF_INET) w) (moves p a [] st (left i s) w)"
proof -
  have il: "inst_list w ps" using t by (simp add: table_def)
  show ?thesis
  proof (cases "s = QSelf \<and> i \<noteq> 0")
    case True
    let ?w = "w\<lparr>adv_q_lock := True\<rparr>"
    have "inst_list ?w ps" using il by (simp add: inst_list_def has_vr_def)
    moreover have "search_spec i ifname AF_INET ?w ps = Some p"
      using s search_cong [of ps ?w w i ifname AF_INET] by (simp add: vrec_def the_vr_def the_inst_def)
    moreover have "unit ?w p a st QSelf" using u True by simp
    ultimately have "locked (vrrp_rmqueue i ifname AF_INET) w = locked (vrrp_rmqueue_impl (Some a)) w"
      using rmqueue_by_name True l by (simp add: locked_def lock_q_def)
    with locked_rm [OF u l] True show ?thesis by (simp add: left_def)
  next
    case False
    then have "locked (vrrp_rmqueue i ifname AF_INET) w = Inr w"
      using locked_rmqueue_idle [OF il s u _ l] search_zero_rm l
      by (cases "s = QSelf") (auto simp: locked_def lock_q_def unlock_q_def)
    with False moves_refl [OF u] show ?thesis by (auto simp: left_def)
  qed
qed

lemma destroy_backup_ok:
  assumes t: "table w ps" and u: "unit w p a st s" and st: "st \<noteq> VRRP_STATE_MAST"
    and q: "able w s" "\<not> adv_q_lock w" and s: "search_spec i ifname AF_INET w ps = Some p"
  shows "returns (vrrp_destroy_inst i ifname AF_INET w) (\<lambda>(r, w'). r = VRRP_SUCCESS \<and>
    table w' (remove1 p ps) \<and> unit w' p a st (left i s) \<and> adv_q w' = adv_q w \<and>
    os w' = os w \<and> adv_q_lock w' = adv_q_lock w \<and> vrec w' p = vrec w p \<and> attr (the_vr w' p) = attr (the_vr w p) \<and>
    (\<exists>es. quits w p es w' \<and> acts w' = acts w @ es))"
proof -
  have il: "inst_list w ps" using t by (simp add: table_def)
  have p: "p \<in> set ps" by (rule search_spec_member [OF s])
  obtain d where d: "dload (Some p) w = Inr d" "state d \<noteq> VRRP_STATE_MAST" using unit_load(1) [OF u] st by blast
  obtain w0 where rm: "locked (vrrp_rmqueue i ifname AF_INET) w = Inr w0" and m0: "moves p a [] st (left i s) w w0"
    using locked_by_name [OF t s u q(2)] by (auto elim: returnsE)
  have "able w0 (left i s)" using q(1) able_moves [OF m0] by (cases s) (auto simp: left_def able_def)
  from moves_stop [OF moves_unit [OF m0] this] obtain r w1 es where ex: "vrrp_state_execution MAST_TO_INIT (Some p) w0 = Inr (r, w1)"
    and m1: "moves p a es st (left i s) w0 w1" and f1: "quits w0 p es w1"
    by (fastforce elim!: returnsE)
  have m: "moves p a es st (left i s) w w1" using moves_trans [OF m0 m1] by simp
  have f: "quits w p es w1" by (rule quits_from [OF m0 u f1])
  obtain w2 where w2: "unlink_inst (Some p) w1 = Inr w2" "l_frame w1 w2" "table w2 (remove1 p ps)"
    using unlink_table [OF moves_table(1) [OF m t] p] by blast
  have "vrrp_destroy_inst i ifname AF_INET w = Inr (0, w2)"
    using d rm ex w2(1) s by (simp add: vrrp_destroy_inst_def search_inst_eq [OF il])
  moreover have u2: "unit w2 p a st (left i s)" by (rule unit_link [OF w2(2) moves_unit [OF m]])
  moreover have "quits w p es w2 \<and> acts w2 = acts w1" by (rule quits_link [OF w2(2) f])
  moreover have "adv_q w2 = adv_q w"
    using u u2 by (cases s) (auto simp: unit_def shaped_def left_def split: if_splits)
  moreover have "os w2 = os w \<and> adv_q_lock w2 = adv_q_lock w"
    using w2(2) m by (auto simp: l_frame_def moves_def st_frame_def)
  moreover have "has_vr w1 p" using moves_unit [OF m] by (auto simp: unit_def has_vr_def shaped_def)
  with l_frame_vr(3) [OF w2(2)] moves_same [OF m u] have "vrec w2 p = vrec w p \<and> attr (the_vr w2 p) = attr (the_vr w p)"
    by (simp add: vrec_def)
  ultimately show ?thesis using w2(3) m by (auto simp: moves_def)
qed

text \<open>
  C20: Destroying an instance that is not a master (a backup, or one that was never started) makes, like a master
  that goes down, an advertisement of priority 0, which is written exactly if the call for the TTL fails, and sends an
  interrupt to the process number the instance holds, which is 0, every process of the group, when no router was ever
  started for it. The head of the queue stays what it is: the router of a backup remains queued when its instance has
  left the table, and one that was linked to itself remains there alone.
\<close>

theorem destroy_backup_spec:
  assumes t: "table w ps" and u: "unit w p a st s" and st: "st \<noteq> VRRP_STATE_MAST"
    and q: "able w s" "\<not> adv_q_lock w" and s: "search_spec i ifname AF_INET w ps = Some p"
  shows "returns (vrrp_destroy_inst i ifname AF_INET w) (\<lambda>(r, w'). r = VRRP_SUCCESS \<and>
    table w' (remove1 p ps) \<and> unit w' p a st (if s = QSelf \<and> i \<noteq> 0 then QOnly else s) \<and> adv_q w' = adv_q w \<and>
    (\<exists>es. quits w p es w' \<and> acts w' = acts w @ es))"
  by (rule returns_mono [OF destroy_backup_ok [OF assms]]) (auto simp: left_def)

theorem destroy_backup_spec_witness:
  "returns (vrrp_destroy_inst 7 None 2 (demo_unit 3 (Some 11))) (\<lambda>(r, w'). table w' [] \<and> adv_q w' = Some 11 \<and>
     last (acts w') = EvKill 0 2)"
proof -
  have "adv_q (demo_unit 3 (Some 11)) = Some 11" by (simp add: demo_unit_def)
  with destroy_backup_spec [OF table_demo_unit unit_demo(2) _ able_demo, of 3 7 None] search_demo_unit show ?thesis
    by (auto simp: quits_def stop_events_def elim!: returns_mono)
qed

section \<open>What the timer handler leaves alone\<close>

text \<open>
  \<open>steady p w w'\<close>: the table and everything else but the instance \<open>p\<close>, the queue and memory that was
  free is as it was. It allows for the copies the handler leaves behind.
\<close>

definition steady :: "nat \<Rightarrow> world \<Rightarrow> world \<Rightarrow> bool" where
  "steady p w w' \<longleftrightarrow>
     (\<forall>ps. table w ps \<longrightarrow> table w' ps \<and> (\<forall>b \<in> set ps. vrec w' b = vrec w b \<and>
        attr (the_vr w' b) = attr (the_vr w b) \<and> (b \<noteq> p \<longrightarrow> the_inst w' b = the_inst w b))) \<and>
     (fresh_above w \<longrightarrow> fresh_above w') \<and>
     os w' = os w \<and> adv_q_lock w' = adv_q_lock w \<and> flag w' = flag w \<and> netfds w' = netfds w \<and>
     pollfds w' = pollfds w \<and> poll_intfs w' = poll_intfs w \<and> poll_afs w' = poll_afs w"

lemma steadyD:
  assumes "steady p w w'" and "table w ps"
  shows "table w' ps" and "b \<in> set ps \<Longrightarrow> vrec w' b = vrec w b"
    and "b \<in> set ps \<Longrightarrow> attr (the_vr w' b) = attr (the_vr w b)"
    and "b \<in> set ps \<Longrightarrow> b \<noteq> p \<Longrightarrow> the_inst w' b = the_inst w b"
  using assms by (simp_all add: steady_def)

lemma steady_trans:
  assumes "steady p w w'" and "steady p w' w''"
  shows "steady p w w''"
proof -
  have "table w'' ps \<and> (\<forall>b \<in> set ps. vrec w'' b = vrec w b \<and>
      attr (the_vr w'' b) = attr (the_vr w b) \<and> (b \<noteq> p \<longrightarrow> the_inst w'' b = the_inst w b))" if "table w ps" for ps
    using steadyD [OF assms(1) that] steadyD [OF assms(2) steadyD(1) [OF assms(1) that]] by simp
  with assms show ?thesis by (simp add: steady_def)
qed

lemma st_frame_fresh: "st_frame p w w' \<Longrightarrow> fresh_above w \<Longrightarrow> fresh_above w'"
  unfolding st_frame_def fresh_above_def
  by (metis (no_types, lifting) map_option_is_None order_trans less_le_trans)

lemma st_frame_steady: "st_frame (Some p) w w' \<Longrightarrow> steady p w w'"
proof -
  assume f: "st_frame (Some p) w w'"
  have "vrec w' b = vrec w b \<and> attr (the_vr w' b) = attr (the_vr w b) \<and> (b \<noteq> p \<longrightarrow> the_inst w' b = the_inst w b)"
    if "table w ps" "b \<in> set ps" for ps b
  proof -
    have h: "has_vr w b" using that by (auto simp: table_def inst_list_def)
    show ?thesis
      using vr_core_fields [OF st_frame_inst(3) [OF f h]] st_frame_inst(4) [OF f h] by (auto simp: vrec_def)
  qed
  then show ?thesis
    using f st_frame_table [OF f] st_frame_fresh [OF f] by (auto simp: steady_def st_frame_def)
qed

text \<open>\<open>fires\<close> is \<open>moves\<close> with this weaker frame.\<close>

definition fires :: "nat \<Rightarrow> nat \<Rightarrow> event list \<Rightarrow> u8 \<Rightarrow> qshape \<Rightarrow> world \<Rightarrow> world \<Rightarrow> bool" where
  "fires p a es st s w w' \<longleftrightarrow> unit w' p a st s \<and> steady p w w' \<and> acts w' = acts w @ es \<and>
     prefix (trace w) (trace w') \<and>
     vrec w' p = vrec w p \<and> attr (the_vr w' p) = attr (the_vr w p) \<and> send_fd w' p = send_fd w p"

lemma moves_fires: "moves p a es st s w w' \<Longrightarrow> unit w p a st0 s0 \<Longrightarrow> fires p a es st s w w'"
  using moves_same [of p a es st s w w'] by (simp add: moves_def fires_def st_frame_steady)

lemma fires_trans: "fires p a es st s w w' \<Longrightarrow> fires p a es' st' s' w' w'' \<Longrightarrow> fires p a (es @ es') st' s' w w''"
  by (auto simp: fires_def intro: steady_trans)

section \<open>The timer with one router\<close>

lemma copy_fires:
  assumes u: "unit w p a st s" and oom: "no_oom w" and fr: "fresh_above w"
  shows "\<exists>w' c d v. copy_inst (Some p) w = Inr (Some c, w') \<and> fires p a [] st s w w' \<and> no_oom w' \<and>
    os w' = os w \<and> trace w' = trace w \<and>
    (\<exists>fd. sendable w' c d v fd \<and> s_send fd = send_fd w p) \<and> v = the_vr w p \<and> state d = st \<and> active d = active (the_inst w p)"
proof -
  from u obtain d v i where d: "ds_heap w p = Some d" "ds_vr d = Some a" "state d = st" "vr_heap w a = Some v"
    and sh: "shaped w a v s" and v: "vr_next v = None" "parent v = Some p" "wf_vr (vr v)" "vfd v = Some i" "i < length (netfds w)"
    by (auto simp: unit_def shaped_def)
  let ?w = "w\<lparr>brk := Suc (Suc (brk w)), vr_heap := (vr_heap w)(brk w := Some v),
     ds_heap := (ds_heap w)(Suc (brk w) := Some (d\<lparr>ds_vr := Some (brk w)\<rparr>))\<rparr>"
  have ap: "a \<noteq> brk w" "p \<noteq> Suc (brk w)" using fr d(1,4) by (auto simp: fresh_above_def)
  have copy: "copy_inst (Some p) w = Inr (Some (Suc (brk w)), ?w)"
    using d oom ap by (simp add: copy_inst_def)
  have old: "ds_heap w b = Some d \<Longrightarrow> ds_heap ?w b = Some d" "vr_heap w b = Some v \<Longrightarrow> vr_heap ?w b = Some v" for b d v
    using fr by (auto simp: fresh_above_def)
  have fr': "fresh_above ?w" using fr by (auto simp: fresh_above_def)
  have "table ?w ps \<and> (\<forall>b \<in> set ps. vrec ?w b = vrec w b \<and> attr (the_vr ?w b) = attr (the_vr w b) \<and> the_inst ?w b = the_inst w b)"
    if t: "table w ps" for ps
  proof -
    have il: "inst_list w ps" using t by (simp add: table_def)
    note l = inst_list_old [OF il, of ?w, OF old]
    show ?thesis using t fr' l by (auto simp: table_def own_vr_def cong: map_cong)
  qed
  then have "steady p w ?w" using fr' by (simp add: steady_def)
  moreover have "shaped ?w a v s" using sh ap by (simp add: shaped_def split: qshape.splits)
  ultimately have "fires p a [] st s w ?w"
    using d v ap by (auto simp: fires_def unit_def acts_def vrec_def the_vr_def the_inst_def send_fd_def)
  moreover have "sendable ?w (Suc (brk w)) (d\<lparr>ds_vr := Some (brk w)\<rparr>) v (netfds w ! i)"
    using v oom by (simp add: sendable_def)
  moreover have "s_send (netfds w ! i) = send_fd w p" using d v by (simp add: send_fd_def the_vr_def the_inst_def)
  ultimately show ?thesis
    using copy d oom
    by (intro exI [of _ ?w] exI [of _ "Suc (brk w)"] exI [of _ "d\<lparr>ds_vr := Some (brk w)\<rparr>"] exI [of _ v])
      (auto simp: the_inst_def the_vr_def)
qed

definition advertises :: "world \<Rightarrow> nat \<Rightarrow> u8 list \<Rightarrow> bool" where
  "advertises w p pkt \<longleftrightarrow> length pkt = 110 \<and> take 34 pkt = adv_headers (vrec w p) \<and>
     vi_va (inst_at [] (drop 34 pkt)) = attr (the_vr w p) \<and> vi_state (inst_at [] (drop 34 pkt)) = state (the_inst w p) \<and>
     vr_id (vi_vr (inst_at [] (drop 34 pkt))) = vr_id (vrec w p)"

text \<open>\<open>advertised w p es w'\<close>: the calls \<open>es\<close> made on the way from \<open>w\<close> to \<open>w'\<close> are those of an advertisement of \<open>p\<close>
  as it was in \<open>w\<close>.\<close>

definition advertised :: "world \<Rightarrow> nat \<Rightarrow> event list \<Rightarrow> world \<Rightarrow> bool" where
  "advertised w p es w' \<longleftrightarrow>
     (\<exists>t pkt. advertises w p pkt \<and> es = adv_events (os w) t (send_fd w p) pkt \<and> called w t es w')"

lemma advertised_mono: "advertised w p es w1 \<Longrightarrow> prefix (trace w1) (trace w2) \<Longrightarrow> advertised w p es w2"
  unfolding advertised_def by (blast intro: called_mono)

lemma fires_prefix: "fires p a es st s w w' \<Longrightarrow> prefix (trace w) (trace w')"
  by (simp add: fires_def)

lemma send_fires:
  assumes u: "unit w p a st s" and oom: "no_oom w" and fr: "fresh_above w"
  shows "returns (bnd (copy_inst (Some p) w) (\<lambda>(c, w). vrrp_send_adv c 1 w))
    (\<lambda>(_, w'). \<exists>es. advertised w p es w' \<and> fires p a es st s w w' \<and> no_oom w')"
proof -
  obtain w1 c d v fd where c: "copy_inst (Some p) w = Inr (Some c, w1)" and f1: "fires p a [] st s w w1" and o1: "no_oom w1"
    and same: "os w1 = os w" "trace w1 = trace w"
    and sd: "sendable w1 c d v fd" and fd: "s_send fd = send_fd w p" and v: "v = the_vr w p" "state d = st"
    using copy_fires [OF assms] by blast
  obtain r pkt where send: "vrrp_send_adv (Some c) 1 w1 = Inr (r, w1\<lparr>brk := brk w1 + 3, trace := trace w1 @
        adv_events (os w) (trace w) (send_fd w p) pkt\<rparr>)"
    and pkt: "length pkt = 110" "take 34 pkt = adv_headers (vr v)"
      "inst_at [] (drop 34 pkt) = sent_inst [] d v 1 (junk (os w) (brk w1 + 2) 76)"
    using send_adv_ok [OF sd, of 1 "[]"] unfolding fd adv_events_def same by blast
  let ?es = "adv_events (os w) (trace w) (send_fd w p) pkt"
  let ?w = "w1\<lparr>brk := brk w1 + 3, trace := trace w1 @ ?es\<rparr>"
  have u1: "unit w1 p a st s" using f1 by (simp add: fires_def)
  have "filter (\<lambda>e. \<not> is_ualarm e) ?es = ?es" by (simp add: adv_events_def)
  with moves_calls [OF u1, of "brk w1 + 3" ?es]
  have "fires p a ?es st s w1 ?w" by (simp add: moves_fires [OF _ u1])
  from fires_trans [OF f1 this] have f: "fires p a ?es st s w ?w" by simp
  have "state (the_inst w p) = st" using u by (auto simp: unit_def)
  then have "advertises w p pkt" using pkt v by (simp add: advertises_def sent_inst_def vrec_def)
  moreover have "called w (trace w) ?es ?w" by (rule called_now) (simp add: same)
  ultimately have "advertised w p ?es ?w" unfolding advertised_def by blast
  with c send o1 f show ?thesis by auto
qed

lemma rearm_moves:
  assumes u: "unit w p a st s" and q: "s \<noteq> QEmpty \<Longrightarrow> able w QSelf"
  shows "returns (rearm (Some a) None w) (moves p a [EvAlarm (delay (attr (the_vr w p)))] st (shape_enq s) w)"
proof -
  from u obtain v where v: "vr_heap w a = Some v" "inst_vr (Some p) w = Inr v" "the_vr w p = v"
    by (rule unitE) blast
  have timer: "vstore (Some a) (\<lambda>e. e\<lparr>timeout := VRRP_SEC2USEC (delay (attr e))\<rparr>) w = set_adv_timer (Some p) (Some a) w"
    using v by (simp add: set_adv_timer_def)
  let ?e = "EvAlarm (delay (attr (the_vr w p)))"
  have "does (bnd (set_adv_timer (Some p) (Some a) w) (\<lambda>w. bnd (vrrp_enqueue_impl (Some a) w) (\<lambda>(_, w).
     bnd (vload (Some a) w) (\<lambda>n. Inr ((), emit (EvAlarm (delay (attr n))) w))))) p a () ([] @ [] @ [?e]) st (shape_enq s) w"
  proof (rule does_bndw [OF moves_timer [OF u]], goal_cases)
    case (1 w1)
    show ?case
    proof (rule does_bnd [where x = 0 and st = st and s = "shape_enq s"])
      show "does (vrrp_enqueue_impl (Some a) w1) p a 0 [] st (shape_enq s) w1"
        using moves_enq [OF 1(2)] q able_moves [OF 1(1)] by (simp add: does_def)
    next
      fix w2 assume m: "moves p a [] st (shape_enq s) w1 w2" and u2: "unit w2 p a st (shape_enq s)"
      from u2 obtain v2 where v2: "vr_heap w2 a = Some v2" "the_vr w2 p = v2" by (rule unitE) blast
      have "attr v2 = attr v" using moves_same(2) [OF m 1(2)] moves_same(2) [OF 1(1) u] v2 v by simp
      with v2 v does_event [OF u2, of ?e "()"]
      show "does (case (0, w2) of (_, w) \<Rightarrow> bnd (vload (Some a) w) (\<lambda>n. Inr ((), emit (EvAlarm (delay (attr n))) w)))
          p a () [?e] st (shape_enq s) w2" by simp
    qed
  qed
  then show ?thesis
    using v by (auto simp: rearm_def timer does_def bnd_Inr_iff returns_def)
qed

lemma dequeue_moves:
  assumes u: "unit w p a st s" and s: "s \<noteq> QEmpty"
  shows "\<exists>w' v. vrrp_dequeue w = Inr (Some a, w') \<and> moves p a [] st (shape_rm s) w w' \<and>
    vr_heap w' a = Some v \<and> qnext v = None \<and> parent v = Some p"
proof -
  have "adv_q w = Some a" using u s by (cases s) (auto simp: unit_def shaped_def)
  moreover obtain w' where rm: "vrrp_rmqueue_impl (Some a) w = Inr (0, w')" and m: "moves p a [] st (shape_rm s) w w'"
    using moves_rm [OF u] by (auto elim!: returnsE)
  moreover obtain v where "vr_heap w' a = Some v" "qnext v = None" "parent v = Some p"
    using moves_unit [OF m] by (cases s) (auto simp: unit_def shaped_def)
  ultimately show ?thesis by (auto simp: vrrp_dequeue_def)
qed

text \<open>One entry is served: after the removal its link is NULL, so the handler does not go on.\<close>

lemma alarm_serves:
  assumes l: "\<not> adv_q_lock w" and dq: "vrrp_dequeue (w\<lparr>adv_q_lock := True\<rparr>) = Inr (Some a, w')"
    and v: "vr_heap w' a = Some v" "qnext v = None"
  shows "signal_alarm w = bnd (serve (Some a) None w') (\<lambda>w. Inr (unlock_q w))"
proof (cases "serve (Some a) None w'")
  case (Inl e)
  then show ?thesis using assms by (simp add: signal_alarm_def) (subst loop_unfold, simp)
next
  case (Inr w2)
  then show ?thesis using assms
    by (simp add: signal_alarm_def) (subst loop_unfold, simp, subst loop_unfold, simp)
qed

lemma world_lock [simp]:
  "table (w\<lparr>adv_q_lock := b\<rparr>) ps = table w ps" "fresh_above (w\<lparr>adv_q_lock := b\<rparr>) = fresh_above w"
  "vrec (w\<lparr>adv_q_lock := b\<rparr>) q = vrec w q" "the_vr (w\<lparr>adv_q_lock := b\<rparr>) q = the_vr w q"
  "the_inst (w\<lparr>adv_q_lock := b\<rparr>) q = the_inst w q" "no_oom (w\<lparr>adv_q_lock := b\<rparr>) = no_oom w"
  "acts (w\<lparr>adv_q_lock := b\<rparr>) = acts w" "send_fd (w\<lparr>adv_q_lock := b\<rparr>) q = send_fd w q"
  by (simp_all add: send_fd_def table_def fresh_above_def vrec_def the_vr_def the_inst_def inst_list_def has_vr_def
      own_vr_def no_oom_def acts_def)

lemma fires_unlock:
  assumes "fires p a es st s (w\<lparr>adv_q_lock := True\<rparr>) w'" and "\<not> adv_q_lock w"
  shows "fires p a es st s w (unlock_q w')"
  using assms by (auto simp: fires_def steady_def unlock_q_def)

lemma serve_master:
  assumes u: "unit w p a VRRP_STATE_MAST s" and s: "s = QEmpty \<or> able w QSelf" and oom: "no_oom w" and fr: "fresh_above w"
  shows "returns (serve (Some a) None w) (\<lambda>w'. \<exists>es. advertised w p es w' \<and>
    fires p a (es @ [EvAlarm (delay (attr (the_vr w p)))]) VRRP_STATE_MAST (shape_enq s) w w')" (is "returns _ ?Q")
proof -
  let ?e = "EvAlarm (delay (attr (the_vr w p)))"
  from u obtain d v where d: "ds_heap w p = Some d" "state d = 2" and v: "vr_heap w a = Some v" "parent v = Some p" "the_vr w p = v"
    by (auto elim!: unitE)
  have "serve (Some a) None w = bnd (bnd (copy_inst (Some p) w) (\<lambda>(c, w). vrrp_send_adv c 1 w)) (\<lambda>(_, w). rearm (Some a) None w)"
    using d v by (simp add: serve_def bnd_assoc split_def)
  moreover have "returns \<dots> ?Q"
  proof (rule returns_bndI [OF send_fires [OF u oom fr]], clarify)
    fix w1 es assume adv: "advertised w p es w1" and f: "fires p a es VRRP_STATE_MAST s w w1"
    then have u1: "unit w1 p a VRRP_STATE_MAST s" by (simp add: fires_def)
    have "s \<noteq> QEmpty \<Longrightarrow> able w1 QSelf" using s f by (auto simp: fires_def steady_def able_def no_oom_def)
    note r = rearm_moves [OF u1 this]
    have "attr (the_vr w1 p) = attr (the_vr w p)" using f by (simp add: fires_def)
    with r have r': "returns (rearm (Some a) None w1) (moves p a [?e] VRRP_STATE_MAST (shape_enq s) w1)" by simp
    have "advertised w p es w2 \<and> fires p a (es @ [?e]) VRRP_STATE_MAST (shape_enq s) w w2"
      if "moves p a [?e] VRRP_STATE_MAST (shape_enq s) w1 w2" for w2
      using advertised_mono [OF adv moves_prefix [OF that]] fires_trans [OF f moves_fires [OF that u1]] by blast
    then show "returns (rearm (Some a) None w1) ?Q" by (intro returns_mono [OF r']) blast
  qed
  ultimately show ?thesis by simp
qed


lemma alarm_dequeues:
  assumes u: "unit w p a st s" and s: "s \<noteq> QEmpty" and l: "\<not> adv_q_lock w"
  shows "\<exists>w1. signal_alarm w = bnd (serve (Some a) None w1) (\<lambda>w. Inr (unlock_q w)) \<and>
    moves p a [] st (shape_rm s) (w\<lparr>adv_q_lock := True\<rparr>) w1"
proof -
  let ?w = "w\<lparr>adv_q_lock := True\<rparr>"
  have "unit ?w p a st s" using u by simp
  from dequeue_moves [OF this s] obtain w1 v where d: "vrrp_dequeue ?w = Inr (Some a, w1)"
    and m: "moves p a [] st (shape_rm s) ?w w1" and v: "vr_heap w1 a = Some v" "qnext v = None"
    by blast
  from alarm_serves [OF l d v] m show ?thesis by blast
qed

lemma able_loose: "able w QSelf \<Longrightarrow> able w s"
  by (simp add: able_def)

lemma advertised_from:
  assumes m: "moves p a [] st0 s0 w w1" and u: "unit w p a st0 s1" and adv: "advertised w1 p es w2"
  shows "advertised w p es w2"
proof -
  have w1: "prefix (trace w) (trace w1)" "acts w1 = acts w" "os w1 = os w" "unit w1 p a st0 s0"
    using m by (simp_all add: moves_def st_frame_def)
  then have "state (the_inst w1 p) = state (the_inst w p)" using u by (auto simp: unit_def)
  with adv moves_same [OF m u] w1 show ?thesis by (auto simp: advertised_def advertises_def intro: called_from)
qed

lemma advertised_lock [simp]:
  "advertised (w\<lparr>adv_q_lock := b\<rparr>) p es w' = advertised w p es w'" "advertised w p es (unlock_q w') = advertised w p es w'"
  by (simp_all add: advertised_def advertises_def called_def send_fd_def unlock_q_def)

lemma alarm_master_ok:
  assumes u: "unit w p a VRRP_STATE_MAST s" and s: "s = QOnly \<or> (s = QSelf \<and> able w QSelf)"
    and oom: "no_oom w" and fr: "fresh_above w" and l: "\<not> adv_q_lock w"
  shows "returns (signal_alarm w) (\<lambda>w'. \<exists>es. advertised w p es w' \<and>
    fires p a (es @ [EvAlarm (delay (attr (the_vr w p)))]) VRRP_STATE_MAST s w w')"
proof -
  have ne: "s \<noteq> QEmpty" and same: "shape_enq (shape_rm s) = s" using s by auto
  let ?w = "w\<lparr>adv_q_lock := True\<rparr>"
  obtain w1 where sig: "signal_alarm w = bnd (serve (Some a) None w1) (\<lambda>w. Inr (unlock_q w))"
    and m: "moves p a [] VRRP_STATE_MAST (shape_rm s) ?w w1"
    using alarm_dequeues [OF u ne l] by blast
  have u0: "unit ?w p a VRRP_STATE_MAST s" using u by simp
  have f1: "fires p a [] VRRP_STATE_MAST (shape_rm s) ?w w1" by (rule moves_fires [OF m u0])
  have w1: "no_oom w1" "fresh_above w1" "able w1 QSelf = able w QSelf"
    using m oom fr able_moves [OF m, of QSelf] f1 by (auto simp: fires_def steady_def no_oom_def)
  have eq: "attr (the_vr w1 p) = attr (the_vr w p)" using f1 by (simp add: fires_def)
  have "shape_rm s = QEmpty \<or> able w1 QSelf" using s w1(3) by auto
  from serve_master [OF moves_unit [OF m] this w1(1,2)] show ?thesis
    unfolding sig
  proof (rule returns_bndI, clarify)
    fix w2 es assume adv: "advertised w1 p es w2"
      and f: "fires p a (es @ [EvAlarm (delay (attr (the_vr w1 p)))]) VRRP_STATE_MAST (shape_enq (shape_rm s)) w1 w2"
    from fires_unlock [OF fires_trans [OF f1 f] l] advertised_from [OF m u0 adv]
    show "returns (Inr (unlock_q w2)) (\<lambda>w'. \<exists>es. advertised w p es w' \<and>
        fires p a (es @ [EvAlarm (delay (attr (the_vr w p)))]) VRRP_STATE_MAST s w w')"
      by (auto simp: eq same)
  qed
qed

lemma alarm_backup_ok:
  assumes u: "unit w p a VRRP_STATE_BACK QOnly" and q: "able w QOnly" and l: "\<not> adv_q_lock w"
  shows "((\<forall>t. ualarm_ret (os w) t < VRRP_SEC2USEC (delay (attr (the_vr w p)))) \<longrightarrow> signal_alarm w = Inl NullDeref) \<and>
    (able w QSelf \<longrightarrow> returns (signal_alarm w) (fires p a (master_events w p @
      [EvAlarm (delay (attr (the_vr w p)))]) VRRP_STATE_MAST QSelf w))"
proof -
  let ?w = "w\<lparr>adv_q_lock := True\<rparr>" and ?t = "VRRP_SEC2USEC (delay (attr (the_vr w p)))"
  have u0: "unit ?w p a VRRP_STATE_BACK QOnly" using u by simp
  obtain w1 where sig: "signal_alarm w = bnd (serve (Some a) None w1) (\<lambda>w. Inr (unlock_q w))"
    and m1: "moves p a [] VRRP_STATE_BACK QEmpty ?w w1"
    using alarm_dequeues [OF u _ l] by auto
  have u1: "unit w1 p a VRRP_STATE_BACK QEmpty" by (rule moves_unit [OF m1])
  have same1: "vrec w1 p = vrec w p" "attr (the_vr w1 p) = attr (the_vr w p)" using moves_same [OF m1 u0] by simp_all
  have "able w1 QEmpty" using q able_moves [OF m1, of QEmpty] by (simp add: able_def)
  then obtain w2 where b2m: "vrrp_state_b2m (Some p) w1 = Inr (0, w2)"
    and m2: "moves p a (master_events w1 p) VRRP_STATE_MAST QOnly w1 w2"
    using b2m_does [OF u1] by (auto simp: does_def elim!: returnsE)
  have u2: "unit w2 p a VRRP_STATE_MAST QOnly" by (rule moves_unit [OF m2])
  have same2: "attr (the_vr w2 p) = attr (the_vr w p)" using moves_same(2) [OF m2 u1] same1 by simp
  have os2: "os w2 = os w" using m1 m2 by (simp add: moves_def st_frame_def)
  from u1 obtain d v where "ds_heap w1 p = Some d" "state d = VRRP_STATE_BACK" "vr_heap w1 a = Some v" "parent v = Some p"
    by (rule unitE) blast
  then have serve: "serve (Some a) None w1 = rearm (Some a) None w2" by (simp add: serve_def b2m)
  have "signal_alarm w = Inl NullDeref" if "\<forall>t. ualarm_ret (os w) t < ?t"
  proof -
    from u2 obtain v2 where v2: "vr_heap w2 a = Some v2" "the_vr w2 p = v2" "shaped w2 a v2 QOnly"
      by (rule unitE) blast
    let ?v = "v2\<lparr>timeout := ?t\<rparr>"
    have "shaped (w2\<lparr>vr_heap := (vr_heap w2)(a := Some ?v)\<rparr>) a ?v QOnly" using v2(3) by (simp add: shaped_def)
    from enqueue_only_crash [OF this] that os2
    have "vrrp_enqueue_impl (Some a) (w2\<lparr>vr_heap := (vr_heap w2)(a := Some ?v)\<rparr>) = Inl NullDeref" by simp
    then show ?thesis using v2(1,2) same2 by (simp add: sig serve rearm_def)
  qed
  moreover have "returns (signal_alarm w) (fires p a (master_events w p @
      [EvAlarm (delay (attr (the_vr w p)))]) VRRP_STATE_MAST QSelf w)" if "able w QSelf"
  proof -
    have "able w2 QSelf" using that os2 by (simp add: able_def no_oom_def)
    from rearm_moves [OF u2 this]
    have r: "returns (rearm (Some a) None w2) (moves p a [EvAlarm (delay (attr (the_vr w p)))] VRRP_STATE_MAST QSelf w2)"
      by (simp add: same2)
    show ?thesis unfolding sig serve
    proof (rule returns_bndI [OF r])
      fix w3 assume m3: "moves p a [EvAlarm (delay (attr (the_vr w p)))] VRRP_STATE_MAST QSelf w2 w3"
      have "master_events w1 p = master_events w p" using same1 by (simp add: master_events_def)
      with moves_fires [OF moves_trans [OF moves_trans [OF m1 m2] m3] u0]
      have "fires p a (master_events w p @ [EvAlarm (delay (attr (the_vr w p)))]) VRRP_STATE_MAST QSelf ?w w3" by simp
      from fires_unlock [OF this l]
      show "returns (Inr (unlock_q w3)) (fires p a (master_events w p @ [EvAlarm (delay (attr (the_vr w p)))]) VRRP_STATE_MAST QSelf w)"
        by simp
    qed
  qed
  ultimately show ?thesis by blast
qed


fun alarms :: "nat \<Rightarrow> world \<Rightarrow> world res" where
  "alarms 0 w = Inr w"
| "alarms (Suc n) w = bnd (signal_alarm w) (alarms n)"

text \<open>
  \<open>run n f w w'\<close>: \<open>f\<close> are the states of the process between \<open>n\<close> alarms. \<open>writes\<close> counts the packets that
  went out.
\<close>

definition run :: "nat \<Rightarrow> (nat \<Rightarrow> world) \<Rightarrow> world \<Rightarrow> world \<Rightarrow> bool" where
  "run n f w w' \<longleftrightarrow> f 0 = w \<and> f n = w' \<and> (\<forall>k < n. signal_alarm (f k) = Inr (f (Suc k)))"

fun is_write :: "event \<Rightarrow> bool" where
  "is_write (EvWrite _ _) = True"
| "is_write _ = False"

definition writes :: "event list \<Rightarrow> nat" where
  "writes es = length (filter is_write es)"

lemma writes_simps [simp]:
  "writes [] = 0" "writes (e # es) = (if is_write e then Suc (writes es) else writes es)"
  "writes (es @ fs) = writes es + writes fs"
  by (simp_all add: writes_def)

lemma advertised_written:
  assumes "advertised w p es w'" and "\<forall>t. setsockopt_ret (os w) t \<noteq> 0"
  shows "writes es = 1"
  using assms by (auto simp: advertised_def adv_events_def)

definition served :: "nat \<Rightarrow> cint \<Rightarrow> world \<Rightarrow> world \<Rightarrow> bool" where
  "served p d w w' \<longleftrightarrow> (\<exists>es. advertised w p es w' \<and> acts w' = acts w @ es @ [EvAlarm d])"

lemma alarms_fire:
  assumes "unit w p a VRRP_STATE_MAST s" and "s = QOnly \<or> (s = QSelf \<and> able w QSelf)"
    and "no_oom w" and "fresh_above w" and "\<not> adv_q_lock w"
  shows "returns (alarms n w) (\<lambda>w'. unit w' p a VRRP_STATE_MAST s \<and> steady p w w' \<and> attr (the_vr w' p) = attr (the_vr w p) \<and>
    (\<exists>f. run n f w w' \<and> (\<forall>k < n. served p (delay (attr (the_vr w p))) (f k) (f (Suc k)))) \<and>
    ((\<forall>t. setsockopt_ret (os w) t \<noteq> 0) \<longrightarrow> writes (acts w') = writes (acts w) + n))"
  using assms
proof (induction n arbitrary: w)
  case 0
  then show ?case by (auto simp: run_def steady_def intro!: exI [of _ "\<lambda>_. w"])
next
  case (Suc n)
  let ?t = "delay (attr (the_vr w p))"
  from alarm_master_ok [OF Suc.prems] obtain w1 es where w1: "signal_alarm w = Inr w1" and adv: "advertised w p es w1"
    and f1: "fires p a (es @ [EvAlarm ?t]) VRRP_STATE_MAST s w w1"
    by (auto elim!: returnsE)
  then have u1: "unit w1 p a VRRP_STATE_MAST s" and eq: "attr (the_vr w1 p) = attr (the_vr w p)" and st: "steady p w w1"
    and e: "no_oom w1 = no_oom w" "able w1 QSelf = able w QSelf" "adv_q_lock w1 = adv_q_lock w" "os w1 = os w"
      "fresh_above w \<Longrightarrow> fresh_above w1" and ac: "acts w1 = acts w @ es @ [EvAlarm ?t]"
    by (simp_all add: fires_def steady_def no_oom_def able_def)
  have sv: "served p ?t w w1" using adv ac by (auto simp: served_def)
  from Suc.IH [OF u1] Suc.prems e obtain w2 f where w2: "alarms n w1 = Inr w2" "unit w2 p a VRRP_STATE_MAST s" "steady p w1 w2"
    "attr (the_vr w2 p) = attr (the_vr w p)" "run n f w1 w2" "\<forall>k < n. served p ?t (f k) (f (Suc k))"
    and wr: "(\<forall>t. setsockopt_ret (os w) t \<noteq> 0) \<Longrightarrow> writes (acts w2) = writes (acts w1) + n"
    by (auto simp: eq elim!: returnsE)
  let ?f = "case_nat w f"
  have "run (Suc n) ?f w w2 \<and> (\<forall>k < Suc n. served p ?t (?f k) (?f (Suc k)))"
    using w2(5,6) w1 sv by (auto simp: run_def less_Suc_eq_0_disj)
  moreover have "writes (acts w2) = writes (acts w) + Suc n" if "\<forall>t. setsockopt_ret (os w) t \<noteq> 0"
    using wr [OF that] advertised_written [OF adv that] by (simp add: ac)
  ultimately show ?case
    using w1 w2(1,2,4) steady_trans [OF st w2(3)] by auto
qed

section \<open>What an alarm does\<close>

text \<open>
  C17: When the alarm of a master with the only queued router fires, an advertisement with the master's own
  attributes, state and VRID is made and the TTL is asked for; it is written, once, exactly if that call fails. The next
  alarm is set one interval ahead and the master is queued as before, so that the next alarm finds the same situation.
\<close>

theorem alarm_of_master:
  assumes u: "unit w p a VRRP_STATE_MAST s" and s: "s = QOnly \<or> (s = QSelf \<and> able w QSelf)"
    and oom: "no_oom w" and fr: "fresh_above w" and l: "\<not> adv_q_lock w"
  shows "returns (signal_alarm w) (\<lambda>w'. \<exists>es. advertised w p es w' \<and>
    fires p a (es @ [EvAlarm (delay (attr (the_vr w p)))]) VRRP_STATE_MAST s w w')"
  using assms by (rule alarm_master_ok)

lemma demo_quiet: "no_oom (demo_unit st q)" "fresh_above (demo_unit st q)"
  using able_demo(1) table_demo_unit [of st q] by (auto simp: able_def table_def)

theorem alarm_of_master_witness:
  "returns (signal_alarm (demo_unit 2 (Some 11))) (\<lambda>w'. unit w' 1 11 2 QOnly \<and> (\<exists>raw pkt.
     acts w' = [EvSetsockopt raw, EvWrite raw pkt, EvAlarm 1]))"
proof -
  have f: "setsockopt_ret (os (demo_unit 2 (Some 11))) t \<noteq> 0" for t by (simp add: demo_unit_def)
  have u: "unit (demo_unit 2 (Some 11)) 1 11 VRRP_STATE_MAST QOnly" using unit_demo(2) by simp
  show ?thesis
    by (rule returns_mono [OF alarm_of_master [OF u _ demo_quiet able_demo(2)]])
      (use f in \<open>auto simp: fires_def advertised_def adv_events_def\<close>)
qed

text \<open>
  C18: When the alarm of a lone backup fires, the daemon dies if \<open>ualarm\<close> reports less than an
  interval as pending: the handler makes the backup a master, which queues its router, and then
  queues the router a second time. If \<open>ualarm\<close> refuses (as it does for a second or more), the backup
  becomes a master whose router is linked to itself.
\<close>

theorem alarm_of_backup:
  assumes u: "unit w p a VRRP_STATE_BACK QOnly" and q: "able w QOnly" and l: "\<not> adv_q_lock w"
  shows "((\<forall>t. ualarm_ret (os w) t < VRRP_SEC2USEC (delay (attr (the_vr w p)))) \<longrightarrow> signal_alarm w = Inl NullDeref) \<and>
    (able w QSelf \<longrightarrow> returns (signal_alarm w) (fires p a (master_events w p @
      [EvAlarm (delay (attr (the_vr w p)))]) VRRP_STATE_MAST QSelf w))"
  using assms by (rule alarm_backup_ok)

theorem alarm_of_backup_witness:
  "returns (signal_alarm (demo_unit 3 (Some 11))) (\<lambda>w'. unit w' 1 11 2 QSelf)"
  using alarm_of_backup [OF unit_demo(2) able_demo] able_demo(1) by (auto simp: fires_def elim!: returns_mono)

text \<open>
  C16: As long as nothing else happens a master goes on for ever. Each of \<open>n\<close> alarms is handled to its end, makes an
  advertisement of the master as it is then, writes it exactly if the call for the TTL fails, and sets the next alarm one
  interval ahead. If that call always fails, as it must for anything to be sent, \<open>n\<close> alarms write \<open>n\<close> packets.
\<close>

theorem master_keeps_advertising:
  assumes "unit w p a VRRP_STATE_MAST s" and "s = QOnly \<or> (s = QSelf \<and> able w QSelf)"
    and "no_oom w" and "fresh_above w" and "\<not> adv_q_lock w"
  shows "returns (alarms n w) (\<lambda>w'. unit w' p a VRRP_STATE_MAST s \<and> steady p w w' \<and>
    (\<exists>f. run n f w w' \<and> (\<forall>k < n. \<exists>es. advertised (f k) p es (f (Suc k)) \<and>
      acts (f (Suc k)) = acts (f k) @ es @ [EvAlarm (delay (attr (the_vr w p)))])) \<and>
    ((\<forall>t. setsockopt_ret (os w) t \<noteq> 0) \<longrightarrow> writes (acts w') = writes (acts w) + n))"
  by (rule returns_mono [OF alarms_fire [OF assms]]) (auto simp: served_def)

theorem master_keeps_advertising_witness:
  "returns (alarms 3 (demo_unit 2 (Some 11))) (\<lambda>w'. unit w' 1 11 2 QOnly \<and> writes (acts w') = 3)"
proof -
  have f: "setsockopt_ret (os (demo_unit 2 (Some 11))) t \<noteq> 0" for t by (simp add: demo_unit_def)
  have u: "unit (demo_unit 2 (Some 11)) 1 11 VRRP_STATE_MAST QOnly" using unit_demo(2) by simp
  show ?thesis
    by (rule returns_mono [OF master_keeps_advertising [OF u _ demo_quiet able_demo(2)]])
      (use f in auto)
qed

text \<open>
  C21: A destroyed backup comes back. Its router is still on the queue, so that the next alarm makes
  the instance, which is not in the table any more, a master that runs a router process; no
  request by name can reach it.
\<close>

theorem destroyed_backup_returns:
  assumes t: "table w ps" and u: "unit w p a VRRP_STATE_BACK QOnly" and q: "able w QSelf" and l: "\<not> adv_q_lock w"
    and s: "search_spec i ifname AF_INET w ps = Some p"
  shows "returns (bnd (vrrp_destroy_inst i ifname AF_INET w) (\<lambda>(_, w). signal_alarm w)) (\<lambda>w'.
    table w' (remove1 p ps) \<and> p \<notin> set (remove1 p ps) \<and> unit w' p a VRRP_STATE_MAST QSelf \<and>
    fork_event (vrec w p) \<in> set (acts w'))"
proof (rule returns_bndI [OF destroy_backup_ok [OF t u _ able_loose [OF q] l s]], simp_all, clarify)
  fix w1 assume t1: "table w1 (remove1 p ps)" and u1: "unit w1 p a 3 QOnly" and os: "os w1 = os w"
    and lk: "adv_q_lock w1 = adv_q_lock w" and v: "vrec w1 p = vrec w p"
  have q1: "able w1 QSelf" and l1: "\<not> adv_q_lock w1" using q os lk l by (simp_all add: able_def no_oom_def)
  have "unit w1 p a VRRP_STATE_BACK QOnly" using u1 by simp
  from alarm_backup_ok [OF this able_loose [OF q1] l1] q1
  have f: "returns (signal_alarm w1) (fires p a (master_events w1 p @ [EvAlarm (delay (attr (the_vr w1 p)))]) VRRP_STATE_MAST QSelf w1)"
    by blast
  have "distinct ps" using t by (auto simp: table_def inst_list_def)
  then have p: "p \<notin> set (remove1 p ps)" by simp
  show "returns (signal_alarm w1) (\<lambda>w'. table w' (remove1 p ps) \<and> p \<notin> set (remove1 p ps) \<and> unit w' p a 2 QSelf \<and>
      fork_event (vrec w p) \<in> set (acts w'))"
    by (rule returns_mono [OF f]) (use p t1 v in \<open>auto simp: fires_def steady_def master_events_def\<close>)
qed

theorem destroyed_backup_returns_witness:
  "returns (bnd (vrrp_destroy_inst 7 None 2 (demo_unit 3 (Some 11))) (\<lambda>(_, w). signal_alarm w)) (\<lambda>w'.
    table w' [] \<and> unit w' 1 11 2 QSelf)"
proof -
  have "unit (demo_unit 3 (Some 11)) 1 11 VRRP_STATE_BACK QOnly" using unit_demo(2) by simp
  from destroyed_backup_returns [OF table_demo_unit this able_demo, of 7 None] search_demo_unit show ?thesis
    by (auto elim!: returns_mono)
qed

end
