(* ===== verification/Display.thy ===== *)
theory Display
  imports Lifecycle "HOL-Library.Signed_Division"
begin

text \<open>
  Names, times and the status display of libvrrp.c. What is printed is a list of lines; the display
  formats numbers into small arrays on its stack, and an array that is too small is a fault.
\<close>

section \<open>Numbers as text\<close>

fun nat_dec :: "nat \<Rightarrow> string" where
  "nat_dec n = (if n < 10 then [char_of (48 + n)] else nat_dec (n div 10) @ [char_of (48 + n mod 10)])"

declare nat_dec.simps [simp del]

text \<open>\<open>%d\<close>, and \<open>%0wd\<close> which counts the sign.\<close>

definition dec_str :: "cint \<Rightarrow> string" where
  "dec_str x = (if sint x < 0 then ''-'' @ nat_dec (nat (- sint x)) else nat_dec (nat (sint x)))"

definition zpad :: "nat \<Rightarrow> string \<Rightarrow> string" where
  "zpad w s = replicate (w - length s) (CHR ''0'') @ s"

definition dec_pad :: "nat \<Rightarrow> cint \<Rightarrow> string" where
  "dec_pad w x = (if sint x < 0 then ''-'' @ zpad (w - 1) (nat_dec (nat (- sint x)))
     else zpad w (nat_dec (nat (sint x))))"

text \<open>\<open>sprintf\<close> into an array of \<open>n\<close> bytes.\<close>

definition sprintf :: "nat \<Rightarrow> string \<Rightarrow> string res" where
  "sprintf n s = (if length s < n then Inr s else Inl BufferOverflow)"

definition str_of :: "u8 list \<Rightarrow> string" where
  "str_of bs = map (\<lambda>b. char_of (unat b)) (cstr bs)"

text \<open>C's quotient of two ints, and the conversion of \<open>n + 0.5\<close> to an int.\<close>

definition c_div :: "cint \<Rightarrow> cint \<Rightarrow> cint" where
  "c_div a b = word_of_int (sint a sdiv sint b)"

definition half_up :: "cint \<Rightarrow> cint" where
  "half_up n = (if sint n < 0 then n + 1 else n)"

section \<open>Names\<close>

definition af_str :: "cint \<Rightarrow> string" where
  "af_str af =
     (if af = 4 \<or> af = AF_INET then ''AF_INET''
      else if af = 6 \<or> af = AF_INET6 then ''AF_INET6''
      else if af = AF_UNSPEC then ''AF_UNSPEC''
      else ''AF_error'')"

definition vrrp_rets :: "string list" where
  "vrrp_rets = [''VRRP_SUCCESS'', ''VRRP_EVREXIST'', ''VRRP_EINVAL'', ''VRRP_ENOROUTE'', ''VRRP_EVRIP'',
     ''VRRP_ENOINST'', ''VRRP_EMULINST'', ''VRRP_ENOMEM'', ''VRRP_ESYS'']"

definition vrrp_strerror :: "u32 \<Rightarrow> string res" where
  "vrrp_strerror err = (if unat err < length vrrp_rets then Inr (vrrp_rets ! unat err) else Inl OutOfBounds)"

definition vrrp_stats :: "string list" where
  "vrrp_stats = [''VRRP_STATE_NONE'', ''VRRP_STATE_INIT'', ''VRRP_STATE_MAST'', ''VRRP_STATE_BACK'']"

definition stat_str :: "u8 \<Rightarrow> string res" where
  "stat_str s = (if unat s < length vrrp_stats then Inr (vrrp_stats ! unat s) else Inl OutOfBounds)"

definition bool_str :: "u32 \<Rightarrow> string" where
  "bool_str b = (if b = boolean_TRUE then ''true'' else if b = boolean_FALSE then ''false'' else ''unknown'')"

section \<open>Times\<close>

definition timeval_to_centi :: "timeval \<Rightarrow> cint" where
  "timeval_to_centi tv = half_up (tv_sec tv * 100 + c_div (tv_usec tv) 1000000)"

definition timeval_delta :: "timeval \<Rightarrow> timeval \<Rightarrow> timeval" where
  "timeval_delta t1 t2 =
     (let t = \<lparr>tv_sec = tv_sec t1 - tv_sec t2, tv_usec = tv_usec t1 - tv_usec t2\<rparr> in
      if tv_usec t <s 0 then \<lparr>tv_sec = tv_sec t - 1, tv_usec = tv_usec t + 1000000\<rparr> else t)"

definition timeval_to_string :: "os \<Rightarrow> timeval \<Rightarrow> string" where
  "timeval_to_string e tv =
     (let t = localtime e (tv_sec tv) in
      dec_pad 4 (tm_year t + 1900) @ ''.'' @ dec_pad 2 (tm_mon t + 1) @ ''.'' @ dec_pad 2 (tm_mday t) @ '' '' @
      dec_pad 2 (tm_hour t) @ '':'' @ dec_pad 2 (tm_min t) @ '':'' @ dec_pad 2 (tm_sec t) @ ''.'' @
      dec_pad 3 (c_div (tv_usec tv) 1000))"

section \<open>The display\<close>

definition dump_vrrp_attr :: "vrrp_attr \<Rightarrow> string list res" where
  "dump_vrrp_attr va =
     bnd (sprintf 32 (dec_str (ucast (pri va)))) (\<lambda>s_pri.
     bnd (sprintf 32 (dec_str (delay va))) (\<lambda>s_delay.
     Inr [''priority: '' @ s_pri, ''adv_intval: '' @ s_delay,
          ''preempt_mode: '' @ bool_str (pree_mode va), ''accept_mode: '' @ bool_str (accept_mode va)]))"

text \<open>
  \<open>inet_ntop\<close> on the address at \<open>off\<close>: four bytes for \<open>AF_INET\<close>; sixteen for \<open>AF_INET6\<close>, which for the
  last address of the list are never all there; NULL for any other family, which \<open>strcat\<close> reads.
\<close>

definition dotted :: "u8 list \<Rightarrow> string" where
  "dotted b = nat_dec (unat (b ! 0)) @ ''.'' @ nat_dec (unat (b ! 1)) @ ''.'' @ nat_dec (unat (b ! 2)) @ ''.'' @
     nat_dec (unat (b ! 3))"

definition ntop_at :: "cint \<Rightarrow> u8 list \<Rightarrow> nat \<Rightarrow> string res" where
  "ntop_at af ips off =
     (if af = AF_INET then if off + 4 \<le> length ips then Inr (dotted (peek off 4 ips)) else Inl OutOfBounds
      else if af = AF_INET6 then Inl OutOfBounds
      else Inl NullDeref)"

definition strcat :: "nat \<Rightarrow> string \<Rightarrow> string \<Rightarrow> string res" where
  "strcat n dst s = sprintf n (dst @ s)"

fun cat_ips :: "cint \<Rightarrow> u8 list \<Rightarrow> nat list \<Rightarrow> string \<Rightarrow> string res" where
  "cat_ips af ips [] s_ip = Inr s_ip"
| "cat_ips af ips (i # is) s_ip =
     bnd (ntop_at af ips (4 * i)) (\<lambda>ap.
     bnd (strcat 256 s_ip ap) (\<lambda>s_ip.
     bnd (strcat 256 s_ip '','') (\<lambda>s_ip.
     cat_ips af ips is s_ip)))"

text \<open>With no address the last store of the loop's result goes before the array.\<close>

definition dump_vr :: "vrrp_vr \<Rightarrow> string list res" where
  "dump_vr r =
     bnd (cat_ips (vr_af r) (vr_ip r) [0..<unat (vr_ipnum r)] []) (\<lambda>s_ip.
     if s_ip = [] then Inl OutOfBounds
     else
       bnd (sprintf 8 (dec_str (ucast (vr_id r)))) (\<lambda>s_vrid.
       bnd (ntop_at (vr_af r) (le32 (vr_in4 r)) 0) (\<lambda>ap.
       Inr [''INSTANCE VRID: '' @ s_vrid, ''addr_family: '' @ af_str (vr_af r),
            ''ifname: '' @ str_of (vr_ifname r), ''vr_pip: '' @ ap])))"

text \<open>The numbers \<open>dump_vrrp_vr\<close> formats: the age of the last advertisement, the skew, the timers.\<close>

definition adv_age :: "timeval \<Rightarrow> vrrpd_vr_ds \<Rightarrow> cint" where
  "adv_age now v = timeval_to_centi (timeval_delta now (ai_timestamp (advinfo v)))"

definition adv_skew :: "vrrpd_vr_ds \<Rightarrow> cint" where
  "adv_skew v = c_div (ai_interval (advinfo v) * (256 - ucast (pri (attr v)))) 256"

definition adv_mdi :: "vrrpd_vr_ds \<Rightarrow> cint" where
  "adv_mdi v = ai_interval (advinfo v) * 3 + adv_skew v"

definition dump_vrrp_vr :: "vrrpd_vr_ds \<Rightarrow> world \<Rightarrow> string list res" where
  "dump_vrrp_vr v w =
     bnd (sprintf 128 (timeval_to_string (os w) (ai_timestamp (advinfo v)))) (\<lambda>_.
     bnd (sprintf 8 (dec_str (ucast (ai_priority (advinfo v))))) (\<lambda>_.
     bnd (sprintf 8 (dec_str (ai_interval (advinfo v)))) (\<lambda>_.
     let aage = adv_age (time_of_day (os w) (trace w)) v in
     bnd (sprintf 16 (dec_str aage)) (\<lambda>_.
     bnd (sprintf 8 (dec_str (adv_skew v))) (\<lambda>_.
     bnd (sprintf 8 (dec_str (adv_mdi v))) (\<lambda>_.
     bnd (sprintf 8 (dec_str (adv_mdi v - aage))) (\<lambda>_.
     bnd (dump_vr (vr v)) (\<lambda>out1.
     bnd (dump_vrrp_attr (attr v)) (\<lambda>out2. Inr (out1 @ out2))))))))))"

definition rule_line :: string where
  "rule_line = ''--------------------------------------------''"

text \<open>\<open>display_vrrp_instx\<close> shows the instance after the one it is given.\<close>

definition display_vrrp_instx :: "ptr \<Rightarrow> world \<Rightarrow> string list res" where
  "display_vrrp_instx v w =
     (if v = None then Inr [rule_line, ''NO INSTANCES FOUND'']
      else
        bnd (dload v w) (\<lambda>h.
        if ds_next h = None then Inr [rule_line, ''NO INSTANCES FOUND'']
        else
          bnd (dload (ds_next h) w) (\<lambda>d.
          bnd (sprintf 128 (timeval_to_string (os w) (state_trans_time d))) (\<lambda>s_stt.
          if ds_vr d = None then Inr [rule_line, ''NO VIRTUAL ROUTERS FOUND'']
          else
            bnd (vload (ds_vr d) w) (\<lambda>r.
            bnd (sprintf 8 (dec_str (ucast (vr_id (vr r))))) (\<lambda>s_id.
            bnd (stat_str (state d)) (\<lambda>st.
            bnd (loop (\<lambda>(curr, out).
                   if curr = None then Inr (Inr out)
                   else
                     bnd (vload curr w) (\<lambda>c.
                     bnd (dump_vrrp_vr c w) (\<lambda>o1. Inr (Inl (vr_next c, out @ o1))))) (ds_vr d, [])) (\<lambda>out.
            Inr ([rule_line, ''INSTANCE VRID: '' @ s_id, ''state: '' @ st, ''state_trans_time: '' @ s_stt] @
                 out @ [rule_line])))))))))"

section \<open>How long the texts are\<close>

lemma length_nat_dec: "n < 10 ^ Suc k \<Longrightarrow> length (nat_dec n) \<le> Suc k"
proof (induction k arbitrary: n)
  case 0
  then show ?case by (subst nat_dec.simps) simp
next
  case (Suc k)
  have "n div 10 < 10 ^ Suc k" using Suc.prems by (simp add: div_less_iff_less_mult)
  from Suc.IH [OF this] show ?case by (subst nat_dec.simps) simp
qed

lemma nat_dec_not_Nil [simp]: "nat_dec n \<noteq> []"
  by (subst nat_dec.simps) simp

lemma nat_dec_byte: "length (nat_dec (unat (b :: u8))) \<le> 3"
proof -
  have "unat b < 2 ^ LENGTH(8)" by (rule unsigned_less)
  then show ?thesis using length_nat_dec [of "unat b" 2] by simp
qed

lemma abs_sint32: "nat (sint (x :: cint)) < 10 ^ 10" "nat (- sint x) < 10 ^ 10"
  using sint_range_size [of x] by (simp_all add: word_size) arith+

lemma length_sint_dec: "length (nat_dec (nat (sint (x :: cint)))) \<le> 10" "length (nat_dec (nat (- sint x))) \<le> 10"
  using length_nat_dec [of _ 9] abs_sint32 [of x] by simp_all

lemma length_dec_str: "length (dec_str x) \<le> 11"
  using length_sint_dec [of x] by (simp add: dec_str_def)

lemma length_dec_pad: "w \<le> 10 \<Longrightarrow> length (dec_pad w x) \<le> 11"
  using length_sint_dec [of x] by (simp add: dec_pad_def zpad_def) arith

text \<open>A date always fits the 128 bytes it is formatted into, whatever \<open>localtime\<close> answers.\<close>

lemma length_timeval_to_string: "length (timeval_to_string e tv) < 128"
proof -
  have l: "length (dec_pad 2 x) \<le> 11" "length (dec_pad 3 x) \<le> 11" "length (dec_pad 4 x) \<le> 11" for x
    by (simp_all add: length_dec_pad)
  let ?t = "localtime e (tv_sec tv)"
  show ?thesis
    using l(3) [of "tm_year ?t + 1900"] l(1) [of "tm_mon ?t + 1"] l(1) [of "tm_mday ?t"] l(1) [of "tm_hour ?t"]
      l(1) [of "tm_min ?t"] l(1) [of "tm_sec ?t"] l(2) [of "c_div (tv_usec tv) 1000"]
    by (simp add: timeval_to_string_def Let_def)
qed

lemma sint_ucast_byte: "sint (ucast (b :: u8) :: cint) = int (unat b)"
  by transfer (simp add: signed_take_bit_eq_if_positive bit_simps)

lemma length_byte_dec: "length (dec_str (ucast (b :: u8))) \<le> 3"
  using nat_dec_byte [of b] by (simp add: dec_str_def sint_ucast_byte)

lemma sprintf_fits [simp]: "length s < n \<Longrightarrow> sprintf n s = Inr s"
  and sprintf_overflows [simp]: "n \<le> length s \<Longrightarrow> sprintf n s = Inl BufferOverflow"
  by (simp_all add: sprintf_def)

lemma sprintf_byte [simp]: "4 \<le> n \<Longrightarrow> sprintf n (dec_str (ucast (b :: u8))) = Inr (dec_str (ucast b))"
  by (rule sprintf_fits) (rule le_less_trans [OF length_byte_dec], simp)

lemma sprintf_int [simp]: "12 \<le> n \<Longrightarrow> sprintf n (dec_str x) = Inr (dec_str x)"
  by (rule sprintf_fits) (rule le_less_trans [OF length_dec_str], simp)

lemma dump_attr_eq: "dump_vrrp_attr a = Inr [''priority: '' @ dec_str (ucast (pri a)), ''adv_intval: '' @ dec_str (delay a),
    ''preempt_mode: '' @ bool_str (pree_mode a), ''accept_mode: '' @ bool_str (accept_mode a)]"
  by (simp add: dump_vrrp_attr_def)

section \<open>The addresses of a router\<close>

definition ip_text :: "u8 list \<Rightarrow> nat list \<Rightarrow> string" where
  "ip_text ips is = concat (map (\<lambda>i. dotted (peek (4 * i) 4 ips) @ '','') is)"

lemma cat_ips_eq:
  assumes "\<forall>i \<in> set is. 4 * i + 4 \<le> length ips" and "length s < 256"
  shows "cat_ips AF_INET ips is s =
    (if length s + length (ip_text ips is) < 256 then Inr (s @ ip_text ips is) else Inl BufferOverflow)"
  using assms
proof (induction "is" arbitrary: s)
  case Nil
  then show ?case by (simp add: ip_text_def)
next
  case (Cons i "is")
  have step: "ip_text ips (i # is) = dotted (peek (4 * i) 4 ips) @ '','' @ ip_text ips is"
    by (simp add: ip_text_def)
  show ?case
    using Cons by (auto simp: ntop_at_def strcat_def step sprintf_def)
qed

lemma length_dotted: "length (dotted b) \<le> 15"
  using nat_dec_byte [of "b ! 0"] nat_dec_byte [of "b ! 1"] nat_dec_byte [of "b ! 2"] nat_dec_byte [of "b ! 3"]
  by (simp add: dotted_def)

lemma length_ip_text: "length (ip_text ips is) \<le> 16 * length is"
proof (induction "is")
  case (Cons i "is")
  then show ?case using length_dotted [of "peek (4 * i) 4 ips"] by (simp add: ip_text_def)
qed (simp add: ip_text_def)

lemma ip_text_Nil: "ip_text ips is = [] \<longleftrightarrow> is = []"
  by (cases "is") (simp_all add: ip_text_def)

lemma dump_vr_eq:
  assumes "vr_af r = AF_INET" and "0 < vr_ipnum r" and ips: "length (vr_ip r) = unat (vr_ipnum r) * 4"
  shows "dump_vr r =
    (if length (ip_text (vr_ip r) [0..<unat (vr_ipnum r)]) < 256
     then Inr [''INSTANCE VRID: '' @ dec_str (ucast (vr_id r)), ''addr_family: AF_INET'',
       ''ifname: '' @ str_of (vr_ifname r), ''vr_pip: '' @ dotted (le32 (vr_in4 r))]
     else Inl BufferOverflow)"
proof -
  have "\<forall>i \<in> set [0..<unat (vr_ipnum r)]. 4 * i + 4 \<le> length (vr_ip r)" using ips by auto
  from cat_ips_eq [OF this, of "[]"] have
    "cat_ips AF_INET (vr_ip r) [0..<unat (vr_ipnum r)] [] =
      (if length (ip_text (vr_ip r) [0..<unat (vr_ipnum r)]) < 256 then Inr (ip_text (vr_ip r) [0..<unat (vr_ipnum r)])
       else Inl BufferOverflow)"
    by simp
  moreover have "0 < unat (vr_ipnum r)" using assms(2) by (simp add: word_less_nat_alt)
  ultimately show ?thesis
    using assms(1) by (simp add: dump_vr_def ip_text_Nil ntop_at_def peek_all af_str_def)
qed

text \<open>
  C24: Showing an IPv4 router gives its VRID, family, interface and primary address; the list of its
  addresses, which is put together but not shown, must fit 256 bytes. It does with up to 15
  addresses; a longer list overruns the array when its text is too long.
\<close>

theorem dump_vr_spec:
  assumes "vr_af r = AF_INET" and "0 < vr_ipnum r" and "length (vr_ip r) = unat (vr_ipnum r) * 4"
  shows "(length (ip_text (vr_ip r) [0..<unat (vr_ipnum r)]) < 256 \<longrightarrow>
      dump_vr r = Inr [''INSTANCE VRID: '' @ dec_str (ucast (vr_id r)), ''addr_family: AF_INET'',
        ''ifname: '' @ str_of (vr_ifname r), ''vr_pip: '' @ dotted (le32 (vr_in4 r))]) \<and>
    (256 \<le> length (ip_text (vr_ip r) [0..<unat (vr_ipnum r)]) \<longrightarrow> dump_vr r = Inl BufferOverflow) \<and>
    (vr_ipnum r \<le> 15 \<longrightarrow> length (ip_text (vr_ip r) [0..<unat (vr_ipnum r)]) < 256)"
  using dump_vr_eq [OF assms] length_ip_text [of "vr_ip r" "[0..<unat (vr_ipnum r)]"]
  by (auto simp: word_le_nat_alt)

theorem dump_vr_spec_witness:
  "dump_vr (demo_vr 7) = Inr [''INSTANCE VRID: 7'', ''addr_family: AF_INET'', ''ifname: eth0'', ''vr_pip: 192.168.0.1'']"
  using dump_vr_spec [of "demo_vr 7"]
  by (simp add: dotted_def str_of_def dec_str_def nat_dec.simps le32_def demo_vr_def ip_text_def peek_def cstr_def demo_ifname_def char_of_def bit_0)

section \<open>The display of an instance\<close>

text \<open>
  C25: The daemon shows its first instance after every command. The timer it computes for that, the
  time left of the master-down interval, is formatted into 8 bytes. The age in it counts from 1970,
  because the time of the last advertisement is never recorded; whenever the number has eight
  characters or more the display overruns its stack.
\<close>

theorem display_overruns:
  assumes "ds_heap w 0 = Some h" and "ds_next h = Some q" and "ds_heap w q = Some d" and "ds_vr d = Some a"
    and "vr_heap w a = Some v" and "state d < 4"
    and "8 \<le> length (dec_str (adv_mdi v - adv_age (time_of_day (os w) (trace w)) v))"
  shows "display_vrrp_instx (Some 0) w = Inl BufferOverflow"
proof -
  have "dump_vrrp_vr v w = Inl BufferOverflow"
    using assms(7) length_timeval_to_string by (auto simp: dump_vrrp_vr_def sprintf_def Let_def)
  moreover have "returns (stat_str (state d)) (\<lambda>_. True)"
    using assms(6) by (simp add: stat_str_def vrrp_stats_def word_less_nat_alt)
  ultimately show ?thesis
    using assms length_timeval_to_string
    by (auto simp: display_vrrp_instx_def elim!: returnsE) (subst loop_unfold, simp)
qed

definition demo_clock :: "world \<Rightarrow> world" where
  "demo_clock w = w\<lparr>os := (os w)\<lparr>time_of_day := \<lambda>_. \<lparr>tv_sec = 1262304000, tv_usec = 0\<rparr>\<rparr>\<rparr>"

theorem display_overruns_witness:
  "display_vrrp_instx (Some 0) (demo_clock (demo_unit 2 (Some 11))) = Inl BufferOverflow"
proof (rule display_overruns)
  show "ds_heap (demo_clock (demo_unit 2 (Some 11))) 0 = Some (demo_inst 0 None (Some 1) None)"
    "ds_heap (demo_clock (demo_unit 2 (Some 11))) 1 = Some (demo_inst 2 (Some 11) None (Some 0))"
    "vr_heap (demo_clock (demo_unit 2 (Some 11))) 11 = Some (demo_node 7 1 0 None None)"
    by (simp_all add: demo_clock_def demo_unit_def)
  have t: "time_of_day (os (demo_clock (demo_unit 2 (Some 11)))) x = \<lparr>tv_sec = 1262304000, tv_usec = 0\<rparr>" for x
    by (simp add: demo_clock_def)
  have "adv_mdi (demo_node 7 1 0 None None) - adv_age \<lparr>tv_sec = 1262304000, tv_usec = 0\<rparr> (demo_node 7 1 0 None None) = 2618618880"
    by (simp add: adv_mdi_def adv_skew_def adv_age_def timeval_to_centi_def timeval_delta_def half_up_def c_div_def
        demo_node_def zero_advinfo_def zero_tv_def Let_def)
  moreover have "8 \<le> length (dec_str 2618618880)"
    by (simp add: dec_str_def nat_dec.simps)
  ultimately show "8 \<le> length (dec_str (adv_mdi (demo_node 7 1 0 None None) -
      adv_age (time_of_day (os (demo_clock (demo_unit 2 (Some 11)))) (trace (demo_clock (demo_unit 2 (Some 11)))))
        (demo_node 7 1 0 None None)))" by (simp add: t)
qed simp_all

end
