(* ===== verification/Client.thy ===== *)
theory Client
  imports AdmProto Display
begin

text \<open>
  The client side of libvrrp.c: a command is built, sent to the daemon's socket and the reply is
  read. What the system answers may depend on the calls the client made before.
\<close>

section \<open>The client process\<close>

datatype cl_event = ClSocket | ClBind cint | ClSend cint "u8 list" | ClRecv cint

text \<open>\<open>cl_reply\<close>: the datagram that arrives, or \<open>None\<close> when \<open>recvfrom\<close> fails; \<open>cl_stack\<close>: what
  uninitialised memory holds.\<close>

record cl_env =
  cl_socket :: "cl_event list \<Rightarrow> cint"
  cl_bind :: "cl_event list \<Rightarrow> cint"
  cl_sendto :: "cl_event list \<Rightarrow> cint"
  cl_reply :: "cl_event list \<Rightarrow> u8 list option"
  cl_mem :: "cl_event list \<Rightarrow> bool"
  cl_stack :: "cl_event list \<Rightarrow> u32"
  cl_buf :: "cl_event list \<Rightarrow> u8 list"

text \<open>\<open>out\<close> are the lines it printed; \<open>errno\<close> is not modelled, and its text is left out of them.\<close>

record client =
  env :: cl_env
  calls :: "cl_event list"
  out :: "string list"

definition call :: "cl_event \<Rightarrow> client \<Rightarrow> client" where
  "call e c = c\<lparr>calls := calls c @ [e]\<rparr>"

definition print :: "string \<Rightarrow> client \<Rightarrow> client" where
  "print s c = c\<lparr>out := out c @ [s]\<rparr>"

section \<open>Sending a command\<close>

text \<open>What \<open>build_vrrp_cmd\<close> prints about the arguments it is given.\<close>

fun build_says :: "u32 \<Rightarrow> cmd_arg list \<Rightarrow> string list" where
  "build_says cmd (ArgInt vid # ArgStr intf # ArgInt af # _) =
     (if has_ids cmd then [''vid: '' @ dec_str (ucast (ucast vid :: u8)), ''intf:'' @ str_of intf, ''af:'' @ dec_str af]
      else [])"
| "build_says cmd (ArgInst m vi # _) =
     (if cmd = CMD_CREATE_INST then [''PIP: '' @ dotted (le32 (vr_in4 (vi_vr vi)))] else [])"
| "build_says cmd _ = []"

definition prints :: "string list \<Rightarrow> client \<Rightarrow> client" where
  "prints ls c = c\<lparr>out := out c @ ls\<rparr>"

definition create_vrrpd_socket :: "client \<Rightarrow> cint \<times> client" where
  "create_vrrpd_socket c =
     (let sock = cl_socket (env c) (calls c); c = call ClSocket c in
      if sock <s 0 then (-1, print ''socket()'' c)
      else
        (let r = cl_bind (env c) (calls c); c = call (ClBind sock) c in
         if r <s 0 then (-1, print ''bind()'' c) else (sock, c)))"

text \<open>
  \<open>recvfrom\<close> overwrites the front of the buffer. The pointer to the return value is advanced by four
  elements of four bytes.
\<close>

definition receive :: "u8 list option \<Rightarrow> u8 list \<Rightarrow> cint \<times> u8 list" where
  "receive reply buf = (case reply of None \<Rightarrow> (-1, buf)
     | Some r \<Rightarrow> (of_nat (length (take BUFSIZE r)), poke 0 (take BUFSIZE r) buf))"

definition issue_vrrp_cmd :: "u8 list \<Rightarrow> nat \<Rightarrow> client \<Rightarrow> (cint \<times> client) res" where
  "issue_vrrp_cmd buf plen c =
     (let (sock, c) = create_vrrpd_socket c;
          len = cl_sendto (env c) (calls c); c = call (ClSend sock (take plen buf)) c;
          c = print (''SENT '' @ dec_str len @ '' of '' @ dec_str (of_nat plen) @ '' bytes'') c in
      if len <s 0 then Inr (-1, print ''sendto(): error in sending command to vrrpd'' c)
      else
        let (n, buf) = receive (cl_reply (env c) (calls c)) buf; c = call (ClRecv sock) c in
        bnd (get_vrrp_cmd buf) (\<lambda>cmd.
        if cmd \<noteq> CMD_RETURN_VAL then Inr (-1, print ''INVALID RETURN VALUE'' c)
        else
          let c = print ''RECEIVED CMD_RETURN_VAL command from vrrpd'' c in
          bnd (if n = 8 then
                 bnd (fetch_int (4 * 4) buf) (\<lambda>ret.
                 bnd (vrrp_strerror ret) (\<lambda>s. Inr (print (''RETURN VALUE: '' @ s) c)))
               else Inr c) (\<lambda>c.
          Inr (n, c))))"

text \<open>A failed command falls off the end of \<open>vrrp_all_cmd\<close>.\<close>

definition vrrp_all_cmd :: "u32 \<Rightarrow> cmd_arg list \<Rightarrow> client \<Rightarrow> (u32 \<times> client) res" where
  "vrrp_all_cmd cmd args c =
     bnd (build_vrrp_cmd (cl_mem (env c) (calls c)) (cl_buf (env c) (calls c)) cmd args) (\<lambda>(buf, cmd_len).
     bnd (issue_vrrp_cmd buf cmd_len (prints (build_says cmd args) c)) (\<lambda>(ret, c).
     Inr (if ret \<noteq> -1 then VRRP_SUCCESS else cl_stack (env c) (calls c), c)))"

section \<open>The public functions\<close>

definition cmd_create_inst :: "u8 list \<Rightarrow> vrrp_inst \<Rightarrow> client \<Rightarrow> (u32 \<times> client) res" where
  "cmd_create_inst m inst = vrrp_all_cmd CMD_CREATE_INST [ArgInst m inst]"

definition cmd_destroy_inst :: "u8 \<Rightarrow> u8 list \<Rightarrow> cint \<Rightarrow> client \<Rightarrow> (u32 \<times> client) res" where
  "cmd_destroy_inst vid ifname af = vrrp_all_cmd CMD_REMOVE_INST [ArgInt (ucast vid), ArgStr ifname, ArgInt af]"

definition cmd_startup_inst :: "u8 \<Rightarrow> u8 list \<Rightarrow> cint \<Rightarrow> client \<Rightarrow> (u32 \<times> client) res" where
  "cmd_startup_inst vid ifname af = vrrp_all_cmd CMD_STARTUP_INST [ArgInt (ucast vid), ArgStr ifname, ArgInt af]"

definition cmd_shutdown_inst :: "u8 \<Rightarrow> u8 list \<Rightarrow> cint \<Rightarrow> client \<Rightarrow> (u32 \<times> client) res" where
  "cmd_shutdown_inst vid ifname af = vrrp_all_cmd CMD_SHUTDOWN_INST [ArgInt (ucast vid), ArgStr ifname, ArgInt af]"

definition cmd_set_inst_prop ::
  "u8 \<Rightarrow> u8 list \<Rightarrow> cint \<Rightarrow> cint \<Rightarrow> cint \<Rightarrow> cint \<Rightarrow> cint \<Rightarrow> client \<Rightarrow> (u32 \<times> client) res" where
  "cmd_set_inst_prop vid ifname af prio adv pree acpt =
     vrrp_all_cmd CMD_MODIFY_INST [ArgInt (ucast vid), ArgStr ifname, ArgInt af, ArgInt prio, ArgInt adv,
       ArgInt pree, ArgInt acpt]"

text \<open>The result pointer is passed on, but no one stores an instance through it.\<close>

definition cmd_get_instx :: "u8 \<Rightarrow> u8 list \<Rightarrow> cint \<Rightarrow> client \<Rightarrow> (u32 \<times> client) res" where
  "cmd_get_instx vid ifname af = vrrp_all_cmd CMD_GET_INSTX [ArgInt (ucast vid), ArgStr ifname, ArgInt af, ArgOut]"

text \<open>
  Showing and freeing what a pointer of the client points at: NULL is reported by the display and
  then read by \<open>free_vrrp\<close>, any other value was never an instance.
\<close>

definition show_and_free :: "u32 \<Rightarrow> client \<Rightarrow> client res" where
  "show_and_free im c = (if im = 0 then Inl NullDeref else Inl WildPointer)"

definition cmd_show_all :: "client \<Rightarrow> (u32 \<times> client) res" where
  "cmd_show_all c =
     (let imp = cl_stack (env c) (calls c); ifname = replicate LIFNAMSIZ 0; af = AF_UNSPEC in
      loop (\<lambda>(vid :: u8, c).
        bnd (cmd_get_instx vid ifname af c) (\<lambda>(r, c).
        if r \<noteq> VRRP_SUCCESS then Inr (Inr (VRRP_SUCCESS, c))
        else
          bnd (show_and_free imp c) (\<lambda>c.
          if unat (vid + 1) < 256 then Inr (Inl (vid + 1, c)) else Inr (Inr (VRRP_SUCCESS, c))))) (0, c))"

section \<open>What a caller learns\<close>

text \<open>A client whose calls up to the reply succeed.\<close>

definition connects :: "client \<Rightarrow> bool" where
  "connects c \<longleftrightarrow> (\<forall>t. \<not> cl_socket (env c) t <s 0 \<and> \<not> cl_bind (env c) t <s 0 \<and> \<not> cl_sendto (env c) t <s 0 \<and>
     cl_mem (env c) t \<and> length (cl_buf (env c) t) = BUFSIZE + 1)"

lemma client_simps [simp]:
  "env (call e c) = env c" "calls (call e c) = calls c @ [e]" "out (call e c) = out c"
  "env (print s c) = env c" "calls (print s c) = calls c" "out (print s c) = out c @ [s]"
  "env (prints ls c) = env c" "calls (prints ls c) = calls c" "out (prints ls c) = out c @ ls"
  by (simp_all add: call_def print_def prints_def)

lemma connects_prints [simp]: "connects (prints ls c) = connects c"
  by (simp add: connects_def)

definition cmd_calls :: "client \<Rightarrow> u8 list \<Rightarrow> cl_event list" where
  "cmd_calls c msg = (let sock = cl_socket (env c) (calls c) in [ClSocket, ClBind sock, ClSend sock msg])"

lemma cmd_calls_prints [simp]: "cmd_calls (prints ls c) = cmd_calls c"
  by (simp add: cmd_calls_def fun_eq_iff)

text \<open>What a request makes the client print: its arguments, what \<open>sendto\<close> answered, and that a reply has come.\<close>

definition issue_says :: "client \<Rightarrow> nat \<Rightarrow> string list" where
  "issue_says c n =
     [''SENT '' @ dec_str (cl_sendto (env c) (calls c @ [ClSocket, ClBind (cl_socket (env c) (calls c))])) @ '' of '' @
        dec_str (of_nat n) @ '' bytes'',
      ''RECEIVED CMD_RETURN_VAL command from vrrpd'']"

definition req_says :: "request \<Rightarrow> client \<Rightarrow> string list" where
  "req_says r c = build_says (req_cmd r) (req_args r) @ issue_says c (length (req_msg r))"

lemma issue_says_prints [simp]: "issue_says (prints ls c) n = issue_says c n"
  by (simp add: issue_says_def)

lemma build_says_args [simp]: "build_says (req_cmd r) (req_args r @ xs) = build_says (req_cmd r) (req_args r)"
  by (cases r) simp_all

text \<open>The client once a request is out and a reply is in.\<close>

definition replied :: "request \<Rightarrow> client \<Rightarrow> client" where
  "replied r c = c\<lparr>calls := calls c @ cmd_calls c (req_msg r) @ [ClRecv (cl_socket (env c) (calls c))],
     out := out c @ req_says r c\<rparr>"

lemma create_socket_ok:
  "connects c \<Longrightarrow> create_vrrpd_socket c =
    (cl_socket (env c) (calls c), c\<lparr>calls := calls c @ [ClSocket, ClBind (cl_socket (env c) (calls c))]\<rparr>)"
  by (auto simp: create_vrrpd_socket_def connects_def call_def Let_def)

lemma issue_ok:
  assumes c: "connects c" and n: "n \<le> length buf" and buf: "length buf = BUFSIZE + 1"
    and reply: "cl_reply (env c) (calls c @ cmd_calls c (take n buf)) = Some (le32 CMD_RETURN_VAL @ tail)"
    and small: "length tail \<le> BUFSIZE - 4"
  shows "issue_vrrp_cmd buf n c =
    (let c' = c\<lparr>calls := calls c @ cmd_calls c (take n buf) @ [ClRecv (cl_socket (env c) (calls c))],
         out := out c @ issue_says c n\<rparr> in
     if length tail = 4 then
       bnd (vrrp_strerror (get32 16 buf)) (\<lambda>s. Inr (8, print (''RETURN VALUE: '' @ s) c'))
     else Inr (of_nat (4 + length tail), c'))"
proof -
  let ?r = "le32 CMD_RETURN_VAL @ tail" and ?b = "poke 0 (le32 CMD_RETURN_VAL @ tail) buf"
  have t: "take BUFSIZE ?r = ?r" using small by (simp add: BUFSIZE_def)
  have n8: "(of_nat (4 + length tail) :: cint) = 8 \<longleftrightarrow> length tail = 4"
  proof -
    have "4 + length tail < 2 ^ 32" using small by (simp add: BUFSIZE_def)
    then have "unat (of_nat (4 + length tail) :: cint) = 4 + length tail"
      by (simp only: unsigned_of_nat) (simp add: take_bit_nat_eq_self)
    then have "(of_nat (4 + length tail) :: cint) = 8 \<longleftrightarrow> 4 + length tail = unat (8 :: cint)"
      by (metis word_unat_eq_iff)
    then show ?thesis by simp
  qed
  have cmd: "get_vrrp_cmd ?b = Inr CMD_RETURN_VAL"
    using fetch_int_at [of "[]" 0 CMD_RETURN_VAL] by (simp add: get_vrrp_cmd_def poke_def)
  have ret: "fetch_int 16 ?b = Inr (get32 16 buf)" if "length tail = 4"
    using that buf by (simp add: fetch_int_def fetch_def peek_poke_after BUFSIZE_def get32_peek)
  have sl: "\<not> cl_sendto (env c) x <s 0" for x using c by (simp add: connects_def)
  show ?thesis
    unfolding issue_vrrp_cmd_def
    using reply c n8 cmd ret sl t
    by (auto simp: create_socket_ok receive_def Let_def cmd_calls_def call_def print_def issue_says_def bnd_assoc)
qed

lemma all_cmd_ok:
  assumes c: "connects c" and r: "req_ok r"
    and reply: "cl_reply (env c) (calls c @ cmd_calls c (req_msg r)) = Some (le32 CMD_RETURN_VAL @ tail)"
    and small: "length tail \<le> BUFSIZE - 4"
  shows "vrrp_all_cmd (req_cmd r) (req_args r @ xs) c =
    (if length tail = 4 then
       bnd (vrrp_strerror (get32 16 (fst (written (req_msg r) (cl_buf (env c) (calls c))))))
         (\<lambda>s. Inr (VRRP_SUCCESS, print (''RETURN VALUE: '' @ s) (replied r c)))
     else Inr (VRRP_SUCCESS, replied r c))"
proof -
  let ?buf = "cl_buf (env c) (calls c)"
  have len: "length ?buf = BUFSIZE + 1" and mem: "cl_mem (env c) (calls c)" using c by (simp_all add: connects_def)
  have build: "build_vrrp_cmd True ?buf (req_cmd r) (req_args r @ xs) = Inr (written (req_msg r) ?buf)"
    by (rule build_msg [OF r len])
  obtain buf n where w: "written (req_msg r) ?buf = (buf, n)" by force
  have fit: "length (req_msg r) \<le> BUFSIZE" by (rule req_msg_fits [OF r])
  have b: "buf = req_msg r @ drop (length (req_msg r)) ?buf" "n = length (req_msg r)"
    using w by (auto simp: written_def)
  have n: "n \<le> length buf" "length buf = BUFSIZE + 1" "take n buf = req_msg r" using b len fit by simp_all
  have small': "(of_nat (4 + length tail) :: cint) \<noteq> -1"
  proof -
    have "4 + length tail < 2 ^ 32" using small by (simp add: BUFSIZE_def)
    then have "unat (of_nat (4 + length tail) :: cint) = 4 + length tail"
      by (simp only: unsigned_of_nat) (simp add: take_bit_nat_eq_self)
    moreover have "unat (-1 :: cint) = 2 ^ 32 - 1" by (simp add: unsigned_minus_1_eq_mask mask_eq_exp_minus_1)
    ultimately show ?thesis using small by (auto simp: BUFSIZE_def simp del: of_nat_add)
  qed
  let ?c = "prints (build_says (req_cmd r) (req_args r)) c"
  have "?c\<lparr>calls := calls ?c @ cmd_calls ?c (req_msg r) @ [ClRecv (cl_socket (env ?c) (calls ?c))], out := out ?c @ issue_says ?c n\<rparr> =
      replied r c"
    by (simp add: replied_def req_says_def prints_def b issue_says_def cmd_calls_def)
  then have issue: "issue_vrrp_cmd buf n ?c =
    (if length tail = 4 then
       bnd (vrrp_strerror (get32 16 buf)) (\<lambda>s. Inr (8, print (''RETURN VALUE: '' @ s) (replied r c)))
     else Inr (of_nat (4 + length tail), replied r c))"
    using issue_ok [of ?c n buf tail] c n reply small by simp
  show ?thesis
    using small' by (simp add: vrrp_all_cmd_def mem build w issue bnd_assoc)
qed

text \<open>
  Whatever the daemon answered, the client reports success. The code that the daemon returns is
  never read: a reply of another length than eight bytes is not looked at, and of a reply of
  eight bytes the client prints the name for four bytes of its own buffer further on (of the
  command it sent, or of what the stack held), or indexes the table of names out of bounds.
\<close>

theorem reply_code_ignored:
  assumes "connects c" and "req_ok r"
    and "cl_reply (env c) (calls c @ cmd_calls c (req_msg r)) = Some (le32 CMD_RETURN_VAL @ tail)"
    and "length tail \<le> BUFSIZE - 4"
  shows "(length tail \<noteq> 4 \<longrightarrow> returns (vrrp_all_cmd (req_cmd r) (req_args r @ xs) c)
      (\<lambda>(ret, c'). ret = VRRP_SUCCESS \<and> out c' = out c @ req_says r c)) \<and>
    (length tail = 4 \<longrightarrow> (let x = get32 16 (req_msg r @ drop (length (req_msg r)) (cl_buf (env c) (calls c))) in
       if unat x < 9 then returns (vrrp_all_cmd (req_cmd r) (req_args r @ xs) c)
         (\<lambda>(ret, c'). ret = VRRP_SUCCESS \<and> out c' = out c @ req_says r c @ [''RETURN VALUE: '' @ vrrp_rets ! unat x])
       else vrrp_all_cmd (req_cmd r) (req_args r @ xs) c = Inl OutOfBounds))"
  using all_cmd_ok [OF assms, of xs]
  by (auto simp: Let_def written_def vrrp_strerror_def vrrp_rets_def replied_def)

definition demo_client :: "u8 list option \<Rightarrow> client" where
  "demo_client reply = \<lparr>env = \<lparr>cl_socket = (\<lambda>_. 3), cl_bind = (\<lambda>_. 0), cl_sendto = (\<lambda>_. 20), cl_reply = (\<lambda>_. reply),
     cl_mem = (\<lambda>_. True), cl_stack = (\<lambda>_. 0xBEEF), cl_buf = (\<lambda>_. replicate (BUFSIZE + 1) 0)\<rparr>, calls = [], out = []\<rparr>"

lemma connects_demo: "connects (demo_client reply)"
  by (simp add: connects_def demo_client_def word_sless_alt)

theorem reply_code_ignored_witness:
  "returns (vrrp_all_cmd CMD_STARTUP_INST [ArgInt 7, ArgStr [101, 116, 104, 48], ArgInt 2]
     (demo_client (Some (le32 CMD_RETURN_VAL)))) (\<lambda>(ret, c'). ret = VRRP_SUCCESS \<and> out c' =
       [''vid: 7'', ''intf:eth0'', ''af:2'', ''SENT 20 of 14 bytes'', ''RECEIVED CMD_RETURN_VAL command from vrrpd''])"
proof -
  have "req_ok (ReqInst CMD_STARTUP_INST 7 [101, 116, 104, 48] 2)" by (simp add: has_ids_def fits_name_def)
  from reply_code_ignored [OF connects_demo this, of "Some (le32 CMD_RETURN_VAL)" "[]" "[]"] show ?thesis
    by (simp add: demo_client_def BUFSIZE_def req_says_def issue_says_def has_ids_def str_of_def dec_str_def nat_dec.simps
        ids_msg_def cstr_def char_of_def bit_0)
qed

text \<open>
  Showing all instances: the daemon's first answer that is a return value crashes the client, since
  the pointer it shows was never set; otherwise the loop ends after one question, unless the
  uninitialised result happens to be 0.
\<close>

lemma show_all_eq: "cmd_show_all c =
  bnd (cmd_get_instx 0 (replicate LIFNAMSIZ 0) AF_UNSPEC c) (\<lambda>(r, c').
    if r \<noteq> VRRP_SUCCESS then Inr (VRRP_SUCCESS, c')
    else Inl (if cl_stack (env c) (calls c) = 0 then NullDeref else WildPointer))"
  unfolding cmd_show_all_def Let_def
  by (subst loop_unfold)
    (cases "cmd_get_instx 0 (replicate LIFNAMSIZ 0) AF_UNSPEC c", auto simp: show_and_free_def)

end
