(* ===== verification/CLib.thy ===== *)
theory CLib
  imports Display
begin

text \<open>
  What the programs use of the C library to read and write numbers and addresses: \<open>strtol\<close> with base 0,
  \<open>inet_pton\<close> and \<open>inet_addr\<close> for IPv4, \<open>ether_aton\<close> and \<open>ether_ntoa\<close>. Strings end where the list does.
\<close>

text \<open>A pointer the program dereferences without looking whether it is NULL.\<close>

definition deref :: "'a option \<Rightarrow> 'a res" where
  "deref p = (case p of None \<Rightarrow> Inl NullDeref | Some x \<Rightarrow> Inr x)"

section \<open>Digits\<close>

definition isspace :: "char \<Rightarrow> bool" where
  "isspace c \<longleftrightarrow> of_char c = (32 :: nat) \<or> 9 \<le> (of_char c :: nat) \<and> of_char c \<le> (13 :: nat)"

definition digit_val :: "char \<Rightarrow> nat option" where
  "digit_val c =
     (let n = of_char c :: nat in
      if 48 \<le> n \<and> n \<le> 57 then Some (n - 48)
      else if 97 \<le> n \<and> n \<le> 102 then Some (n - 87)
      else if 65 \<le> n \<and> n \<le> 70 then Some (n - 55)
      else None)"

definition isdigit :: "char \<Rightarrow> bool" where
  "isdigit c \<longleftrightarrow> 48 \<le> (of_char c :: nat) \<and> of_char c \<le> (57 :: nat)"

text \<open>The longest run of digits of the base: its value on top of \<open>acc\<close>, and what follows it.\<close>

fun read_digits :: "nat \<Rightarrow> nat \<Rightarrow> string \<Rightarrow> nat \<times> string" where
  "read_digits base acc [] = (acc, [])"
| "read_digits base acc (c # s) =
     (case digit_val c of
        Some d \<Rightarrow> if d < base then read_digits base (acc * base + d) s else (acc, c # s)
      | None \<Rightarrow> (acc, c # s))"

definition has_digit :: "nat \<Rightarrow> string \<Rightarrow> bool" where
  "has_digit base s = (case s of [] \<Rightarrow> False | c # _ \<Rightarrow> (case digit_val c of None \<Rightarrow> False | Some d \<Rightarrow> d < base))"

text \<open>Base 0: hexadecimal after 0x, octal after 0, decimal otherwise.\<close>

definition read_number :: "string \<Rightarrow> nat \<times> string" where
  "read_number s =
     (if take 1 s = ''0'' then
        if (take 1 (drop 1 s) = ''x'' \<or> take 1 (drop 1 s) = ''X'') \<and> has_digit 16 (drop 2 s)
        then read_digits 16 0 (drop 2 s)
        else read_digits 8 0 s
      else read_digits 10 0 s)"

text \<open>\<open>strtol(s, NULL, 0)\<close>, a 32-bit \<open>long\<close> that saturates.\<close>

definition strtol :: "string \<Rightarrow> cint" where
  "strtol s =
     (let s = dropWhile isspace s; neg = take 1 s = ''-'';
          s = (if neg \<or> take 1 s = ''+'' then drop 1 s else s);
          n = int (fst (read_number s))
      in word_of_int (if neg then max (- (2 ^ 31)) (- n) else min (2 ^ 31 - 1) n))"

section \<open>Internet addresses\<close>

text \<open>\<open>inet_pton(AF_INET, ..)\<close>: the octets that are complete, and the one that is read.\<close>

fun pton4 :: "nat list \<Rightarrow> nat option \<Rightarrow> string \<Rightarrow> u8 list option" where
  "pton4 done cur [] =
     (case cur of None \<Rightarrow> None
      | Some n \<Rightarrow> if length done = 3 then Some (map of_nat (done @ [n])) else None)"
| "pton4 done cur (c # s) =
     (if isdigit c then
        let n = (case cur of None \<Rightarrow> 0 | Some m \<Rightarrow> 10 * m) + (of_char c - 48) in
        if cur = Some 0 \<or> 255 < n then None else pton4 done (Some n) s
      else if c = CHR ''.'' then
        (case cur of None \<Rightarrow> None
         | Some n \<Rightarrow> if length done = 3 then None else pton4 (done @ [n]) None s)
      else None)"

definition inet_pton4 :: "string \<Rightarrow> u8 list option" where
  "inet_pton4 s = pton4 [] None s"

text \<open>
  \<open>inet_addr\<close>: up to four numbers, of which all but the last are bytes and the last fills the rest.
  The result is the address in memory; \<open>k\<close> counts the dots that may follow.
\<close>

fun be_bytes :: "nat \<Rightarrow> nat \<Rightarrow> u8 list" where
  "be_bytes 0 n = []"
| "be_bytes (Suc k) n = of_nat (n div 256 ^ k) # be_bytes k (n mod 256 ^ k)"

fun inet_aton :: "nat \<Rightarrow> u8 list \<Rightarrow> string \<Rightarrow> u8 list option" where
  "inet_aton k bs s =
     (if s = [] \<or> \<not> isdigit (hd s) then None
      else
        let (v, s') = read_number s in
        if 2 ^ 32 \<le> v then None
        else if take 1 s' = ''.'' then
          (case k of 0 \<Rightarrow> None | Suc k' \<Rightarrow> if 255 < v then None else inet_aton k' (bs @ [of_nat v]) (tl s'))
        else if s' \<noteq> [] \<and> \<not> isspace (hd s') then None
        else if 256 ^ Suc k \<le> v then None
        else Some (bs @ be_bytes (Suc k) v))"

declare inet_aton.simps [simp del]

definition INADDR_NONE :: "u8 list" where "INADDR_NONE = [255, 255, 255, 255]"

definition inet_addr :: "string \<Rightarrow> u8 list" where
  "inet_addr s = (case inet_aton 3 [] s of None \<Rightarrow> INADDR_NONE | Some bs \<Rightarrow> bs)"

abbreviation inet_ntoa :: "u8 list \<Rightarrow> string" where "inet_ntoa \<equiv> dotted"

section \<open>Ethernet addresses\<close>

definition hex_char :: "nat \<Rightarrow> char" where
  "hex_char n = (if n < 10 then char_of (48 + n) else char_of (87 + n))"

definition hex_str :: "nat \<Rightarrow> string" where
  "hex_str n = (if n < 16 then [hex_char n] else [hex_char (n div 16), hex_char (n mod 16)])"

definition ether_str :: "u8 list \<Rightarrow> string" where
  "ether_str b =
     hex_str (unat (b ! 0)) @ '':'' @ hex_str (unat (b ! 1)) @ '':'' @ hex_str (unat (b ! 2)) @ '':'' @
     hex_str (unat (b ! 3)) @ '':'' @ hex_str (unat (b ! 4)) @ '':'' @ hex_str (unat (b ! 5))"

text \<open>One or two digits and what ends them: a colon, or for the last byte a space or nothing.\<close>

definition mac_byte :: "bool \<Rightarrow> string \<Rightarrow> (nat \<times> string) option" where
  "mac_byte is_last s =
     (let stop = (\<lambda>s. if is_last then s = [] \<or> isspace (hd s) else take 1 s = '':'') in
      case s of [] \<Rightarrow> None
      | c # s' \<Rightarrow>
          (case digit_val c of None \<Rightarrow> None
           | Some d \<Rightarrow>
               if stop s' then Some (d, tl s')
               else (case s' of [] \<Rightarrow> None
                     | c' # s'' \<Rightarrow>
                         (case digit_val c' of None \<Rightarrow> None
                          | Some e \<Rightarrow> if \<not> is_last \<and> \<not> stop s'' then None else Some (16 * d + e, tl s'')))))"

fun mac_bytes :: "nat \<Rightarrow> string \<Rightarrow> u8 list option" where
  "mac_bytes 0 s = Some []"
| "mac_bytes (Suc n) s =
     (case mac_byte (n = 0) s of None \<Rightarrow> None
      | Some (b, s') \<Rightarrow> map_option (\<lambda>bs. of_nat b # bs) (mac_bytes n s'))"

definition ether_aton :: "string \<Rightarrow> u8 list option" where
  "ether_aton s = mac_bytes 6 s"

lemma ether_aton_unfold: "ether_aton s = mac_bytes (Suc (Suc (Suc (Suc (Suc (Suc 0)))))) s"
  by (simp add: ether_aton_def numeral_eq_Suc)

section \<open>What is written is read back\<close>

lemma sint_of_nat: "n < 2 ^ 31 \<Longrightarrow> sint (of_nat n :: cint) = int n"
  by (simp add: signed_of_nat signed_take_bit_int_eq_self)

lemma of_char_digit: "n < 10 \<Longrightarrow> (of_char (char_of (48 + n)) :: nat) = 48 + n"
  by simp

lemma digit_val_dec [simp]: "n < 10 \<Longrightarrow> digit_val (char_of (48 + n)) = Some n"
  by (simp add: digit_val_def)

lemma digit_val_hex [simp]: "n < 16 \<Longrightarrow> digit_val (hex_char n) = Some n"
  by (simp add: digit_val_def hex_char_def)

lemma read_digits_append:
  "read_digits base acc s = (v, []) \<Longrightarrow> read_digits base acc (s @ t) = read_digits base v t"
  by (induction s arbitrary: acc) (auto split: option.splits if_splits)

lemma read_digits_nat_dec [simp]: "read_digits 10 0 (nat_dec n) = (n, [])"
proof (induction n rule: nat_dec.induct)
  case (1 n)
  then show ?case
    by (subst nat_dec.simps) (auto simp: read_digits_append)
qed

lemma read_digits_stop: "digit_val c = None \<Longrightarrow> read_digits base acc (c # s) = (acc, c # s)"
  by simp

lemma hd_nat_dec: "\<exists>d<10::nat. take 1 (nat_dec n) = [char_of (48 + d)] \<and> (d = 0 \<longrightarrow> n = 0) \<and> nat_dec n \<noteq> []"
proof (induction n rule: nat_dec.induct)
  case (1 n)
  show ?case
  proof (cases "n < 10")
    case True then show ?thesis by (subst (1 2) nat_dec.simps) auto
  next
    case False
    with 1 obtain d :: nat where d: "d < 10" "take 1 (nat_dec (n div 10)) = [char_of (48 + d)]" "d = 0 \<longrightarrow> n div 10 = 0"
      "nat_dec (n div 10) \<noteq> []" by auto
    from False have "nat_dec n = nat_dec (n div 10) @ [char_of (48 + n mod 10)]" by (subst nat_dec.simps) simp
    with d False show ?thesis by (intro exI [of _ d]) (cases "nat_dec (n div 10)", auto)
  qed
qed

text \<open>A decimal number is read back, up to the first character that is no digit.\<close>

lemma read_number_dec:
  assumes "s = [] \<or> digit_val (hd s) = None \<and> hd s \<noteq> CHR ''x'' \<and> hd s \<noteq> CHR ''X''"
  shows "read_number (nat_dec n @ s) = (n, s)"
proof -
  obtain d :: nat where d: "d < 10" "take 1 (nat_dec n) = [char_of (48 + d)]" "d = 0 \<longrightarrow> n = 0" "nat_dec n \<noteq> []"
    using hd_nat_dec by blast
  have stop: "read_digits b v s = (v, s)" for b v
    using assms by (cases s) auto
  show ?thesis
  proof (cases "n = 0")
    case True
    then have "nat_dec n = ''0''" by (subst nat_dec.simps) (simp add: char_of_eq_iff)
    with assms True stop show ?thesis
      by (cases s) (auto simp: read_number_def digit_val_def)
  next
    case False
    with d have "take 1 (nat_dec n @ s) \<noteq> ''0''"
      by (cases "nat_dec n") (auto simp: char_of_eq_iff take_bit_nat_eq_self)
    with stop show ?thesis by (simp add: read_number_def read_digits_append [OF read_digits_nat_dec])
  qed
qed

lemma strtol_dec:
  assumes "n < 2 ^ 31"
  shows "strtol (nat_dec n) = of_nat n"
proof -
  obtain d :: nat where d: "d < 10" "take 1 (nat_dec n) = [char_of (48 + d)]" "nat_dec n \<noteq> []"
    using hd_nat_dec by blast
  then obtain t where t: "nat_dec n = char_of (48 + d) # t" by (cases "nat_dec n") auto
  have "\<not> isspace (char_of (48 + d))" "char_of (48 + d) \<noteq> CHR ''-''" "char_of (48 + d) \<noteq> CHR ''+''"
    using d(1) by (auto simp: isspace_def char_of_eq_iff take_bit_nat_eq_self)
  then have "dropWhile isspace (nat_dec n) = nat_dec n" "take 1 (nat_dec n) \<noteq> ''-''" "take 1 (nat_dec n) \<noteq> ''+''"
    by (simp_all add: t)
  then have "strtol (nat_dec n) = word_of_int (min (2 ^ 31 - 1) (int n))"
    using read_number_dec [of "[]" n] by (simp add: strtol_def Let_def)
  with assms show ?thesis by simp
qed

lemma isdigit_dec: "isdigit (hd (nat_dec n @ s)) \<and> nat_dec n @ s \<noteq> []"
proof -
  obtain d :: nat where "d < 10" "take 1 (nat_dec n) = [char_of (48 + d)]" "nat_dec n \<noteq> []"
    using hd_nat_dec by blast
  then show ?thesis by (cases "nat_dec n") (auto simp: isdigit_def)
qed

text \<open>An address that is printed is read back by \<open>inet_addr\<close>.\<close>

lemma aton_byte:
  assumes "n < 256"
  shows "inet_aton (Suc k) bs (nat_dec n @ CHR ''.'' # s) = inet_aton k (bs @ [of_nat n]) s"
proof -
  have "read_number (nat_dec n @ CHR ''.'' # s) = (n, CHR ''.'' # s)"
    by (rule read_number_dec) (simp add: digit_val_def)
  with assms isdigit_dec [of n] show ?thesis by (subst inet_aton.simps) simp
qed

lemma aton_last: "n < 256 \<Longrightarrow> inet_aton 0 bs (nat_dec n) = Some (bs @ [of_nat n])"
  using read_number_dec [of "[]" n] isdigit_dec [of n "[]"] by (subst inet_aton.simps) simp

lemma inet_addr_ntoa:
  assumes "length b = 4"
  shows "inet_addr (inet_ntoa b) = b"
proof -
  obtain x y z t where b: "b = [x, y, z, t]" using assms by (auto simp: numeral_eq_Suc length_Suc_conv)
  have lt: "unat (u :: u8) < 256" for u using unsigned_less [of u] by simp
  show ?thesis
    unfolding b by (simp add: inet_addr_def dotted_def numeral_3_eq_3 aton_byte aton_last lt)
qed

text \<open>And an Ethernet address by \<open>ether_aton\<close>.\<close>

lemma mac_byte_hex:
  assumes "n < 256"
  shows "mac_byte False (hex_str n @ CHR '':'' # s) = Some (n, s)" and "mac_byte True (hex_str n) = Some (n, [])"
proof -
  have *: "isspace (hex_char m) = False" "hex_char m \<noteq> CHR '':''" if "m < 16" for m
    using that by (auto simp: isspace_def hex_char_def char_of_eq_iff take_bit_nat_eq_self)
  have "n div 16 < 16" using assms by simp
  then show "mac_byte False (hex_str n @ CHR '':'' # s) = Some (n, s)" "mac_byte True (hex_str n) = Some (n, [])"
    using * by (simp_all add: hex_str_def mac_byte_def Let_def)
qed

lemma ether_aton_str:
  assumes "length m = 6"
  shows "ether_aton (ether_str m) = Some m"
proof -
  obtain a b c d e f where m: "m = [a, b, c, d, e, f]" using assms by (auto simp: numeral_eq_Suc length_Suc_conv)
  have lt: "unat (u :: u8) < 256" for u using unsigned_less [of u] by simp
  show ?thesis
    unfolding m by (simp add: ether_aton_unfold ether_str_def mac_byte_hex lt)
qed

end
