(* ===== verification/Cli.thy ===== *)
theory Cli
  imports Client CLib
begin

text \<open>
  vrrpadm.c: the command line of the administrator. A line is split at its blanks, the first word selects
  a function, which reads its options with \<open>getopt\<close> and calls the client library. Memory that was never
  written holds what \<open>stk\<close> says, by variable.
\<close>

section \<open>The process\<close>

definition CMDMAXLEN :: nat where "CMDMAXLEN = 255"

text \<open>The thirty words of the last lines, and the client of the library.\<close>

record cli =
  subcmd :: "string list"
  stk :: "nat \<Rightarrow> u8 list"
  cl :: client

definition say :: "string \<Rightarrow> cli \<Rightarrow> cli" where
  "say s st = st\<lparr>cl := print s (cl st)\<rparr>"

definition on_client :: "(client \<Rightarrow> (u32 \<times> client) res) \<Rightarrow> cli \<Rightarrow> (u32 \<times> cli) res" where
  "on_client f st = bnd (f (cl st)) (\<lambda>(r, c). Inr (r, st\<lparr>cl := c\<rparr>))"

definition VR_PROP_UNPREEMPT :: cint where [simp]: "VR_PROP_UNPREEMPT = 0"
definition VR_PROP_NOTACCEPTED :: cint where [simp]: "VR_PROP_NOTACCEPTED = 0"

text \<open>
  Reading a line: every character is stored into the current word, and neither the number of words nor
  their length is checked. At the end of the input \<open>fgetc\<close> delivers the same character for ever.
\<close>

definition until_nul :: "string \<Rightarrow> string" where
  "until_nul w = takeWhile (\<lambda>c. c \<noteq> CHR 0x00) w"

fun read_line :: "string \<Rightarrow> nat \<Rightarrow> string \<Rightarrow> string list \<Rightarrow> (string list \<times> nat \<times> string) res" where
  "read_line [] i w words = Inl BufferOverflow"
| "read_line (c # s) i w words =
     (if \<not> i < length words then Inl OutOfBounds
      else if \<not> length w < CMDMAXLEN then Inl BufferOverflow
      else if c = CHR 0x0A then Inr (words[i := until_nul w], i + 1, s)
      else if c = CHR '' '' then read_line s (i + 1) [] (words[i := until_nul w])
      else read_line s i (w @ [c]) words)"

definition print_args :: "string \<Rightarrow> nat \<Rightarrow> cli \<Rightarrow> cli res" where
  "print_args cmd argc st =
     (if argc < length (subcmd st) then
        Inr (say (concat (map (\<lambda>i. subcmd st ! i @ '' '') [1..<argc + 1])) (say ''ARGUMENTS:'' (say cmd st)))
      else Inl OutOfBounds)"

section \<open>getopt\<close>

text \<open>
  What \<open>getopt\<close> delivers for an option string, with the arguments in the order it leaves them in: the
  options first, the other words behind them. An option that is not known, or whose argument is
  missing, is a question mark.
\<close>

type_synonym opt = "char \<times> string option"

fun takes_arg :: "string \<Rightarrow> char \<Rightarrow> bool option" where
  "takes_arg [] c = None"
| "takes_arg (x # s) c = (if x = c \<and> c \<noteq> CHR '':'' then Some (take 1 s = '':'') else takes_arg s c)"

fun cluster :: "string \<Rightarrow> string \<Rightarrow> opt list \<times> char option" where
  "cluster spec [] = ([], None)"
| "cluster spec (c # s) =
     (case takes_arg spec c of
        None \<Rightarrow> let (es, need) = cluster spec s in ((CHR ''?'', None) # es, need)
      | Some False \<Rightarrow> let (es, need) = cluster spec s in ((c, None) # es, need)
      | Some True \<Rightarrow> if s = [] then ([], Some c) else ([(c, Some s)], None))"

fun getopt :: "string \<Rightarrow> string list \<Rightarrow> opt list \<times> string list \<times> string list" where
  "getopt spec [] = ([], [], [])"
| "getopt spec [a] =
     (if a = ''--'' then ([], [a], [])
      else if take 1 a = ''-'' \<and> 1 < length a then
        (case cluster spec (tl a) of
           (es, None) \<Rightarrow> (es, [a], [])
         | (es, Some c) \<Rightarrow> (es @ [(CHR ''?'', None)], [a], []))
      else ([], [], [a]))"
| "getopt spec (a # b # as) =
     (if a = ''--'' then ([], [a], b # as)
      else if take 1 a = ''-'' \<and> 1 < length a then
        (case cluster spec (tl a) of
           (es, None) \<Rightarrow> let (es', os, ns) = getopt spec (b # as) in (es @ es', a # os, ns)
         | (es, Some c) \<Rightarrow> let (es', os, ns) = getopt spec as in (es @ (c, Some b) # es', a # b # os, ns))
      else let (es, os, ns) = getopt spec (b # as) in (es, os, a # ns))"

text \<open>A pass over the first \<open>argc\<close> words, of which the first is the command.\<close>

definition getopt_all :: "string \<Rightarrow> nat \<Rightarrow> cli \<Rightarrow> opt list \<times> cli" where
  "getopt_all spec argc st =
     (let (es, os, ns) = getopt spec (take (argc - 1) (tl (subcmd st)))
      in (es, st\<lparr>subcmd := hd (subcmd st) # os @ ns @ drop argc (subcmd st)\<rparr>))"

section \<open>Options\<close>

definition usage :: "cli \<Rightarrow> cli" where
  "usage st = say ''incorrect use of commands..'' st"

text \<open>\<open>vid\<close>, the array \<open>ifname\<close> and \<open>af\<close>, option by option.\<close>

fun parse_opt_id :: "opt \<Rightarrow> u8 \<times> u8 list \<times> cint \<times> cli \<Rightarrow> (u8 \<times> u8 list \<times> cint \<times> cli) res" where
  "parse_opt_id (c, arg) (vid, ifname, af, st) =
     (case arg of
        None \<Rightarrow> Inr (vid, ifname, af, usage st)
      | Some optarg \<Rightarrow>
          if c = CHR ''v'' then Inr (ucast (strtol optarg), ifname, af, st)
          else if c = CHR ''a'' then Inr (vid, ifname, if strtol optarg = 4 then AF_INET else af, st)
          else if c = CHR ''i'' then bnd (strcpy ifname (bytes_of optarg)) (\<lambda>ifname. Inr (vid, ifname, af, st))
          else Inr (vid, ifname, af, usage st))"

fun each :: "('a \<Rightarrow> 's \<Rightarrow> 's res) \<Rightarrow> 'a list \<Rightarrow> 's \<Rightarrow> 's res" where
  "each f [] s = Inr s"
| "each f (x # xs) s = bnd (f x s) (each f xs)"

definition parse_opt_ids :: "nat \<Rightarrow> cli \<Rightarrow> (u8 \<times> u8 list \<times> cint \<times> cli) res" where
  "parse_opt_ids argc st =
     (let (es, st) = getopt_all ''v:a:i:'' argc st in
      bnd (each parse_opt_id es (0, poke 0 [0] (stk st 0), AF_INET, st)) (\<lambda>(vid, ifname, af, st).
      Inr (vid, ifname, af,
        say (''ifname:'' @ str_of ifname) (say (''af: '' @ dec_str af) (say (''vid: '' @ dec_str (ucast vid)) st)))))"

text \<open>
  \<open>process_opt_flags\<close>: \<open>getsubopt\<close> moves \<open>subopts\<close> behind each suboption, so that what is freed in the end is no
  longer the pointer \<open>strdup\<close> returned.
\<close>

definition set_opt_flag :: "string \<Rightarrow> u32 \<times> u32 \<Rightarrow> u32 \<times> u32" where
  "set_opt_flag name s =
     (if name = ''preempt'' then (VR_PROP_PREEMPT, snd s)
      else if name = ''un_preempt'' then (VR_PROP_UNPREEMPT, snd s)
      else if name = ''accept'' then (fst s, VR_PROP_ACCEPTED)
      else if name = ''not_accept'' then (fst s, VR_PROP_NOTACCEPTED)
      else s)"

function opt_flags :: "string \<Rightarrow> u32 \<times> u32 \<Rightarrow> u32 \<times> u32" where
  "opt_flags subopts s =
     (if subopts = [] then s
      else opt_flags (drop 1 (dropWhile (\<lambda>c. c \<noteq> CHR '','') subopts))
        (set_opt_flag (takeWhile (\<lambda>c. c \<noteq> CHR ''='') (takeWhile (\<lambda>c. c \<noteq> CHR '','') subopts)) s))"
  by pat_completeness auto
termination
proof (relation "measure (\<lambda>(subopts, s). length subopts)")
  fix subopts :: string and s :: "u32 \<times> u32"
  assume "subopts \<noteq> []"
  then show "((drop 1 (dropWhile (\<lambda>c. c \<noteq> CHR '','') subopts),
      set_opt_flag (takeWhile (\<lambda>c. c \<noteq> CHR ''='') (takeWhile (\<lambda>c. c \<noteq> CHR '','') subopts)) s), subopts, s)
      \<in> measure (\<lambda>(subopts, s). length subopts)"
    using length_dropWhile_le [of "\<lambda>c. c \<noteq> CHR '',''" subopts] by (simp del: dropWhile_eq_Nil_conv) (simp add: less_diff_conv2 Suc_le_eq flip: length_greater_0_conv)
qed simp

declare opt_flags.simps [simp del]

definition process_opt_flags :: "string \<Rightarrow> u32 \<times> u32 \<Rightarrow> (u32 \<times> u32) res" where
  "process_opt_flags opts s = (let s = opt_flags opts s in if opts = [] then Inr s else Inl WildPointer)"

text \<open>
  \<open>parse_vrip\<close> on the structure \<open>v\<close> points at (\<open>None\<close> for a pointer that was never set): the tokens of \<open>strtok\<close>
  are parsed into an allocation for as many addresses as there are commas, and one.
\<close>

definition wild :: "'a option \<Rightarrow> 'a res" where
  "wild p = (case p of None \<Rightarrow> Inl WildPointer | Some x \<Rightarrow> Inr x)"

function strtok_all :: "string \<Rightarrow> string list" where
  "strtok_all s =
     (let s = dropWhile (\<lambda>c. c = CHR '','') s in
      if s = [] then [] else takeWhile (\<lambda>c. c \<noteq> CHR '','') s # strtok_all (dropWhile (\<lambda>c. c \<noteq> CHR '','') s))"
  by pat_completeness auto
termination
proof (relation "measure length")
  fix s t :: string
  assume t: "t = dropWhile (\<lambda>c. c = CHR '','') s" and "t \<noteq> []"
  from this(2) obtain c u where u: "t = c # u" by (cases t) auto
  have "hd t \<noteq> CHR '',''" using hd_dropWhile [of "\<lambda>c. c = CHR '',''" s] \<open>t \<noteq> []\<close> unfolding t by blast
  with u have u: "t = c # u" "c \<noteq> CHR '',''" by simp_all
  have "length (dropWhile (\<lambda>c. c \<noteq> CHR '','') u) \<le> length u" by (rule length_dropWhile_le)
  moreover have "length t \<le> length s" unfolding t by (rule length_dropWhile_le)
  ultimately show "(dropWhile (\<lambda>c. c \<noteq> CHR '','') t, s) \<in> measure length" using u by simp
qed simp

declare strtok_all.simps [simp del]

fun parse_ips :: "(nat \<Rightarrow> u8 list option) \<Rightarrow> nat \<Rightarrow> nat \<Rightarrow> string list \<Rightarrow> vrrp_vr option \<Rightarrow> (cint \<times> vrrp_vr option) res" where
  "parse_ips mem num i [] v = bnd (wild v) (\<lambda>r. Inr (0, Some (r\<lparr>vr_ipnum := of_nat num\<rparr>)))"
| "parse_ips mem num i (p # ps) v =
     (case inet_pton4 p of
        None \<Rightarrow> Inr (-1, v)
      | Some a \<Rightarrow>
          bnd (wild v) (\<lambda>r.
          bnd (if i = 0 then bnd (deref (mem (4 * num))) (\<lambda>m. Inr (r\<lparr>vr_af := AF_INET, vr_ip := m\<rparr>)) else Inr r) (\<lambda>r.
          parse_ips mem num (i + 1) ps (Some (r\<lparr>vr_ip := poke (4 * i) a (vr_ip r)\<rparr>)))))"

definition parse_vrip :: "(nat \<Rightarrow> u8 list option) \<Rightarrow> string \<Rightarrow> vrrp_vr option \<Rightarrow> (cint \<times> vrrp_vr option) res" where
  "parse_vrip mem addr_str v =
     bnd (sprintf 256 addr_str) (\<lambda>str.
     let num = 1 + length (filter (\<lambda>c. c = CHR '','') str) in
     parse_ips mem num 0 (strtok_all str) v)"

section \<open>Commands\<close>

text \<open>The name of the return code is printed unless it is \<open>VRRP_SUCCESS\<close>.\<close>

definition report :: "u32 \<times> cli \<Rightarrow> (cint \<times> cli) res" where
  "report = (\<lambda>(ret, st).
     if ret = VRRP_SUCCESS then Inr (0, st)
     else bnd (vrrp_strerror ret) (\<lambda>s. Inr (-1, say s st)))"

definition cmd_remove :: "nat \<Rightarrow> cli \<Rightarrow> (cint \<times> cli) res" where
  "cmd_remove argc st =
     bnd (print_args ''DELETE INSTANCE'' argc st) (\<lambda>st.
     bnd (parse_opt_ids argc st) (\<lambda>(vid, ifname, af, st).
     bnd (on_client (cmd_destroy_inst vid ifname af) st) report))"

definition cmd_shutdown :: "nat \<Rightarrow> cli \<Rightarrow> (cint \<times> cli) res" where
  "cmd_shutdown argc st =
     bnd (print_args ''SEND SHUTDOWN EVENT TO INSTANCE'' argc st) (\<lambda>st.
     bnd (parse_opt_ids argc st) (\<lambda>(vid, ifname, af, st).
     bnd (on_client (cmd_shutdown_inst vid ifname af) st) report))"

definition cmd_startup :: "nat \<Rightarrow> cli \<Rightarrow> (cint \<times> cli) res" where
  "cmd_startup argc st =
     bnd (print_args ''SEND STARTUP EVENT TO INSTANCE'' argc st) (\<lambda>st.
     bnd (parse_opt_ids argc st) (\<lambda>(vid, ifname, af, st).
     bnd (on_client (cmd_startup_inst vid ifname af) st) report))"

text \<open>
  The second pass starts over on the words as the first one left them, and its option string lacks \<open>o\<close>.
\<close>

fun modify_opt :: "opt \<Rightarrow> cint \<times> cint \<times> cint \<times> cint \<Rightarrow> (cint \<times> cint \<times> cint \<times> cint) res" where
  "modify_opt (c, arg) (pr, dl, pree, acpt) =
     (case arg of
        None \<Rightarrow> Inr (pr, dl, pree, acpt)
      | Some optarg \<Rightarrow>
          if c = CHR ''d'' then Inr (pr, strtol optarg, pree, acpt)
          else if c = CHR ''p'' then Inr (strtol optarg, dl, pree, acpt)
          else if c = CHR ''o'' then
            bnd (process_opt_flags optarg (pree, acpt)) (\<lambda>(pree, acpt).
            Inr (pr, dl, pree, acpt))
          else Inr (pr, dl, pree, acpt))"

definition cmd_modify :: "nat \<Rightarrow> cli \<Rightarrow> (cint \<times> cli) res" where
  "cmd_modify argc st =
     bnd (print_args ''MODIFY INSTANCE PROPERTIES'' argc st) (\<lambda>st.
     bnd (parse_opt_ids argc st) (\<lambda>(vid, ifname, af, st).
     let (es, st) = getopt_all ''d:p:A:P'' argc st in
     bnd (each modify_opt es (VR_PROP_UNCHANGE, VR_PROP_UNCHANGE, VR_PROP_UNCHANGE, VR_PROP_UNCHANGE))
       (\<lambda>(pr, dl, pree, acpt).
     bnd (on_client (cmd_set_inst_prop vid ifname af pr dl pree acpt) st) report)))"

text \<open>\<open>ix\<close> is still NULL when it is displayed and freed.\<close>

definition cmd_getx :: "nat \<Rightarrow> cli \<Rightarrow> (cint \<times> cli) res" where
  "cmd_getx argc st =
     bnd (parse_opt_ids argc st) (\<lambda>(vid, ifname, af, st).
     bnd (on_client (cmd_get_instx vid ifname af) st) (\<lambda>(ret, st).
     if ret \<noteq> VRRP_SUCCESS then bnd (vrrp_strerror ret) (\<lambda>s. Inr (1, say s st))
     else
       bnd (show_and_free 0 (cl st)) (\<lambda>c. Inr (0, st\<lparr>cl := c\<rparr>))))"

definition cmd_show :: "nat \<Rightarrow> cli \<Rightarrow> (cint \<times> cli) res" where
  "cmd_show argc st =
     bnd (print_args ''SHOW INSTANCE ATTRIBUTES'' argc st) (\<lambda>st.
     bnd (on_client cmd_show_all st) report)"

definition cmd_exit :: "nat \<Rightarrow> cli \<Rightarrow> (cint \<times> cli) res" where
  "cmd_exit argc st = Inl (ProcessExit 0)"

text \<open>
  The locals of \<open>cmd_create\<close>: the attributes, the structure in \<open>inst\<close>, whether \<open>cv\<close> points at it, and
  \<open>pip[0]\<close>. Without a preceding \<open>-v\<close> the pointer \<open>cv\<close> and the index \<open>ppip\<close> are not set.
\<close>

record create_vars =
  c_va :: vrrp_attr
  c_vr :: vrrp_vr
  c_cv :: bool
  c_pip :: "string option"

definition cv_of :: "create_vars \<Rightarrow> vrrp_vr option" where
  "cv_of s = (if c_cv s then Some (c_vr s) else None)"

definition set_cv :: "vrrp_vr option \<Rightarrow> create_vars \<Rightarrow> create_vars" where
  "set_cv v s = (case v of None \<Rightarrow> s | Some r \<Rightarrow> s\<lparr>c_vr := r\<rparr>)"

fun create_opt :: "(nat \<Rightarrow> u8 list option) \<Rightarrow> opt \<Rightarrow> create_vars \<Rightarrow> create_vars res" where
  "create_opt mem (c, arg) s =
     (case arg of
        None \<Rightarrow> Inr s
      | Some optarg \<Rightarrow>
          if c = CHR ''A'' then bnd (parse_vrip mem optarg (cv_of s)) (\<lambda>(_, v). Inr (set_cv v s))
          else if c = CHR ''d'' then Inr (s\<lparr>c_va := (c_va s)\<lparr>delay := strtol optarg\<rparr>\<rparr>)
          else if c = CHR ''i'' then
            bnd (wild (cv_of s)) (\<lambda>r.
            bnd (strcpy (vr_ifname r) (bytes_of optarg)) (\<lambda>name. Inr (s\<lparr>c_vr := r\<lparr>vr_ifname := name\<rparr>\<rparr>)))
          else if c = CHR ''j'' then
            bnd (wild (cv_of s)) (\<lambda>_.
            bnd (parse_vrip mem optarg (cv_of s)) (\<lambda>(_, v). Inr (set_cv v (s\<lparr>c_pip := Some optarg\<rparr>))))
          else if c = CHR ''o'' then
            bnd (process_opt_flags optarg (pree_mode (c_va s), accept_mode (c_va s))) (\<lambda>(pree, acpt).
            Inr (s\<lparr>c_va := (c_va s)\<lparr>pree_mode := pree, accept_mode := acpt\<rparr>\<rparr>))
          else if c = CHR ''p'' then Inr (s\<lparr>c_va := (c_va s)\<lparr>pri := ucast (strtol optarg)\<rparr>\<rparr>)
          else if c = CHR ''v'' then
            Inr (s\<lparr>c_cv := True, c_vr := (c_vr s)\<lparr>vr_id := ucast (strtol optarg)\<rparr>\<rparr>)
          else Inr s)"

text \<open>\<open>inet_pton\<close> refuses a family it does not know; reading IPv6 addresses is left out.\<close>

definition handle_ij :: "vrrp_vr \<Rightarrow> string option \<Rightarrow> vrrp_vr res" where
  "handle_ij r pip =
     (if vr_af r = AF_INET then
        bnd (deref pip) (\<lambda>s. Inr (case inet_pton4 s of None \<Rightarrow> r | Some a \<Rightarrow> r\<lparr>vr_in4 := get32 0 a\<rparr>))
      else if vr_af r = AF_INET6 then Inl WildPointer
      else Inr r)"

text \<open>Each option's argument is printed, before the option is carried out; \<open>printf\<close> shows NULL as (null).\<close>

definition say_args :: "opt list \<Rightarrow> cli \<Rightarrow> cli" where
  "say_args es st = fold (\<lambda>(c, arg). say (''optarg : '' @ (case arg of None \<Rightarrow> ''(null)'' | Some a \<Rightarrow> a))) es st"

text \<open>\<open>cmd_create\<close> ends without a return value. The structure \<open>inst\<close> holds what the stack held.\<close>

definition cmd_create :: "(nat \<Rightarrow> u8 list option) \<Rightarrow> nat \<Rightarrow> cli \<Rightarrow> (cint \<times> cli) res" where
  "cmd_create mem argc st =
     bnd (print_args ''CREATE INSTANCE'' argc st) (\<lambda>st.
     let m = stk st 1; inst = inst_at [] m; (es, st) = getopt_all ''A:d:i:j:o:p:v:'' argc st; st = say_args es st in
     bnd (each (create_opt mem) es
       \<lparr>c_va = \<lparr>pri = 100, delay = 1, pree_mode = boolean_TRUE, accept_mode = boolean_TRUE\<rparr>, c_vr = vi_vr inst,
        c_cv = False, c_pip = None\<rparr>) (\<lambda>s.
     bnd (handle_ij (c_vr s) (c_pip s)) (\<lambda>r.
     bnd (on_client (cmd_create_inst m (inst\<lparr>vi_va := c_va s, vi_vr := r, vi_state := VRRP_STATE_INIT\<rparr>)) st) (\<lambda>(_, st).
     Inr (cl_stack (env (cl st)) (calls (cl st)), st)))))"

section \<open>The main loop\<close>

definition cmds :: "(nat \<Rightarrow> u8 list option) \<Rightarrow> (string \<times> (nat \<Rightarrow> cli \<Rightarrow> (cint \<times> cli) res)) list" where
  "cmds mem =
     [(''create'', cmd_create mem), (''delete'', cmd_remove), (''startup'', cmd_startup),
      (''shutdown'', cmd_shutdown), (''modify'', cmd_modify), (''show'', cmd_show), (''getx'', cmd_getx),
      (''exit'', cmd_exit), (''quit'', cmd_exit), (''q'', cmd_exit)]"

definition cli_round :: "(nat \<Rightarrow> u8 list option) \<Rightarrow> string \<times> cli \<Rightarrow> (string \<times> cli) res" where
  "cli_round mem = (\<lambda>(input, st).
     bnd (read_line input 0 [] (subcmd st)) (\<lambda>(words, argc, input).
     let st = st\<lparr>subcmd := words\<rparr> in
     case List.find (\<lambda>e. fst e = hd words) (cmds mem) of
       None \<Rightarrow> Inr (input, st)
     | Some (_, fn) \<Rightarrow>
         bnd (fn argc st) (\<lambda>(r, st).
         Inr (input, if r = 0 then say ''SUCCESSFULL EXECUTION OF COMMAND'' st else st))))"

definition vrrpadm_main :: "(nat \<Rightarrow> u8 list option) \<Rightarrow> string \<times> cli \<Rightarrow> unit res" where
  "vrrpadm_main mem = loop (\<lambda>s. map_sum id Inl (cli_round mem s))"

section \<open>From the line to the request\<close>

text \<open>A word that can be typed, and the line that a list of words makes.\<close>

definition word_ok :: "string \<Rightarrow> bool" where
  "word_ok w \<longleftrightarrow> length w < CMDMAXLEN \<and> CHR 0x0A \<notin> set w \<and> CHR '' '' \<notin> set w \<and> CHR 0x00 \<notin> set w"

fun line_of :: "string list \<Rightarrow> string" where
  "line_of [] = [CHR 0x0A]"
| "line_of [w] = w @ [CHR 0x0A]"
| "line_of (w # v # ws) = w @ CHR '' '' # line_of (v # ws)"

lemma until_nul_id: "CHR 0x00 \<notin> set w \<Longrightarrow> until_nul w = w"
  by (auto simp: until_nul_def takeWhile_eq_all_conv)

lemma read_word:
  "i < length words \<Longrightarrow> word_ok (p @ w) \<Longrightarrow> read_line (w @ s) i p words = read_line s i (p @ w) words"
  by (induction w arbitrary: p) (auto simp: word_ok_def)

lemma read_line_of:
  "ws \<noteq> [] \<Longrightarrow> i + length ws \<le> length words \<Longrightarrow> list_all word_ok ws \<Longrightarrow>
   read_line (line_of ws @ rest) i [] words = Inr (take i words @ ws @ drop (i + length ws) words, i + length ws, rest)"
proof (induction ws arbitrary: i words rule: line_of.induct)
  case (2 w)
  then have "read_line (w @ CHR 0x0A # rest) i [] words = read_line (CHR 0x0A # rest) i w words"
    using read_word [of i words "[]" w] by simp
  with 2 show ?case by (simp add: word_ok_def until_nul_id upd_conv_take_nth_drop)
next
  case (3 w v ws)
  then have "read_line (w @ CHR '' '' # line_of (v # ws) @ rest) i [] words =
      read_line (CHR '' '' # line_of (v # ws) @ rest) i w words"
    using read_word [of i words "[]" w] by simp
  with 3 show ?case
    by (simp add: word_ok_def until_nul_id) (simp add: upd_conv_take_nth_drop take_Suc_conv_app_nth)
qed simp

lemma read_line_start:
  "ws \<noteq> [] \<Longrightarrow> length ws \<le> length words \<Longrightarrow> list_all word_ok ws \<Longrightarrow>
   read_line (line_of ws @ rest) 0 [] words = Inr (ws @ drop (length ws) words, length ws, rest)"
  using read_line_of [of ws 0 words rest] by simp

lemma digits_nat_dec: "c \<in> set (nat_dec n) \<Longrightarrow> isdigit c"
proof -
  have "list_all isdigit (nat_dec n)"
  proof (induction n rule: nat_dec.induct)
    case (1 n)
    have "m < 10 \<Longrightarrow> isdigit (char_of (48 + m))" for m :: nat by (simp add: isdigit_def take_bit_nat_eq_self)
    with 1 show ?case by (subst nat_dec.simps) simp
  qed
  then show "c \<in> set (nat_dec n) \<Longrightarrow> isdigit c" by (simp add: list_all_iff)
qed

lemma word_ok_dec:
  assumes "n < 2 ^ 31"
  shows "word_ok (nat_dec n)"
proof -
  have "CHR 0x0A \<notin> set (nat_dec n)" "CHR '' '' \<notin> set (nat_dec n)" "CHR 0x00 \<notin> set (nat_dec n)"
    using digits_nat_dec by (force simp: isdigit_def)+
  moreover have "dec_str (of_nat n) = nat_dec n" using assms by (simp add: dec_str_def sint_of_nat)
  then have "length (nat_dec n) \<le> 11" using length_dec_str by metis
  ultimately show ?thesis by (simp add: word_ok_def CMDMAXLEN_def)
qed

lemma say_simps [simp]:
  "subcmd (say s st) = subcmd st" "stk (say s st) = stk st" "env (cl (say s st)) = env (cl st)"
  "calls (cl (say s st)) = calls (cl st)" "out (cl (say s st)) = out (cl st) @ [s]"
  by (simp_all add: say_def print_def)

definition typed_name :: "string \<Rightarrow> bool" where
  "typed_name nm \<longleftrightarrow> word_ok nm \<and> length nm < LIFNAMSIZ"

lemma name_bytes:
  assumes "typed_name nm"
  shows "fits_name (bytes_of nm)" and "cstr (bytes_of nm) = bytes_of nm"
proof -
  have "c = CHR 0x00" if "of_char c = (0 :: u8)" for c
  proof -
    have "of_nat (of_char c) = (0 :: u8)" using that by (simp only: of_nat_of_char)
    then have "256 dvd (of_char c :: nat)" by (simp add: word_of_nat_eq_0_iff)
    then have "of_char c = (0 :: nat)" using nat_of_char_less_256 [of c] by (auto dest: dvd_imp_le simp del: nat_of_char_less_256)
    then have "of_char c = (of_char (CHR 0x00) :: nat)" by simp
    then show ?thesis by (simp only: of_char_eq_iff)
  qed
  then have "0 \<notin> set (bytes_of nm)" using assms by (auto simp: typed_name_def word_ok_def bytes_of_def)
  then show "fits_name (bytes_of nm)" "cstr (bytes_of nm) = bytes_of nm"
    using assms by (simp_all add: fits_name_def typed_name_def cstr_id bytes_of_def)
qed

text \<open>The library sends the string in the array, whatever follows it.\<close>

lemma build_says_cstr: "build_says cmd (ArgInt v # ArgStr (cstr s) # as) = build_says cmd (ArgInt v # ArgStr s # as)"
  by (cases as; cases "hd as") (simp_all add: str_of_def)

lemma all_cmd_cstr:
  assumes "has_ids cmd"
  shows "vrrp_all_cmd cmd (ArgInt v # ArgStr s # as) = vrrp_all_cmd cmd (ArgInt v # ArgStr (cstr s) # as)"
proof -
  have "cmd \<noteq> CMD_CREATE_INST" using assms by (auto simp: has_ids_def)
  then show ?thesis
    using assms by (intro ext, cases as)
      (simp_all add: vrrp_all_cmd_def build_vrrp_cmd_def build_ids_def build_says_cstr)
qed

text \<open>A request that is sent to a daemon which answers as this one does.\<close>

abbreviation sent :: "request \<Rightarrow> client \<Rightarrow> client" where
  "sent \<equiv> replied"

definition answers :: "client \<Rightarrow> bool" where
  "answers c \<longleftrightarrow> connects c \<and> (\<forall>t. cl_reply (env c) t = Some (le32 CMD_RETURN_VAL))"

lemma all_cmd_sent:
  "answers c \<Longrightarrow> req_ok r \<Longrightarrow> vrrp_all_cmd (req_cmd r) (req_args r @ xs) c = Inr (VRRP_SUCCESS, sent r c)"
  using all_cmd_ok [of c r "[]" xs] by (simp add: answers_def replied_def Let_def)

lemma answers_say [simp]: "answers (cl (say s st)) = answers (cl st)"
  by (simp add: answers_def connects_def)

lemma getopt_ids: "getopt ''v:a:i:'' [''-v'', n, ''-i'', nm] = ([(CHR ''v'', Some n), (CHR ''i'', Some nm)], [''-v'', n, ''-i'', nm], [])"
  by simp

lemma parse_ids_line:
  assumes "subcmd st = w # ''-v'' # nat_dec n # ''-i'' # nm # ws" and "n < 256" and "typed_name nm"
    and "length (stk st 0) = LIFNAMSIZ"
  shows "\<exists>ifname t t2 t3. cstr ifname = bytes_of nm \<and>
    parse_opt_ids 5 st = Inr (of_nat n, ifname, AF_INET, say t (say t2 (say t3 st)))"
proof -
  have "strtol (nat_dec n) = of_nat n" using assms(2) by (intro strtol_dec) simp
  moreover have "(ucast (of_nat n :: cint) :: u8) = of_nat n"
    by (simp only: unsigned_of_nat) (simp add: word_of_nat_eq_iff)
  moreover have "length (cstr (bytes_of nm)) < length (poke 0 [0] (stk st 0))"
    using assms(3,4) name_bytes [OF assms(3)] by (simp add: typed_name_def bytes_of_def)
  from strcpy_ok [OF this] obtain b where
    "strcpy (poke 0 [0] (stk st 0)) (bytes_of nm) = Inr b" "cstr b = bytes_of nm" using name_bytes [OF assms(3)] by auto
  moreover have "st\<lparr>subcmd := w # ''-v'' # nat_dec n # ''-i'' # nm # ws\<rparr> = st" using assms(1) by (cases st) simp
  then have "getopt_all ''v:a:i:'' 5 st = ([(CHR ''v'', Some (nat_dec n)), (CHR ''i'', Some nm)], st)"
    by (simp add: getopt_all_def assms(1) getopt_ids)
  ultimately show ?thesis by (auto simp: parse_opt_ids_def)
qed

text \<open>The commands that name one instance: the word, the request, the function of the library and the title.\<close>

definition inst_cmds :: "(string \<times> u32 \<times> string \<times> (nat \<Rightarrow> cli \<Rightarrow> (cint \<times> cli) res)) list" where
  "inst_cmds = [(''delete'', CMD_REMOVE_INST, ''DELETE INSTANCE'', cmd_remove),
     (''startup'', CMD_STARTUP_INST, ''SEND STARTUP EVENT TO INSTANCE'', cmd_startup),
     (''shutdown'', CMD_SHUTDOWN_INST, ''SEND SHUTDOWN EVENT TO INSTANCE'', cmd_shutdown)]"

definition runs_cmd :: "(nat \<Rightarrow> cli \<Rightarrow> (cint \<times> cli) res) \<Rightarrow> u32 \<Rightarrow> string \<Rightarrow> bool" where
  "runs_cmd fn cmd title \<longleftrightarrow> has_ids cmd \<and> cmd \<noteq> CMD_MODIFY_INST \<and> (\<forall>argc st. fn argc st =
     bnd (print_args title argc st) (\<lambda>st.
     bnd (parse_opt_ids argc st) (\<lambda>(vid, ifname, af, st).
     bnd (on_client (vrrp_all_cmd cmd [ArgInt (ucast vid), ArgStr ifname, ArgInt af]) st) report)))"

lemma runs_inst_cmd:
  "runs_cmd cmd_remove CMD_REMOVE_INST ''DELETE INSTANCE''"
  "runs_cmd cmd_startup CMD_STARTUP_INST ''SEND STARTUP EVENT TO INSTANCE''"
  "runs_cmd cmd_shutdown CMD_SHUTDOWN_INST ''SEND SHUTDOWN EVENT TO INSTANCE''"
  by (simp_all add: runs_cmd_def cmd_remove_def cmd_destroy_inst_def cmd_startup_def cmd_startup_inst_def
      cmd_shutdown_def cmd_shutdown_inst_def has_ids_def)

lemma inst_cmds_run:
  "list_all (\<lambda>(w, cmd, title, fn). List.find (\<lambda>e. fst e = w) (cmds mem) = Some (w, fn) \<and> word_ok w \<and>
     runs_cmd fn cmd title) inst_cmds"
  by (simp add: inst_cmds_def runs_inst_cmd [simplified] cmds_def word_ok_def CMDMAXLEN_def)

text \<open>
  C36: The administrator types \<open>startup -v <vrid> -i <interface>\<close>, or \<open>shutdown\<close> or \<open>delete\<close>: the request for
  exactly that instance is sent to the daemon, success is reported and the rest of the input is left for the
  next round.
\<close>

theorem typed_command_is_sent:
  assumes "(w, cmd, title, fn) \<in> set inst_cmds" and "n < 256" and "typed_name nm" and "nm \<noteq> []"
    and "answers (cl st)" and "length (subcmd st) = 30" and "length (stk st 0) = LIFNAMSIZ"
  shows "returns (cli_round mem (line_of [w, ''-v'', nat_dec n, ''-i'', nm] @ rest, st)) (\<lambda>(input, st').
    input = rest \<and> calls (cl st') = calls (sent (ReqInst cmd (of_nat n) (bytes_of nm) AF_INET) (cl st)) \<and>
    last (out (cl st')) = ''SUCCESSFULL EXECUTION OF COMMAND'')"
proof -
  let ?ws = "[w, ''-v'', nat_dec n, ''-i'', nm]" and ?r = "ReqInst cmd (of_nat n) (bytes_of nm) AF_INET"
  from inst_cmds_run [of mem] assms(1) have find: "List.find (\<lambda>e. fst e = w) (cmds mem) = Some (w, fn)"
    and w: "word_ok w" and run: "runs_cmd fn cmd title" by (auto simp: list_all_iff)
  from run have c: "has_ids cmd" "cmd \<noteq> CMD_MODIFY_INST" and fn: "\<And>argc st. fn argc st =
       bnd (print_args title argc st) (\<lambda>st.
       bnd (parse_opt_ids argc st) (\<lambda>(vid, ifname, af, st).
       bnd (on_client (vrrp_all_cmd cmd [ArgInt (ucast vid), ArgStr ifname, ArgInt af]) st) report))"
    by (simp_all add: runs_cmd_def)
  have ok: "list_all word_ok ?ws"
    using w assms(2,3) word_ok_dec [of n] by (simp add: typed_name_def) (simp add: word_ok_def CMDMAXLEN_def)
  define words where "words = ?ws @ drop 5 (subcmd st)"
  have rl: "read_line (line_of ?ws @ rest) 0 [] (subcmd st) = Inr (words, 5, rest)"
    using read_line_start [of ?ws "subcmd st" rest] ok assms(6) by (simp add: words_def numeral_eq_Suc del: line_of.simps)
  obtain t where pa: "print_args title 5 (st\<lparr>subcmd := words\<rparr>) =
      Inr (say t (say ''ARGUMENTS:'' (say title (st\<lparr>subcmd := words\<rparr>))))"
    using assms(6) by (simp add: print_args_def words_def)
  let ?st = "say t (say ''ARGUMENTS:'' (say title (st\<lparr>subcmd := words\<rparr>)))"
  obtain ifname t1 t2 t3 where id: "cstr ifname = bytes_of nm" "parse_opt_ids 5 ?st = Inr (of_nat n, ifname, AF_INET, say t1 (say t2 (say t3 ?st)))"
    using parse_ids_line [of ?st w n nm "drop 5 (subcmd st)"] assms(2,3,7) by (auto simp: words_def)
  let ?st' = "say t1 (say t2 (say t3 ?st))"
  have r: "req_ok ?r" using c name_bytes [OF assms(3)] by simp
  have "answers (cl (?st'))" using assms(5) by simp
  from all_cmd_sent [OF this r, of "[]"] have
    "vrrp_all_cmd cmd [ArgInt (ucast (of_nat n :: u8)), ArgStr ifname, ArgInt AF_INET] (cl (?st')) =
      Inr (VRRP_SUCCESS, sent ?r (cl (?st')))"
    by (subst all_cmd_cstr [OF c(1)]) (simp add: id(1))
  then have "fn 5 (st\<lparr>subcmd := words\<rparr>) = Inr (0, (?st')\<lparr>cl := sent ?r (cl (?st'))\<rparr>)"
    unfolding fn pa by (simp add: id(2) on_client_def report_def)
  then show ?thesis
    using find by (simp add: cli_round_def rl replied_def cmd_calls_def del: line_of.simps) (simp add: words_def)
qed

definition demo_cli :: cli where
  "demo_cli = \<lparr>subcmd = replicate 30 [], stk = (\<lambda>i. replicate (if i = 1 then 76 else 32) 0), cl = demo_client (Some (le32 CMD_RETURN_VAL))\<rparr>"

lemma answers_demo: "answers (cl demo_cli)"
  using connects_demo by (simp add: answers_def demo_cli_def demo_client_def)

theorem typed_command_is_sent_witness:
  "returns (cli_round (\<lambda>_. None) (''startup -v 9 -i eth0'' @ [CHR 0x0A], demo_cli)) (\<lambda>(input, st').
    input = [] \<and> calls (cl st') = calls (sent (ReqInst CMD_STARTUP_INST 9 [101, 116, 104, 48] 2) (cl demo_cli)) \<and>
    last (out (cl st')) = ''SUCCESSFULL EXECUTION OF COMMAND'')"
proof -
  have "(''startup'', CMD_STARTUP_INST, ''SEND STARTUP EVENT TO INSTANCE'', cmd_startup) \<in> set inst_cmds" by (simp add: inst_cmds_def)
  moreover have "typed_name ''eth0''" by (simp add: typed_name_def word_ok_def CMDMAXLEN_def)
  moreover have "nat_dec 9 = ''9''" by (simp add: nat_dec.simps char_of_eq_iff)
  moreover have "bytes_of ''eth0'' = [101, 116, 104, 48]" by (simp add: bytes_of_def)
  ultimately show ?thesis
    using typed_command_is_sent [of "''startup''" CMD_STARTUP_INST _ _ 9 "''eth0''" demo_cli "\<lambda>_. None" "[]"] answers_demo
    by (simp add: demo_cli_def)
qed

section \<open>Modifying an instance\<close>

lemma cli_round_line:
  assumes "ws \<noteq> []" and "list_all word_ok ws" and "length ws \<le> length (subcmd st)"
    and "List.find (\<lambda>e. fst e = hd ws) (cmds mem) = Some (w, fn)"
  shows "cli_round mem (line_of ws @ rest, st) =
    bnd (fn (length ws) (st\<lparr>subcmd := ws @ drop (length ws) (subcmd st)\<rparr>)) (\<lambda>(r, st).
      Inr (rest, if r = 0 then say ''SUCCESSFULL EXECUTION OF COMMAND'' st else st))"
  using assms read_line_start [of ws "subcmd st" rest] by (simp add: cli_round_def)

lemma named_round:
  assumes "list_all word_ok (w # ws)" and "Suc (length ws) = n" and "n < 30" and "length (subcmd st) = 30"
    and "List.find (\<lambda>e. fst e = w) (cmds mem) = Some (w, fn)"
  shows "cli_round mem (line_of (w # ws) @ rest, st) =
    bnd (fn n (st\<lparr>subcmd := (w # ws) @ drop n (subcmd st)\<rparr>)) (\<lambda>(r, st).
      Inr (rest, if r = 0 then say ''SUCCESSFULL EXECUTION OF COMMAND'' st else st))"
  using cli_round_line [of "w # ws" st mem w fn rest] assms by (simp del: line_of.simps)

text \<open>Only lines were printed.\<close>

definition only_printed :: "cli \<Rightarrow> cli \<Rightarrow> bool" where
  "only_printed st st' \<longleftrightarrow> subcmd st' = subcmd st \<and> stk st' = stk st \<and> env (cl st') = env (cl st) \<and>
     calls (cl st') = calls (cl st)"

lemma only_printed_say [simp]: "only_printed st (say t st') = only_printed st st'"
  by (simp add: only_printed_def)

lemma only_printed_refl [simp]: "only_printed st st"
  by (simp add: only_printed_def)

lemma only_printed_trans: "only_printed a b \<Longrightarrow> only_printed b c \<Longrightarrow> only_printed a c"
  by (simp add: only_printed_def)

lemma only_printed_usage [simp]: "only_printed st (usage st') = only_printed st st'"
  by (simp add: usage_def)

lemma only_printed_args: "only_printed st (say_args es st)"
  unfolding say_args_def
proof (induction es arbitrary: st)
  case (Cons e es)
  show ?case using only_printed_trans [OF _ Cons.IH] by (cases e) simp
qed simp

lemma each_append: "each f (xs @ ys) s = bnd (each f xs s) (each f ys)"
proof (induction xs arbitrary: s)
  case (Cons x xs)
  then have "each f (xs @ ys) = (\<lambda>s. bnd (each f xs s) (each f ys))" by (rule ext)
  then show ?case by (simp add: bnd_assoc)
qed simp

lemma each_unknown:
  "\<exists>st'. each parse_opt_id (replicate k (CHR ''?'', None)) (v, n, af, st) = Inr (v, n, af, st') \<and> only_printed st st'"
proof (induction k arbitrary: st)
  case (Suc k)
  from Suc [of "usage st"] show ?case by (auto simp: only_printed_def usage_def)
qed simp

lemma parse_ids_opts:
  assumes "getopt_all ''v:a:i:'' argc st = (replicate j (CHR ''?'', None) @ [(CHR ''v'', Some (nat_dec n)), (CHR ''i'', Some nm)] @
      replicate k (CHR ''?'', None), st1)"
    and "n < 256" and "typed_name nm" and "length (stk st1 0) = LIFNAMSIZ"
  shows "\<exists>ifname st'. cstr ifname = bytes_of nm \<and> parse_opt_ids argc st = Inr (of_nat n, ifname, AF_INET, st') \<and>
    only_printed st1 st'"
proof -
  have v: "strtol (nat_dec n) = of_nat n" "(ucast (of_nat n :: cint) :: u8) = of_nat n"
    using assms(2) by (auto intro: strtol_dec) (simp only: unsigned_of_nat, simp add: word_of_nat_eq_iff)
  have "length (cstr (bytes_of nm)) < length (poke 0 [0] (stk st1 0))"
    using assms(3,4) name_bytes [OF assms(3)] by (simp add: typed_name_def bytes_of_def)
  from strcpy_ok [OF this] obtain b where
    b: "strcpy (poke 0 [0] (stk st1 0)) (bytes_of nm) = Inr b" "cstr b = bytes_of nm" using name_bytes [OF assms(3)] by auto
  obtain st2 where st2: "each parse_opt_id (replicate j (CHR ''?'', None)) (0, poke 0 [0] (stk st1 0), AF_INET, st1) =
    Inr (0, poke 0 [0] (stk st1 0), AF_INET, st2)" "only_printed st1 st2" using each_unknown by blast
  obtain st3 where st3: "each parse_opt_id (replicate k (CHR ''?'', None)) (of_nat n, b, AF_INET, st2) =
    Inr (of_nat n, b, AF_INET, st3)" "only_printed st2 st3" using each_unknown by blast
  have e: "each parse_opt_id (replicate j (CHR ''?'', None) @ [(CHR ''v'', Some (nat_dec n)), (CHR ''i'', Some nm)] @
      replicate k (CHR ''?'', None)) (0, poke 0 [0] (stk st1 0), AF_INET, st1) = Inr (of_nat n, b, AF_INET, st3)"
    using v b(1) st2(1) st3(1) by (simp add: each_append)
  show ?thesis
    using only_printed_trans [OF st2(2) st3(2)] b(2)
    unfolding parse_opt_ids_def assms(1) Let_def prod.case e by auto
qed

text \<open>The two passes over a line in either order.\<close>

definition no_dash :: "string \<Rightarrow> bool" where
  "no_dash w \<longleftrightarrow> take 1 w \<noteq> ''-''"

lemma no_dash_dec: "no_dash (nat_dec n)"
proof -
  obtain d :: nat where "d < 10" "take 1 (nat_dec n) = [char_of (48 + d)]" using hd_nat_dec by blast
  then show ?thesis by (auto simp: no_dash_def char_of_eq_iff take_bit_nat_eq_self)
qed

lemma no_dash_long: "no_dash w \<Longrightarrow> w \<noteq> ''--''" "no_dash w \<Longrightarrow> take (Suc 0) w \<noteq> ''-''"
  by (auto simp: no_dash_def)

lemma passes_after:
  assumes "no_dash v" and "no_dash nm" and "no_dash d"
  shows "getopt ''v:a:i:'' [''-v'', v, ''-i'', nm, ''-d'', d] =
      ([(CHR ''v'', Some v), (CHR ''i'', Some nm), (CHR ''?'', None)], [''-v'', v, ''-i'', nm, ''-d''], [d])"
    and "getopt ''d:p:A:P'' [''-v'', v, ''-i'', nm, ''-d'', d] =
      ([(CHR ''?'', None), (CHR ''?'', None), (CHR ''d'', Some d)], [''-v'', ''-i'', ''-d'', d], [v, nm])"
  using no_dash_long [OF assms(1)] no_dash_long [OF assms(2)] no_dash_long [OF assms(3)] by simp_all

lemma passes_before:
  assumes "no_dash v" and "no_dash nm" and "no_dash d"
  shows "getopt ''v:a:i:'' [''-d'', d, ''-v'', v, ''-i'', nm] =
      ([(CHR ''?'', None), (CHR ''v'', Some v), (CHR ''i'', Some nm)], [''-d'', ''-v'', v, ''-i'', nm], [d])"
    and "getopt ''d:p:A:P'' [''-d'', ''-v'', v, ''-i'', nm, d] =
      ([(CHR ''d'', Some ''-v''), (CHR ''?'', None)], [''-d'', ''-v'', ''-i''], [v, nm, d])"
  using no_dash_long [OF assms(1)] no_dash_long [OF assms(2)] no_dash_long [OF assms(3)] by simp_all

lemma find_modify: "List.find (\<lambda>e. fst e = ''modify'') (cmds mem) = Some (''modify'', cmd_modify)"
  by (simp add: cmds_def)

text \<open>What \<open>cmd_modify\<close> does after both passes.\<close>

lemma cmd_modify_sent:
  assumes "argc < length (subcmd st)"
    and "\<And>st'. subcmd st' = subcmd st \<Longrightarrow> \<exists>j k st1. getopt_all ''v:a:i:'' argc st' =
        (replicate j (CHR ''?'', None) @ [(CHR ''v'', Some (nat_dec n)), (CHR ''i'', Some nm)] @
          replicate k (CHR ''?'', None), st1) \<and> subcmd st1 = words \<and> stk st1 = stk st' \<and> cl st1 = cl st'"
    and "\<And>st'. subcmd st' = words \<Longrightarrow> fst (getopt_all ''d:p:A:P'' argc st') = es"
    and "each modify_opt es (-1, -1, -1, -1) = Inr (-1, dl, -1, -1)"
    and "n < 256" and "typed_name nm" and "length (stk st 0) = LIFNAMSIZ" and "answers (cl st)"
  shows "returns (cmd_modify argc st) (\<lambda>(r, st'). r = 0 \<and>
    calls (cl st') = calls (sent (ReqModify (of_nat n) (bytes_of nm) AF_INET (-1) dl (-1) (-1)) (cl st)))"
proof -
  let ?r = "ReqModify (of_nat n) (bytes_of nm) AF_INET (-1) dl (-1) (-1)"
  obtain t where pa: "print_args ''MODIFY INSTANCE PROPERTIES'' argc st =
      Inr (say t (say ''ARGUMENTS:'' (say ''MODIFY INSTANCE PROPERTIES'' st)))"
    using assms(1) by (simp add: print_args_def)
  let ?st = "say t (say ''ARGUMENTS:'' (say ''MODIFY INSTANCE PROPERTIES'' st))"
  obtain j k st1 where g: "getopt_all ''v:a:i:'' argc ?st = (replicate j (CHR ''?'', None) @
      [(CHR ''v'', Some (nat_dec n)), (CHR ''i'', Some nm)] @ replicate k (CHR ''?'', None), st1)"
    and st1: "subcmd st1 = words" "stk st1 = stk ?st" "cl st1 = cl ?st"
    using assms(2) [of ?st] by auto
  obtain b st2 where p: "cstr b = bytes_of nm" "parse_opt_ids argc ?st = Inr (of_nat n, b, AF_INET, st2)" "only_printed st1 st2"
    using parse_ids_opts [OF g assms(5,6)] assms(7) st1 by auto
  have st2: "subcmd st2 = words" "env (cl st2) = env (cl st)" "calls (cl st2) = calls (cl st)"
    using p(3) st1 by (simp_all add: only_printed_def)
  obtain st3 where g2: "getopt_all ''d:p:A:P'' argc st2 = (es, st3)" using assms(3) [OF st2(1)] by (metis prod.collapse)
  then have st3: "cl st3 = cl st2" by (auto simp: getopt_all_def split: prod.splits)
  have ans: "answers (cl st3)" using assms(8) st2 by (simp add: st3 answers_def connects_def)
  have ok: "req_ok ?r" using name_bytes [OF assms(6)] by simp
  have "cmd_set_inst_prop (of_nat n) b AF_INET (-1) dl (-1) (-1) (cl st3) = Inr (VRRP_SUCCESS, sent ?r (cl st3))"
    using all_cmd_sent [OF ans ok, of "[]"] unfolding cmd_set_inst_prop_def
    by (subst all_cmd_cstr) (simp_all add: p(1) has_ids_def)
  then have "cmd_modify argc st = Inr (0, st3\<lparr>cl := sent ?r (cl st3)\<rparr>)"
    unfolding cmd_modify_def pa bnd_simps p(2) prod.case g2 Let_def VR_PROP_UNCHANGE_def assms(4)
    by (simp add: on_client_def report_def)
  then show ?thesis by (simp add: st3 st2 replied_def cmd_calls_def)
qed

lemma modify_opts:
  "d < 2 ^ 31 \<Longrightarrow> each modify_opt [(CHR ''?'', None), (CHR ''?'', None), (CHR ''d'', Some (nat_dec d))] (-1, -1, -1, -1) =
    Inr (-1, of_nat d, -1, -1)"
  "each modify_opt [(CHR ''d'', Some ''-v''), (CHR ''?'', None)] (-1, -1, -1, -1) = Inr (-1, 0, -1, -1)"
proof -
  assume "d < 2 ^ 31"
  then show "each modify_opt [(CHR ''?'', None), (CHR ''?'', None), (CHR ''d'', Some (nat_dec d))] (-1, -1, -1, -1) =
    Inr (-1, of_nat d, -1, -1)" by (simp add: strtol_dec)
next
  have "strtol ''-v'' = 0" by (simp add: strtol_def Let_def isspace_def read_number_def digit_val_def)
  then show "each modify_opt [(CHR ''d'', Some ''-v''), (CHR ''?'', None)] (-1, -1, -1, -1) = Inr (-1, 0, -1, -1)" by simp
qed

text \<open>
  C38: What \<open>modify\<close> sends depends on the order of its options. With \<open>-d\<close> behind \<open>-v\<close> and \<open>-i\<close> the daemon is asked to
  set the interval that was typed. With \<open>-d\<close> before them the second pass takes the word \<open>-v\<close>, which the first has
  moved there, for its argument, and the daemon is asked to set the interval 0.
\<close>

theorem modify_option_order:
  assumes "n < 256" and "d < 2 ^ 31" and "typed_name nm" and "nm \<noteq> []" and "no_dash nm"
    and "answers (cl st)" and "length (subcmd st) = 30" and "length (stk st 0) = LIFNAMSIZ"
  shows "returns (cli_round mem (line_of [''modify'', ''-v'', nat_dec n, ''-i'', nm, ''-d'', nat_dec d] @ rest, st))
      (\<lambda>(input, st'). input = rest \<and>
        calls (cl st') = calls (sent (ReqModify (of_nat n) (bytes_of nm) AF_INET (-1) (of_nat d) (-1) (-1)) (cl st))) \<and>
    returns (cli_round mem (line_of [''modify'', ''-d'', nat_dec d, ''-v'', nat_dec n, ''-i'', nm] @ rest, st))
      (\<lambda>(input, st'). input = rest \<and>
        calls (cl st') = calls (sent (ReqModify (of_nat n) (bytes_of nm) AF_INET (-1) 0 (-1) (-1)) (cl st)))"
proof -
  let ?a = "[''modify'', ''-v'', nat_dec n, ''-i'', nm, ''-d'', nat_dec d]"
  let ?b = "[''modify'', ''-d'', nat_dec d, ''-v'', nat_dec n, ''-i'', nm]"
  let ?rest = "drop 7 (subcmd st)"
  note pa = passes_after [OF no_dash_dec [of n] assms(5) no_dash_dec [of d]]
  note pb = passes_before [OF no_dash_dec [of n] assms(5) no_dash_dec [of d]]
  have ok: "list_all word_ok ?a" "list_all word_ok ?b"
    using assms(1,2,3) word_ok_dec [of n] word_ok_dec [of d] by (simp_all add: typed_name_def) (simp_all add: word_ok_def CMDMAXLEN_def)
  have seven: "Suc (length (tl ?a)) = 7" "Suc (length (tl ?b)) = 7" "(7::nat) < 30" by simp_all
  note ra = named_round [OF ok(1) seven(1,3) [unfolded list.sel] assms(7) find_modify, of mem rest]
  note rb = named_round [OF ok(2) seven(2,3) [unfolded list.sel] assms(7) find_modify, of mem rest]
  have a: "returns (cmd_modify 7 (st\<lparr>subcmd := ?a @ ?rest\<rparr>)) (\<lambda>(r, st'). r = 0 \<and> calls (cl st') =
      calls (sent (ReqModify (of_nat n) (bytes_of nm) AF_INET (-1) (of_nat d) (-1) (-1)) (cl (st\<lparr>subcmd := ?a @ ?rest\<rparr>))))"
  proof (rule cmd_modify_sent [where words = "?a @ ?rest"])
    show "\<exists>j k st1. getopt_all ''v:a:i:'' 7 st' =
        (replicate j (CHR ''?'', None) @ [(CHR ''v'', Some (nat_dec n)), (CHR ''i'', Some nm)] @
          replicate k (CHR ''?'', None), st1) \<and> subcmd st1 = ?a @ ?rest \<and> stk st1 = stk st' \<and> cl st1 = cl st'"
      if "subcmd st' = subcmd (st\<lparr>subcmd := ?a @ ?rest\<rparr>)" for st'
      by (rule exI [of _ 0], rule exI [of _ 1]) (simp add: getopt_all_def that pa(1) del: getopt.simps)
    show "fst (getopt_all ''d:p:A:P'' 7 st') = [(CHR ''?'', None), (CHR ''?'', None), (CHR ''d'', Some (nat_dec d))]"
      if "subcmd st' = ?a @ ?rest" for st'
      by (simp add: getopt_all_def that pa(2) del: getopt.simps)
  qed (use assms modify_opts(1) [OF assms(2)] in simp_all)
  have b: "returns (cmd_modify 7 (st\<lparr>subcmd := ?b @ ?rest\<rparr>)) (\<lambda>(r, st'). r = 0 \<and> calls (cl st') =
      calls (sent (ReqModify (of_nat n) (bytes_of nm) AF_INET (-1) 0 (-1) (-1)) (cl (st\<lparr>subcmd := ?b @ ?rest\<rparr>))))"
  proof (rule cmd_modify_sent [where words = "[''modify'', ''-d'', ''-v'', nat_dec n, ''-i'', nm, nat_dec d] @ ?rest"])
    show "\<exists>j k st1. getopt_all ''v:a:i:'' 7 st' =
        (replicate j (CHR ''?'', None) @ [(CHR ''v'', Some (nat_dec n)), (CHR ''i'', Some nm)] @
          replicate k (CHR ''?'', None), st1) \<and>
        subcmd st1 = [''modify'', ''-d'', ''-v'', nat_dec n, ''-i'', nm, nat_dec d] @ ?rest \<and> stk st1 = stk st' \<and> cl st1 = cl st'"
      if "subcmd st' = subcmd (st\<lparr>subcmd := ?b @ ?rest\<rparr>)" for st'
      by (rule exI [of _ 1], rule exI [of _ 0]) (simp add: getopt_all_def that pb(1) del: getopt.simps)
    show "fst (getopt_all ''d:p:A:P'' 7 st') = [(CHR ''d'', Some ''-v''), (CHR ''?'', None)]"
      if "subcmd st' = [''modify'', ''-d'', ''-v'', nat_dec n, ''-i'', nm, nat_dec d] @ ?rest" for st'
      by (simp add: getopt_all_def that pb(2) del: getopt.simps)
  qed (use assms modify_opts(2) in simp_all)
  from a b show ?thesis unfolding ra rb by (fastforce elim!: returnsE)
qed

theorem modify_option_order_witness:
  "returns (cli_round (\<lambda>_. None) (''modify -d 5 -v 9 -i eth0'' @ [CHR 0x0A], demo_cli)) (\<lambda>(input, st'). input = [] \<and>
    calls (cl st') = calls (sent (ReqModify 9 [101, 116, 104, 48] AF_INET (-1) 0 (-1) (-1)) (cl demo_cli)))"
proof -
  have "typed_name ''eth0''" "no_dash ''eth0''" by (simp_all add: typed_name_def word_ok_def CMDMAXLEN_def no_dash_def)
  moreover have "nat_dec 9 = ''9''" "nat_dec 5 = ''5''" by (simp_all add: nat_dec.simps char_of_eq_iff)
  moreover have "bytes_of ''eth0'' = [101, 116, 104, 48]" by (simp add: bytes_of_def)
  ultimately show ?thesis
    using modify_option_order [of 9 5 "''eth0''" demo_cli "\<lambda>_. None" "[]"] answers_demo
    by (simp add: demo_cli_def)
qed

section \<open>Creating an instance\<close>

text \<open>An address that is written in decimal is read back.\<close>

lemma pton4_number:
  "n < 256 \<Longrightarrow> length done < 4 \<Longrightarrow> pton4 done None (nat_dec n @ s) = pton4 done (Some n) s"
proof (induction n arbitrary: s rule: nat_dec.induct)
  case (1 n)
  have digit: "isdigit (char_of (48 + k))" "of_char (char_of (48 + k)) = (48 + k :: nat)" if "k < 10" for k :: nat
    using that by (simp_all add: isdigit_def)
  show ?case
  proof (cases "n < 10")
    case True
    then have "nat_dec n = [char_of (48 + n)]" by (subst nat_dec.simps) simp
    with True 1(3) digit [of n] show ?thesis by simp
  next
    case False
    then have "nat_dec n = nat_dec (n div 10) @ [char_of (48 + n mod 10)]" by (subst nat_dec.simps) simp
    moreover from False have "n div 10 \<noteq> 0" by (simp add: div_eq_0_iff)
    ultimately show ?thesis using False 1 digit [of "n mod 10"] by simp
  qed
qed

lemma pton4_dotted:
  assumes "length a = 4"
  shows "inet_pton4 (dotted a) = Some a"
proof -
  obtain x y z t where a: "a = [x, y, z, t]" using assms by (auto simp: numeral_eq_Suc length_Suc_conv)
  have lt: "unat (u :: u8) < 256" for u using unsigned_less [of u] by simp
  have last: "pton4 done None (nat_dec n) = pton4 done (Some n) []" if "n < 256" "length done < 4" for n "done"
    using pton4_number [OF that, of "[]"] by simp
  show ?thesis unfolding a by (simp add: inet_pton4_def dotted_def pton4_number last lt isdigit_def)
qed

lemma dotted_chars: "list_all (\<lambda>c. isdigit c \<or> c = CHR ''.'') (dotted a)"
proof -
  have "list_all isdigit (nat_dec n)" for n using digits_nat_dec by (simp add: list_all_iff)
  then have "list_all (\<lambda>c. isdigit c \<or> c = CHR ''.'') (nat_dec n)" for n by (auto simp: list_all_iff)
  then show ?thesis by (simp add: dotted_def)
qed

lemma dotted_word:
  shows "word_ok (dotted a)" and "CHR '','' \<notin> set (dotted a)" and "dotted a \<noteq> []"
proof -
  have "c \<in> set (dotted a) \<Longrightarrow> isdigit c \<or> c = CHR ''.''" for c using dotted_chars [of a] by (simp add: list_all_iff)
  then have "CHR 0x0A \<notin> set (dotted a)" "CHR '' '' \<notin> set (dotted a)" "CHR 0x00 \<notin> set (dotted a)"
    "CHR '','' \<notin> set (dotted a)" by (force simp: isdigit_def)+
  then show "word_ok (dotted a)" "CHR '','' \<notin> set (dotted a)" "dotted a \<noteq> []"
    using length_dotted [of a] by (auto simp: word_ok_def CMDMAXLEN_def dotted_def)
qed

lemma parse_vrip_dotted:
  assumes "length a = 4" and "mem 4 = Some m" and "length m = 4"
  shows "parse_vrip mem (dotted a) (Some r) = Inr (0, Some (r\<lparr>vr_af := AF_INET, vr_ip := a, vr_ipnum := 1\<rparr>))"
proof -
  have d: "dropWhile (\<lambda>c. c = CHR '','') (dotted a) = dotted a" "takeWhile (\<lambda>c. c \<noteq> CHR '','') (dotted a) = dotted a"
    "dropWhile (\<lambda>c. c \<noteq> CHR '','') (dotted a) = []"
    using dotted_word(2,3) [of a] by (cases "dotted a"; auto simp: takeWhile_eq_all_conv)+
  have t: "strtok_all (dotted a) = [dotted a]"
    by (subst strtok_all.simps) (simp add: d dotted_word(3) Let_def strtok_all.simps [of "[]"])
  have n: "filter (\<lambda>c. c = CHR '','') (dotted a) = []" using dotted_word(2) by (auto simp: filter_empty_conv)
  have "sprintf 256 (dotted a) = Inr (dotted a)" using length_dotted [of a] by (simp add: sprintf_def)
  with assms t n show ?thesis by (simp add: parse_vrip_def pton4_dotted wild_def deref_def poke_def)
qed

lemma create_getopt:
  "getopt ''A:d:i:j:o:p:v:'' [''-v'', v, ''-i'', i, ''-j'', j, ''-p'', p] =
    ([(CHR ''v'', Some v), (CHR ''i'', Some i), (CHR ''j'', Some j), (CHR ''p'', Some p)],
     [''-v'', v, ''-i'', i, ''-j'', j, ''-p'', p], [])"
  "getopt ''A:d:i:j:o:p:v:'' [''-v'', v, ''-o'', f] = ([(CHR ''v'', Some v), (CHR ''o'', Some f)], [''-v'', v, ''-o'', f], [])"
  by simp_all

lemma find_create: "List.find (\<lambda>e. fst e = ''create'') (cmds mem) = Some (''create'', cmd_create mem)"
  by (simp add: cmds_def)

lemma u8_of_int: "(ucast (of_nat n :: cint) :: u8) = of_nat n"
  by (simp only: unsigned_of_nat) (simp add: word_of_nat_eq_iff)

text \<open>The instance that \<open>create -v n -i nm -j a -p p\<close> asks for: the defaults, and what was typed.\<close>

definition typed_inst :: "nat \<Rightarrow> u8 list \<Rightarrow> u8 list \<Rightarrow> nat \<Rightarrow> vrrp_inst \<Rightarrow> vrrp_inst" where
  "typed_inst n ifname a p inst = inst
     \<lparr>vi_va := \<lparr>pri = of_nat p, delay = 1, pree_mode = boolean_TRUE, accept_mode = boolean_TRUE\<rparr>,
      vi_vr := \<lparr>vr_id = of_nat n, vr_af = AF_INET, vr_in4 = get32 0 a, vr_ipnum = 1, vr_ip = a, vr_ifname = ifname\<rparr>,
      vi_state := VRRP_STATE_INIT\<rparr>"

text \<open>What the four options leave in the variables of \<open>cmd_create\<close>, and the address behind them.\<close>

lemma create_opts_fill:
  assumes "n < 256" and "p < 2 ^ 31" and "length a = 4" and "mem 4 = Some m" and "length m = 4"
    and "strcpy (vr_ifname (vi_vr old)) (bytes_of nm) = Inr b" and i: "i = typed_inst n b a p old"
  shows "each (create_opt mem) [(CHR ''v'', Some (nat_dec n)), (CHR ''i'', Some nm), (CHR ''j'', Some (dotted a)),
      (CHR ''p'', Some (nat_dec p))]
      \<lparr>c_va = \<lparr>pri = 100, delay = 1, pree_mode = boolean_TRUE, accept_mode = boolean_TRUE\<rparr>, c_vr = vi_vr old,
        c_cv = False, c_pip = None\<rparr> =
      Inr \<lparr>c_va = vi_va i, c_vr = (vi_vr i)\<lparr>vr_in4 := vr_in4 (vi_vr old)\<rparr>, c_cv = True, c_pip = Some (dotted a)\<rparr>"
    and "handle_ij ((vi_vr i)\<lparr>vr_in4 := vr_in4 (vi_vr old)\<rparr>) (Some (dotted a)) = Inr (vi_vr i)"
    and "old\<lparr>vi_va := vi_va i, vi_vr := vi_vr i, vi_state := VRRP_STATE_INIT\<rparr> = i"
  using assms(1-6)
  by (simp_all add: strtol_dec u8_of_int cv_of_def set_cv_def wild_def parse_vrip_dotted handle_ij_def deref_def pton4_dotted
      i typed_inst_def)

text \<open>Suboptions: \<open>process_opt_flags\<close> frees the pointer to its copy of the argument after advancing it to the end.\<close>

lemma create_flags_crash:
  assumes "n < 256" and "word_ok flags" and "flags \<noteq> []" and "length (subcmd st) = 30"
  shows "cli_round mem (line_of [''create'', ''-v'', nat_dec n, ''-o'', flags] @ rest, st) = Inl WildPointer"
proof -
  let ?ws = "[''create'', ''-v'', nat_dec n, ''-o'', flags]"
  have ok: "list_all word_ok ?ws" using assms(1,2) word_ok_dec [of n] by simp (simp add: word_ok_def CMDMAXLEN_def)
  have five: "Suc (length (tl ?ws)) = 5" "(5::nat) < 30" by simp_all
  note round = named_round [OF ok five [unfolded list.sel] assms(4) find_create, of mem rest]
  show ?thesis
    unfolding round using assms(3,4)
    by (simp add: cmd_create_def print_args_def getopt_all_def create_getopt process_opt_flags_def Let_def del: getopt.simps)
qed

text \<open>
  C37: The administrator types \<open>create\<close> with a VRID, an interface, an address and a priority: the request carries
  exactly these, the defaults for the other attributes and the address as the only one of the router. But
  with suboptions of \<open>-o\<close> vrrpadm frees a pointer to the end of an allocation.
\<close>

theorem typed_create_is_sent:
  assumes "n < 256" and "p < 2 ^ 31" and "typed_name nm" and "nm \<noteq> []" and "length a = 4" and "mem 4 = Some m" and "length m = 4"
    and "word_ok flags" and "flags \<noteq> []"
    and "answers (cl st)" and "length (subcmd st) = 30" and "length (stk st 1) = 76"
  shows "returns (cli_round mem (line_of [''create'', ''-v'', nat_dec n, ''-i'', nm, ''-j'', dotted a, ''-p'', nat_dec p] @ rest, st))
      (\<lambda>(input, st'). input = rest \<and> (\<exists>ifname. cstr ifname = bytes_of nm \<and>
        calls (cl st') = calls (sent (ReqCreate (stk st 1) (typed_inst n ifname a p (inst_at [] (stk st 1)))) (cl st)))) \<and>
    cli_round mem (line_of [''create'', ''-v'', nat_dec n, ''-o'', flags] @ rest, st) = Inl WildPointer"
proof
  let ?ws = "[''create'', ''-v'', nat_dec n, ''-i'', nm, ''-j'', dotted a, ''-p'', nat_dec p]"
  let ?inst = "inst_at [] (stk st 1)"
  have ok: "list_all word_ok ?ws" using assms(1,2,3) word_ok_dec [of n] word_ok_dec [of p] dotted_word(1) [of a]
    by (simp add: typed_name_def) (simp add: word_ok_def CMDMAXLEN_def)
  have nine: "Suc (length (tl ?ws)) = 9" "(9::nat) < 30" by simp_all
  note round = named_round [OF ok nine [unfolded list.sel] assms(11) find_create, of mem rest]
  obtain t where pa: "print_args ''CREATE INSTANCE'' 9 (st\<lparr>subcmd := ?ws @ drop 9 (subcmd st)\<rparr>) =
      Inr (say t (say ''ARGUMENTS:'' (say ''CREATE INSTANCE'' (st\<lparr>subcmd := ?ws @ drop 9 (subcmd st)\<rparr>))))"
    using assms(11) by (simp add: print_args_def)
  let ?st = "say t (say ''ARGUMENTS:'' (say ''CREATE INSTANCE'' (st\<lparr>subcmd := ?ws @ drop 9 (subcmd st)\<rparr>)))"
  let ?es = "[(CHR ''v'', Some (nat_dec n)), (CHR ''i'', Some nm), (CHR ''j'', Some (dotted a)), (CHR ''p'', Some (nat_dec p))]"
  obtain st0 where g: "getopt_all ''A:d:i:j:o:p:v:'' 9 ?st = (?es, st0)" and st0: "cl st0 = cl ?st"
    by (simp add: getopt_all_def create_getopt del: getopt.simps)
  define st1 where "st1 = say_args ?es st0"
  have st1: "env (cl st1) = env (cl st)" "calls (cl st1) = calls (cl st)"
    using only_printed_args [of st0 ?es] by (simp_all add: st1_def only_printed_def st0)
  have len: "length (vr_ifname (vi_vr ?inst)) = 32" using assms(12) by (simp add: inst_at_def)
  have "length (cstr (bytes_of nm)) < length (vr_ifname (vi_vr ?inst))"
    using assms(3) name_bytes [OF assms(3)] len by (simp add: typed_name_def bytes_of_def)
  from strcpy_ok [OF this] obtain b where
    b: "strcpy (vr_ifname (vi_vr ?inst)) (bytes_of nm) = Inr b" "cstr b = bytes_of nm" "length b = 32"
    using name_bytes [OF assms(3)] len by auto
  define i where "i = typed_inst n b a p ?inst"
  note fill = create_opts_fill [of n p a mem m ?inst nm b i, OF assms(1,2,5-7) b(1) i_def]
  have "req_ok (ReqCreate (stk st 1) i)" using assms(5,12) b(3) by (simp add: i_def typed_inst_def)
  moreover have "answers (cl st1)" using assms(10) by (simp add: st1 answers_def connects_def)
  ultimately have c: "cmd_create_inst (stk st 1) i (cl st1) = Inr (VRRP_SUCCESS, sent (ReqCreate (stk st 1) i) (cl st1))"
    using all_cmd_sent [of "cl st1" "ReqCreate (stk st 1) i" "[]"] by (simp add: cmd_create_inst_def)
  have "stk ?st 1 = stk st 1" by simp
  then have "\<exists>r. cmd_create mem 9 (st\<lparr>subcmd := ?ws @ drop 9 (subcmd st)\<rparr>) =
      Inr (r, st1\<lparr>cl := sent (ReqCreate (stk st 1) i) (cl st1)\<rparr>)"
    by (simp only: cmd_create_def pa bnd_simps Let_def g prod.case create_vars.simps fill on_client_def c st1_def [symmetric]) blast
  then have "returns (cmd_create mem 9 (st\<lparr>subcmd := ?ws @ drop 9 (subcmd st)\<rparr>)) (\<lambda>(_, st').
      calls (cl st') = calls (sent (ReqCreate (stk st 1) i) (cl st)))"
    by (auto simp: replied_def cmd_calls_def st1)
  then show "returns (cli_round mem (line_of ?ws @ rest, st))
      (\<lambda>(input, st'). input = rest \<and> (\<exists>ifname. cstr ifname = bytes_of nm \<and>
        calls (cl st') = calls (sent (ReqCreate (stk st 1) (typed_inst n ifname a p ?inst)) (cl st))))"
    unfolding round using b(2) i_def by (fastforce elim!: returnsE)
qed (rule create_flags_crash [OF assms(1,8,9,11)])

theorem typed_create_is_sent_witness:
  "returns (cli_round (\<lambda>n. Some (replicate n 0)) (''create -v 9 -i eth0 -j 10.0.0.1 -p 8'' @ [CHR 0x0A], demo_cli))
      (\<lambda>(input, st'). input = [] \<and> (\<exists>ifname. cstr ifname = [101, 116, 104, 48] \<and> calls (cl st') =
        calls (sent (ReqCreate (replicate 76 0) (typed_inst 9 ifname [10, 0, 0, 1] 8 (inst_at [] (replicate 76 0)))) (cl demo_cli)))) \<and>
    cli_round (\<lambda>n. Some (replicate n 0)) (''create -v 9 -o preempt'' @ [CHR 0x0A], demo_cli) = Inl WildPointer"
proof -
  have "typed_name ''eth0''" "word_ok ''preempt''" by (simp_all add: typed_name_def word_ok_def CMDMAXLEN_def)
  moreover have "nat_dec 9 = ''9''" "nat_dec 8 = ''8''" by (simp_all add: nat_dec.simps char_of_eq_iff)
  moreover have "dotted [10, 0, 0, 1] = ''10.0.0.1''" by (simp add: dotted_def nat_dec.simps char_of_eq_iff)
  moreover have "bytes_of ''eth0'' = [101, 116, 104, 48]" by (simp add: bytes_of_def)
  ultimately show ?thesis
    using typed_create_is_sent [of 9 8 "''eth0''" "[10, 0, 0, 1]" "\<lambda>n. Some (replicate n 0)" "replicate 4 0"
      "''preempt''" demo_cli "[]"] answers_demo
    by (simp add: demo_cli_def)
qed

end
