(* ===== verification/Net.thy ===== *)
theory Net
  imports Lifecycle
begin

text \<open>
  The daemon's tables of descriptors: the 16 pairs of raw sockets by interface (\<open>netfds\<close>, vrrpd.c and
  vrrpd_adv.c) and the descriptors it polls with the interface and family of each (\<open>pollfds\<close>,
  \<open>poll_intfs\<close>, \<open>poll_afs\<close>).
\<close>

section \<open>Raw sockets\<close>

definition ETH_P_ALL :: u16 where [simp]: "ETH_P_ALL = 3"
definition IFNAMSIZ :: nat where [simp]: "IFNAMSIZ = 16"
definition POLLIN :: u16 where [simp]: "POLLIN = 1"

definition CreateSock :: "u16 \<Rightarrow> world \<Rightarrow> (cint \<times> world) res" where
  "CreateSock proto w =
     (let sock = socket_ret (os w) (trace w); w = emit (EvSocket proto) w in
      if sock = -1 then Inl (ProcessExit (-1)) else Inr (sock, w))"

text \<open>The kernel is asked for the first 16 bytes of the name.\<close>

definition BindSock :: "u8 list \<Rightarrow> cint \<Rightarrow> u16 \<Rightarrow> world \<Rightarrow> (cint \<times> world) res" where
  "BindSock device raw protocol w =
     (let r = ifindex_ret (os w) (trace w); w = emit (EvIfindex raw (take IFNAMSIZ (cstr device))) w in
      if r = -1 then Inl (ProcessExit (-1))
      else
        (let b = bind_ret (os w) (trace w); w = emit (EvBind raw) w in
         if b = -1 then Inl (ProcessExit (-1)) else Inr (1, w)))"

text \<open>The test of \<open>setsockopt\<close> is inverted here too.\<close>

definition JoinMulticast :: "cint \<Rightarrow> world \<Rightarrow> cint \<times> world" where
  "JoinMulticast rs w =
     (let r = setsockopt_ret (os w) (trace w); w = emit (EvSetsockopt rs) w in (if r = 0 then -1 else 0, w))"

definition LeaveMulticast :: "cint \<Rightarrow> world \<Rightarrow> (cint \<times> world) res" where
  "LeaveMulticast rs w =
     (let r = setsockopt_ret (os w) (trace w); w = emit (EvSetsockopt rs) w in
      if r = 0 then Inl (ProcessExit (-1)) else Inr (0, w))"

definition fd_update :: "nat \<Rightarrow> (vrrp_intf_fd \<Rightarrow> vrrp_intf_fd) \<Rightarrow> world \<Rightarrow> world res" where
  "fd_update i f w = (if i < length (netfds w) then Inr (w\<lparr>netfds := (netfds w)[i := f (netfds w ! i)]\<rparr>)
     else Inl BufferOverflow)"

text \<open>
  \<open>init_netfd\<close> has no return statement: its caller tests what the register held.
\<close>

definition init_netfd :: "nat \<Rightarrow> u8 list \<Rightarrow> cint \<Rightarrow> world \<Rightarrow> (cint \<times> world) res" where
  "init_netfd i intf af w =
     bnd (fd_at (Some i) w) (\<lambda>fd.
     bnd (strcpy (fd_intf fd) intf) (\<lambda>name.
     bnd (fd_update i (\<lambda>fd. fd\<lparr>fd_intf := name, s_send := 0, s_rcv := 0\<rparr>) w) (\<lambda>w.
     bnd (CreateSock ETH_P_ALL w) (\<lambda>(snd, w).
     bnd (fd_update i (\<lambda>fd. fd\<lparr>s_send := snd\<rparr>) w) (\<lambda>w.
     bnd (CreateSock ETH_P_IP w) (\<lambda>(rcv, w).
     bnd (fd_update i (\<lambda>fd. fd\<lparr>s_rcv := rcv\<rparr>) w) (\<lambda>w.
     bnd (BindSock name snd ETH_P_ALL w) (\<lambda>(_, w).
     bnd (BindSock name rcv ETH_P_IP w) (\<lambda>(_, w).
     let (_, w) = JoinMulticast snd w;
         (_, w) = JoinMulticast rcv w in
     Inr (stack_junk (os w) 3 (trace w), w))))))))))"

text \<open>
  The search of \<open>vrrpd_setup_netfd_vr\<close>: whether there is an entry for the interface, and its index,
  else that of the first unused entry, else one past the end.
\<close>

fun netfd_scan :: "vrrp_intf_fd list \<Rightarrow> u8 list \<Rightarrow> nat \<Rightarrow> nat \<Rightarrow> bool \<times> nat" where
  "netfd_scan [] intf i n1 = (False, n1)"
| "netfd_scan (fd # fds) intf i n1 =
     (if hd (fd_intf fd) = 0 then netfd_scan fds intf (i + 1) (if i < n1 then i else n1)
      else if cstr (fd_intf fd) = cstr intf then (True, i)
      else netfd_scan fds intf (i + 1) n1)"

definition vrrpd_setup_netfd_vr :: "ptr \<Rightarrow> u8 list \<Rightarrow> cint \<Rightarrow> world \<Rightarrow> (cint \<times> world) res" where
  "vrrpd_setup_netfd_vr r intf af w =
     (let (found, n1) = netfd_scan (netfds w) intf 0 (length (netfds w)) in
      bnd (if found then vstore r (\<lambda>v. v\<lparr>vfd := Some n1\<rparr>) w else Inr w) (\<lambda>w.
      bnd (init_netfd n1 intf af w) (\<lambda>(x, w).
      if x <s 0 then Inr (-1, w)
      else bnd (vstore r (\<lambda>v. v\<lparr>vfd := Some n1\<rparr>) w) (\<lambda>w. Inr (0, w)))))"

definition vrrpd_setup_netfd :: "ptr \<Rightarrow> world \<Rightarrow> (u32 \<times> world) res" where
  "vrrpd_setup_netfd v w =
     bnd (dload v w) (\<lambda>d.
     loop (\<lambda>(r, w).
       if r = None then Inr (Inr (0, w))
       else
         bnd (vload r w) (\<lambda>e.
         bnd (vrrpd_setup_netfd_vr r (vr_ifname (vr e)) (vr_af (vr e)) w) (\<lambda>(x, w).
         if x <s 0 then Inr (Inr (-1, w))
         else bnd (vload r w) (\<lambda>e. Inr (Inl (vr_next e, w)))))) (ds_vr d, w))"

section \<open>Polling\<close>

definition poll_fds :: "world \<Rightarrow> cint list" where
  "poll_fds w = map pfd_fd (pollfds w)"

definition find_fd :: "cint \<Rightarrow> world \<Rightarrow> nat option" where
  "find_fd fd w = List.find (\<lambda>i. poll_fds w ! i = fd) [0..<length (poll_fds w)]"

text \<open>Copying the interface name into \<open>poll_intfs[i]\<close>; the arrays have 32 entries.\<close>

definition set_poll_intf :: "nat \<Rightarrow> u8 list option \<Rightarrow> world \<Rightarrow> world res" where
  "set_poll_intf i intf w =
     (case intf of None \<Rightarrow> Inr w
      | Some s \<Rightarrow>
          if i < length (poll_intfs w) then
            bnd (strcpy (poll_intfs w ! i) s) (\<lambda>b. Inr (w\<lparr>poll_intfs := (poll_intfs w)[i := b]\<rparr>))
          else Inl BufferOverflow)"

definition set_poll_af :: "nat \<Rightarrow> cint \<Rightarrow> world \<Rightarrow> world res" where
  "set_poll_af i af w = (if i < length (poll_afs w) then Inr (w\<lparr>poll_afs := (poll_afs w)[i := af]\<rparr>)
     else Inl BufferOverflow)"

definition poll_add :: "cint \<Rightarrow> cint \<Rightarrow> u8 list option \<Rightarrow> world \<Rightarrow> (cint \<times> world) res" where
  "poll_add fd af intf w =
     (if find_fd fd w \<noteq> None then Inr (0, w)
      else
        case find_fd (-1) w of
          Some i \<Rightarrow>
            bnd (set_poll_af i af (w\<lparr>pollfds := (pollfds w)[i := (pollfds w ! i)\<lparr>pfd_fd := fd\<rparr>]\<rparr>)) (\<lambda>w.
            bnd (set_poll_intf i intf w) (\<lambda>w. Inr (0, w)))
        | None \<Rightarrow>
            (let num = length (pollfds w); (newfds, w) = malloc w in
             if newfds = None then Inr (-1, w)
             else
               bnd (set_poll_intf num intf w) (\<lambda>w.
               Inr (0, w\<lparr>pollfds := pollfds w @ \<lparr>pfd_fd = fd, pfd_events = POLLIN\<rparr> #
                           replicate 31 \<lparr>pfd_fd = -1, pfd_events = POLLIN\<rparr>\<rparr>))))"

text \<open>\<open>inst_start_recv\<close> returns no value; what its caller would get is not used.\<close>

definition inst_start_recv :: "ptr \<Rightarrow> world \<Rightarrow> world res" where
  "inst_start_recv v w =
     bnd (dload v w) (\<lambda>d.
     loop (\<lambda>(r, w).
       if r = None then Inr (Inr w)
       else
         bnd (vload r w) (\<lambda>e.
         bnd (fd_at (vfd e) w) (\<lambda>fd.
         bnd (poll_add (s_rcv fd) (vr_af (vr e)) (Some (fd_intf fd)) w) (\<lambda>(x, w).
         if x <s 0 then Inr (Inr w)
         else bnd (vload r w) (\<lambda>e. Inr (Inl (vr_next e, w))))))) (ds_vr d, w))"

text \<open>\<open>setup_adm_socket\<close>: the Unix socket on which commands arrive is the first that is polled.\<close>

definition setup_adm_socket :: "world \<Rightarrow> (cint \<times> world) res" where
  "setup_adm_socket w =
     (let sock = socket_ret (os w) (trace w); w = emit (EvSocket 0) w in
      if sock <s 0 then Inl (ProcessExit 1)
      else
        (let ret = bind_ret (os w) (trace w); w = emit (EvBind sock) w in
         if ret <s 0 then Inl (ProcessExit 1)
         else
           bnd (poll_add sock AF_UNSPEC None w) (\<lambda>(x, w).
           if x = -1 then Inl (ProcessExit 1) else Inr (sock, w))))"

section \<open>The poll table as a map\<close>

lemma find_fd_Some: "find_fd x w = Some i \<longleftrightarrow>
  i < length (pollfds w) \<and> poll_fds w ! i = x \<and> (\<forall>j < i. poll_fds w ! j \<noteq> x)"
  by (auto simp: find_fd_def find_Some_iff poll_fds_def)

lemma find_fd_None: "find_fd x w = None \<longleftrightarrow> (\<forall>i < length (pollfds w). poll_fds w ! i \<noteq> x)"
  by (auto simp: find_fd_def find_None_iff poll_fds_def)

text \<open>
  What the main loop passes on for a descriptor that is ready: the family and the interface name at
  the descriptor's index.
\<close>

definition poll_lookup :: "world \<Rightarrow> cint \<Rightarrow> (cint \<times> u8 list) option" where
  "poll_lookup w x = (if x = -1 then None
     else map_option (\<lambda>i. (poll_afs w ! i, cstr (poll_intfs w ! i))) (find_fd x w))"

definition wf_poll :: "world \<Rightarrow> bool" where
  "wf_poll w \<longleftrightarrow> length (poll_afs w) = 32 \<and> length (poll_intfs w) = 32 \<and>
     (\<forall>s \<in> set (poll_intfs w). length s = LIFNAMSIZ) \<and>
     (\<forall>i < length (pollfds w). \<forall>j < length (pollfds w). poll_fds w ! i = poll_fds w ! j \<longrightarrow>
        i = j \<or> poll_fds w ! i = -1)"

lemma poll_add_free:
  assumes wf: "wf_poll w" and new: "find_fd fd w = None" and fd: "fd \<noteq> -1"
    and i: "find_fd (-1) w = Some i" "i < 32" and s: "length (cstr intf) < LIFNAMSIZ"
  shows "\<exists>w' name. poll_add fd af (Some intf) w = Inr (0, w') \<and> cstr name = cstr intf \<and> length name = LIFNAMSIZ \<and>
    w' = w\<lparr>pollfds := (pollfds w)[i := (pollfds w ! i)\<lparr>pfd_fd := fd\<rparr>], poll_afs := (poll_afs w)[i := af],
      poll_intfs := (poll_intfs w)[i := name]\<rparr>"
proof -
  have "poll_intfs w ! i \<in> set (poll_intfs w)" using wf i(2) by (simp add: wf_poll_def)
  then have l: "length (poll_intfs w ! i) = LIFNAMSIZ" using wf by (simp add: wf_poll_def)
  with s obtain name where n: "strcpy (poll_intfs w ! i) intf = Inr name" "cstr name = cstr intf" "length name = LIFNAMSIZ"
    using strcpy_ok [of intf "poll_intfs w ! i"] by auto
  with wf new i show ?thesis
    by (intro exI [of _ "w\<lparr>pollfds := (pollfds w)[i := (pollfds w ! i)\<lparr>pfd_fd := fd\<rparr>], poll_afs := (poll_afs w)[i := af],
      poll_intfs := (poll_intfs w)[i := name]\<rparr>"] exI [of _ name])
      (simp add: poll_add_def set_poll_af_def set_poll_intf_def wf_poll_def)
qed

lemma poll_slot:
  assumes wf: "wf_poll w" and new: "find_fd fd w = None" and fd: "fd \<noteq> -1"
    and i: "find_fd (-1) w = Some i" "i < 32" and n: "cstr name = cstr intf" "length name = LIFNAMSIZ"
    and w': "w' = w\<lparr>pollfds := (pollfds w)[i := (pollfds w ! i)\<lparr>pfd_fd := fd\<rparr>], poll_afs := (poll_afs w)[i := af],
      poll_intfs := (poll_intfs w)[i := name]\<rparr>"
  shows "wf_poll w'" and "poll_lookup w' = (poll_lookup w)(fd \<mapsto> (af, cstr intf))"
proof -
  have i': "i < length (pollfds w)" "poll_fds w ! i = -1" using i(1) by (simp_all add: find_fd_Some)
  have fds: "poll_fds w' = (poll_fds w)[i := fd]" by (simp add: w' poll_fds_def map_update)
  have len: "length (pollfds w') = length (pollfds w)" by (simp add: w')
  have ln: "length (poll_fds w) = length (pollfds w)" by (simp add: poll_fds_def)
  have old: "poll_fds w ! j \<noteq> fd" if "j < length (pollfds w)" for j using new that by (simp add: find_fd_None)
  show "wf_poll w'"
    unfolding wf_poll_def
  proof (intro conjI)
    show "length (poll_afs w') = 32" "length (poll_intfs w') = 32" using wf by (simp_all add: wf_poll_def w')
    show "\<forall>s \<in> set (poll_intfs w'). length s = LIFNAMSIZ"
      using wf n(2) by (auto simp: wf_poll_def w' dest!: set_update_subset_insert [THEN subsetD])
    show "\<forall>a < length (pollfds w'). \<forall>b < length (pollfds w'). poll_fds w' ! a = poll_fds w' ! b \<longrightarrow> a = b \<or> poll_fds w' ! a = -1"
      using wf old i' unfolding len fds wf_poll_def by (auto simp: nth_list_update ln)
  qed
  have at_fd: "find_fd fd w' = Some i"
    using old i' by (simp add: find_fd_Some fds len ln)
  have other: "find_fd x w' = find_fd x w" if "x \<noteq> fd" "x \<noteq> -1" for x
    unfolding find_fd_def
    by (rule find_cong) (use that i' in \<open>auto simp: fds len ln nth_list_update\<close>)
  have keep: "j \<noteq> i" if "find_fd x w = Some j" "x \<noteq> -1" for x j using that i' by (auto simp: find_fd_Some)
  show "poll_lookup w' = (poll_lookup w)(fd \<mapsto> (af, cstr intf))"
  proof
    fix x
    show "poll_lookup w' x = ((poll_lookup w)(fd \<mapsto> (af, cstr intf))) x"
    proof (cases "x = fd \<or> x = -1")
      case True
      then show ?thesis using at_fd fd wf i(2) n(1) by (auto simp: poll_lookup_def w' wf_poll_def)
    next
      case False
      then show ?thesis
        using other [of x] keep [of x] by (cases "find_fd x w") (auto simp: poll_lookup_def w')
    qed
  qed
qed

text \<open>
  C26: Registering a descriptor updates the poll table like a map from descriptors to the family and
  interface its messages are handled with: a descriptor that is already there changes nothing, a
  new one is entered in the first free place and nothing else changes, and the table keeps its
  well-formedness. The interface array has 32 entries but the descriptors may grow: the first
  that finds no free place among 32 is written past the end of it.
\<close>

theorem poll_add_refines:
  assumes wf: "wf_poll w" and fd: "fd \<noteq> -1" and s: "length (cstr intf) < LIFNAMSIZ"
  shows "(find_fd fd w \<noteq> None \<longrightarrow> poll_add fd af (Some intf) w = Inr (0, w)) \<and>
    (find_fd fd w = None \<longrightarrow> (\<forall>i < 32. find_fd (-1) w = Some i \<longrightarrow>
      returns (poll_add fd af (Some intf) w) (\<lambda>(r, w'). r = 0 \<and> wf_poll w' \<and>
        poll_lookup w' = (poll_lookup w)(fd \<mapsto> (af, cstr intf))))) \<and>
    (find_fd fd w = None \<and> find_fd (-1) w = None \<and> length (pollfds w) = 32 \<and> no_oom w \<longrightarrow>
      poll_add fd af (Some intf) w = Inl BufferOverflow)"
proof (intro conjI impI allI)
  assume "find_fd fd w \<noteq> None"
  then show "poll_add fd af (Some intf) w = Inr (0, w)" by (simp add: poll_add_def)
next
  fix i :: nat assume i: "i < 32" "find_fd fd w = None" "find_fd (-1) w = Some i"
  from poll_add_free [OF wf i(2) fd i(3,1) s, of af] obtain w' name where
    "poll_add fd af (Some intf) w = Inr (0, w')" and n: "cstr name = cstr intf" "length name = LIFNAMSIZ"
    and w': "w' = w\<lparr>pollfds := (pollfds w)[i := (pollfds w ! i)\<lparr>pfd_fd := fd\<rparr>], poll_afs := (poll_afs w)[i := af],
      poll_intfs := (poll_intfs w)[i := name]\<rparr>" by blast
  then show "returns (poll_add fd af (Some intf) w) (\<lambda>(r, w'). r = 0 \<and> wf_poll w' \<and>
        poll_lookup w' = (poll_lookup w)(fd \<mapsto> (af, cstr intf)))"
    using poll_slot [OF wf i(2) fd i(3,1) n w'] by simp
next
  assume "find_fd fd w = None \<and> find_fd (-1) w = None \<and> length (pollfds w) = 32 \<and> no_oom w"
  then show "poll_add fd af (Some intf) w = Inl BufferOverflow"
    using wf by (simp add: poll_add_def set_poll_intf_def wf_poll_def)
qed

definition demo_poll :: world where
  "demo_poll = (demo_world 0 Map.empty Map.empty None)\<lparr>pollfds :=
     \<lparr>pfd_fd = 3, pfd_events = 1\<rparr> # replicate 31 \<lparr>pfd_fd = -1, pfd_events = 1\<rparr>\<rparr>"

lemma demo_poll_fds: "poll_fds demo_poll = 3 # replicate 31 (-1)"
  by (simp add: poll_fds_def demo_poll_def)

lemma wf_demo_poll: "wf_poll demo_poll"
  unfolding wf_poll_def demo_poll_fds by (auto simp: demo_poll_def demo_world_def nth_Cons split: nat.splits)

theorem poll_add_refines_witness:
  "returns (poll_add 5 2 (Some demo_ifname) demo_poll) (\<lambda>(r, w'). r = 0 \<and> poll_lookup w' 5 = Some (2, [101, 116, 104, 48]))"
proof -
  have l: "length (pollfds demo_poll) = 32" by (simp add: demo_poll_def)
  have "find_fd 5 demo_poll = None" "find_fd (-1) demo_poll = Some 1"
    by (auto simp: find_fd_None find_fd_Some demo_poll_fds l nth_Cons split: nat.splits)
  moreover have "length (cstr demo_ifname) < LIFNAMSIZ" "(5 :: cint) \<noteq> -1" by simp_all
  ultimately show ?thesis
    using poll_add_refines [OF wf_demo_poll, of 5 demo_ifname 2] by (auto elim!: returns_mono)
qed

section \<open>The socket table\<close>

text \<open>An environment that opens and binds sockets, and in which \<open>init_netfd\<close> is taken to succeed.\<close>

definition sockets_ok :: "world \<Rightarrow> bool" where
  "sockets_ok w \<longleftrightarrow> (\<forall>t. socket_ret (os w) t \<noteq> -1 \<and> ifindex_ret (os w) t \<noteq> -1 \<and> bind_ret (os w) t \<noteq> -1 \<and>
     \<not> stack_junk (os w) 3 t <s 0)"

definition open_events :: "u8 list \<Rightarrow> cint \<Rightarrow> cint \<Rightarrow> event list" where
  "open_events name sd rv = [EvSocket ETH_P_ALL, EvSocket ETH_P_IP, EvIfindex sd (take IFNAMSIZ name), EvBind sd,
     EvIfindex rv (take IFNAMSIZ name), EvBind rv, EvSetsockopt sd, EvSetsockopt rv]"

definition new_fd :: "world \<Rightarrow> u8 list \<Rightarrow> vrrp_intf_fd" where
  "new_fd w name = \<lparr>fd_intf = name, s_send = socket_ret (os w) (trace w),
     s_rcv = socket_ret (os w) (trace w @ [EvSocket ETH_P_ALL])\<rparr>"

definition opens :: "nat \<Rightarrow> u8 list \<Rightarrow> world \<Rightarrow> world" where
  "opens n name w = w\<lparr>netfds := (netfds w)[n := new_fd w name],
     trace := trace w @ open_events (cstr name) (s_send (new_fd w name)) (s_rcv (new_fd w name))\<rparr>"

lemma fd_fields: "(fd :: vrrp_intf_fd)\<lparr>fd_intf := a, s_send := b, s_rcv := c\<rparr> = \<lparr>fd_intf = a, s_send = b, s_rcv = c\<rparr>"
  by (cases fd) simp

lemma init_netfd_ok:
  assumes n: "n < length (netfds w)" "length (fd_intf (netfds w ! n)) = LIFNAMSIZ" and s: "length (cstr intf) < LIFNAMSIZ"
    and e: "sockets_ok w"
  shows "\<exists>x name. init_netfd n intf af w = Inr (x, opens n name w) \<and> \<not> x <s 0 \<and> cstr name = cstr intf \<and>
    length name = LIFNAMSIZ"
proof -
  obtain name where name: "strcpy (fd_intf (netfds w ! n)) intf = Inr name" "cstr name = cstr intf" "length name = LIFNAMSIZ"
    using strcpy_ok [of intf "fd_intf (netfds w ! n)"] n s by auto
  show ?thesis
    using n e name
    by (intro exI [of _ "stack_junk (os w) 3 (trace (opens n name w))"] exI [of _ name])
      (simp add: init_netfd_def fd_at_def fd_update_def CreateSock_def BindSock_def JoinMulticast_def sockets_ok_def
        Let_def opens_def new_fd_def open_events_def emit_def fd_fields)
qed

definition fd_used :: "vrrp_intf_fd \<Rightarrow> bool" where
  "fd_used fd \<longleftrightarrow> hd (fd_intf fd) \<noteq> 0"

text \<open>The table: 16 entries, no interface twice.\<close>

definition wf_netfds :: "world \<Rightarrow> bool" where
  "wf_netfds w \<longleftrightarrow> length (netfds w) = 16 \<and> (\<forall>fd \<in> set (netfds w). length (fd_intf fd) = LIFNAMSIZ) \<and>
     (\<forall>i < 16. \<forall>j < 16. fd_used (netfds w ! i) \<and> fd_used (netfds w ! j) \<and>
        cstr (fd_intf (netfds w ! i)) = cstr (fd_intf (netfds w ! j)) \<longrightarrow> i = j)"

text \<open>The entry of an interface, or the place for it.\<close>

definition fd_slot :: "vrrp_intf_fd list \<Rightarrow> u8 list \<Rightarrow> nat \<Rightarrow> bool" where
  "fd_slot fds name n \<longleftrightarrow> n < length fds \<and>
     (fd_used (fds ! n) \<and> cstr (fd_intf (fds ! n)) = name \<or>
      \<not> fd_used (fds ! n) \<and> (\<forall>m < length fds. fd_used (fds ! m) \<longrightarrow> cstr (fd_intf (fds ! m)) \<noteq> name))"

lemma scan_hit:
  assumes "fd_used fd" and "cstr (fd_intf fd) = cstr intf"
    and "\<forall>f \<in> set xs. fd_used f \<longrightarrow> cstr (fd_intf f) \<noteq> cstr intf"
  shows "netfd_scan (xs @ fd # ys) intf i n1 = (True, i + length xs)"
  using assms(3)
proof (induction xs arbitrary: i n1)
  case Nil
  then show ?case using assms(1,2) by (simp add: fd_used_def)
next
  case (Cons f xs)
  then show ?case by (simp add: fd_used_def)
qed

lemma scan_keep:
  "\<forall>f \<in> set fds. fd_used f \<longrightarrow> cstr (fd_intf f) \<noteq> cstr intf \<Longrightarrow> n1 \<le> i \<Longrightarrow> netfd_scan fds intf i n1 = (False, n1)"
  by (induction fds arbitrary: i) (auto simp: fd_used_def)

lemma scan_full:
  "\<forall>f \<in> set fds. fd_used f \<and> cstr (fd_intf f) \<noteq> cstr intf \<Longrightarrow> netfd_scan fds intf i n1 = (False, n1)"
  by (induction fds arbitrary: i) (auto simp: fd_used_def)

lemma scan_free:
  assumes "\<not> fd_used fd" and "\<forall>f \<in> set xs. fd_used f \<and> cstr (fd_intf f) \<noteq> cstr intf"
    and "\<forall>f \<in> set ys. fd_used f \<longrightarrow> cstr (fd_intf f) \<noteq> cstr intf" and "i + length xs < n1"
  shows "netfd_scan (xs @ fd # ys) intf i n1 = (False, i + length xs)"
  using assms(2,4)
proof (induction xs arbitrary: i)
  case Nil
  then show ?case using assms(1,3) scan_keep [of ys intf i "Suc i"] by (simp add: fd_used_def)
next
  case (Cons f xs)
  then show ?case by (simp add: fd_used_def)
qed

lemma first_split: "(\<exists>x \<in> set xs. P x) \<Longrightarrow> \<exists>ys x zs. xs = ys @ x # zs \<and> P x \<and> (\<forall>y \<in> set ys. \<not> P y)"
  by (rule split_list_first_prop) blast

lemma scan_slot:
  assumes "\<exists>n. fd_slot fds (cstr intf) n"
  shows "\<exists>b n. netfd_scan fds intf 0 (length fds) = (b, n) \<and> fd_slot fds (cstr intf) n"
proof (cases "\<exists>f \<in> set fds. fd_used f \<and> cstr (fd_intf f) = cstr intf")
  case True
  from first_split [OF this] obtain xs f ys where fds: "fds = xs @ f # ys" "fd_used f" "cstr (fd_intf f) = cstr intf"
    "\<forall>f \<in> set xs. fd_used f \<longrightarrow> cstr (fd_intf f) \<noteq> cstr intf" by auto
  from scan_hit [OF this(2-4), of ys 0] fds show ?thesis by (auto simp: fd_slot_def)
next
  case False
  then have "\<exists>f \<in> set fds. \<not> fd_used f" using assms by (auto simp: fd_slot_def)
  from first_split [OF this] obtain xs f ys where fds: "fds = xs @ f # ys" "\<not> fd_used f" "\<forall>f \<in> set xs. fd_used f"
    by auto
  have all: "\<forall>m < length fds. fd_used (fds ! m) \<longrightarrow> cstr (fd_intf (fds ! m)) \<noteq> cstr intf" using False nth_mem by blast
  from scan_free [OF fds(2), of xs intf ys 0 "length fds"] False fds
  have "netfd_scan fds intf 0 (length fds) = (False, length xs)" by auto
  moreover have "fd_slot fds (cstr intf) (length xs)" using all fds(1,2) by (simp add: fd_slot_def)
  ultimately show ?thesis by blast
qed

lemma scan_no_slot:
  assumes "\<nexists>n. fd_slot fds (cstr intf) n"
  shows "netfd_scan fds intf 0 (length fds) = (False, length fds)"
proof (rule scan_full, rule ballI, rule ccontr)
  fix f assume "f \<in> set fds" and "\<not> (fd_used f \<and> cstr (fd_intf f) \<noteq> cstr intf)"
  with assms show False by (auto simp: fd_slot_def in_set_conv_nth)
qed

lemma slot_kept:
  assumes wf: "wf_netfds w" and n: "fd_slot (netfds w) (cstr name) n" and name: "length name = LIFNAMSIZ" "cstr name \<noteq> []"
  shows "wf_netfds (opens n name w)"
proof -
  let ?fds = "(netfds w)[n := new_fd w name]"
  have l: "length (netfds w) = 16" using wf by (simp add: wf_netfds_def)
  have nn: "n < 16" using n l by (simp add: fd_slot_def)
  have new: "cstr (fd_intf (netfds w ! m)) \<noteq> cstr name" if "m < 16" "m \<noteq> n" "fd_used (netfds w ! m)" for m
    using n wf that l nn unfolding fd_slot_def wf_netfds_def by metis
  have "\<forall>fd \<in> set ?fds. length (fd_intf fd) = LIFNAMSIZ"
    using wf name(1) set_update_subset_insert [of "netfds w" n "new_fd w name"]
    by (auto simp: wf_netfds_def new_fd_def)
  moreover have "i = j" if "i < 16" "j < 16" "fd_used (?fds ! i)" "fd_used (?fds ! j)" "cstr (fd_intf (?fds ! i)) = cstr (fd_intf (?fds ! j))" for i j
    using that new [of i] new [of j] wf l nn unfolding wf_netfds_def
    by (cases "i = n"; cases "j = n") (auto simp: nth_list_update new_fd_def)
  ultimately show ?thesis using l unfolding wf_netfds_def opens_def by simp
qed

lemma setup_vr_ok:
  assumes wf: "wf_netfds w" and e: "sockets_ok w" and v: "vr_heap w a = Some v" and s: "length (cstr intf) < LIFNAMSIZ" "cstr intf \<noteq> []"
    and slot: "\<exists>n. fd_slot (netfds w) (cstr intf) n"
  shows "\<exists>n name. fd_slot (netfds w) (cstr intf) n \<and> cstr name = cstr intf \<and> length name = LIFNAMSIZ \<and>
    vrrpd_setup_netfd_vr (Some a) intf af w = Inr (0, (opens n name w)\<lparr>vr_heap := (vr_heap w)(a := Some (v\<lparr>vfd := Some n\<rparr>))\<rparr>)"
proof -
  obtain b n where scan: "netfd_scan (netfds w) intf 0 (length (netfds w)) = (b, n)" and n: "fd_slot (netfds w) (cstr intf) n"
    using scan_slot [OF slot] by blast
  define w1 where "w1 = (if b then w\<lparr>vr_heap := (vr_heap w)(a := Some (v\<lparr>vfd := Some n\<rparr>))\<rparr> else w)"
  have st: "(if b then vstore (Some a) (\<lambda>v. v\<lparr>vfd := Some n\<rparr>) w else Inr w) = Inr w1" using v by (simp add: w1_def)
  have n1: "n < length (netfds w1)" "length (fd_intf (netfds w1 ! n)) = LIFNAMSIZ" "sockets_ok w1"
    using n wf e by (auto simp: fd_slot_def wf_netfds_def w1_def sockets_ok_def)
  obtain x name where i: "init_netfd n intf af w1 = Inr (x, opens n name w1)" "\<not> x <s 0" "cstr name = cstr intf" "length name = LIFNAMSIZ"
    using init_netfd_ok [OF n1(1,2) s(1) n1(3)] by blast
  have "vrrpd_setup_netfd_vr (Some a) intf af w = Inr (0, (opens n name w)\<lparr>vr_heap := (vr_heap w)(a := Some (v\<lparr>vfd := Some n\<rparr>))\<rparr>)"
    using scan st i(1,2) v by (auto simp: vrrpd_setup_netfd_vr_def w1_def opens_def new_fd_def)
  with n i show ?thesis by blast
qed

text \<open>
  C27: Setting up the sockets of a router gives it the entry of its interface, or the first unused one,
  with two sockets that were opened for this; every other entry stays and no interface has
  two entries. A table of 16 other interfaces has no entry left, and the daemon writes past it.
\<close>

theorem setup_netfd_spec:
  assumes "wf_netfds w" and "sockets_ok w" and "vr_heap w a = Some v" and "length (cstr intf) < LIFNAMSIZ" and "cstr intf \<noteq> []"
  shows "if \<exists>n. fd_slot (netfds w) (cstr intf) n
    then returns (vrrpd_setup_netfd_vr (Some a) intf af w) (\<lambda>(r, w'). r = 0 \<and> wf_netfds w' \<and>
      (\<exists>n name. fd_slot (netfds w) (cstr intf) n \<and> cstr name = cstr intf \<and>
        vr_heap w' = (vr_heap w)(a := Some (v\<lparr>vfd := Some n\<rparr>)) \<and> netfds w' = (netfds w)[n := new_fd w name]))
    else vrrpd_setup_netfd_vr (Some a) intf af w = Inl WildPointer"
proof (cases "\<exists>n. fd_slot (netfds w) (cstr intf) n")
  case True
  obtain n name where n: "fd_slot (netfds w) (cstr intf) n" "cstr name = cstr intf" "length name = LIFNAMSIZ"
    and r: "vrrpd_setup_netfd_vr (Some a) intf af w = Inr (0, (opens n name w)\<lparr>vr_heap := (vr_heap w)(a := Some (v\<lparr>vfd := Some n\<rparr>))\<rparr>)"
    using setup_vr_ok [OF assms True] by blast
  have "wf_netfds (opens n name w)" using slot_kept [OF assms(1), of name n] n assms(5) by simp
  with n r True show ?thesis by (auto simp: wf_netfds_def opens_def)
next
  case False
  from scan_no_slot [OF this] False show ?thesis
    by (simp add: vrrpd_setup_netfd_vr_def init_netfd_def fd_at_def)
qed

lemma demo_fd_used [simp]: "fd_used demo_fd" "\<not> fd_used blank_fd"
  by (simp_all add: fd_used_def demo_fd_def demo_ifname_def blank_fd_def)

lemma length_blank_fd [simp]: "length (fd_intf blank_fd) = 32"
  by (simp add: blank_fd_def)

lemma demo_netfds: "wf_netfds (demo_world u vh dh q)"
  by (auto simp: wf_netfds_def nth_Cons split: nat.splits)

theorem setup_netfd_spec_witness:
  "returns (vrrpd_setup_netfd_vr (Some 11) demo_ifname 2 ((demo_unit 1 None)\<lparr>os := (demo_os 0)\<lparr>socket_ret := \<lambda>t. 8\<rparr>\<rparr>))
     (\<lambda>(r, w'). r = 0 \<and> vfd (the (vr_heap w' 11)) = Some 0 \<and> s_send (netfds w' ! 0) = 8)"
proof -
  let ?w = "(demo_unit 1 None)\<lparr>os := (demo_os 0)\<lparr>socket_ret := \<lambda>t. 8\<rparr>\<rparr>"
  have wf: "wf_netfds ?w" using demo_netfds by (simp add: wf_netfds_def demo_unit_def)
  have ok: "sockets_ok ?w" by (simp add: sockets_ok_def demo_os_def word_sless_alt)
  have v: "vr_heap ?w 11 = Some (demo_node 7 1 0 None None)" by (simp add: demo_unit_def)
  have fds: "netfds ?w = demo_fd # replicate 15 blank_fd" by (simp add: demo_unit_def)
  have slot: "fd_slot (netfds ?w) (cstr demo_ifname) n \<longleftrightarrow> n = 0" for n
    unfolding fds fd_slot_def by (auto simp: nth_Cons split: nat.splits)
  then have "\<exists>n. fd_slot (netfds ?w) (cstr demo_ifname) n" by blast
  with setup_netfd_spec [OF wf ok v, of demo_ifname 2] show ?thesis
    unfolding slot by (auto simp: fds new_fd_def elim!: returns_mono)
qed

end
