(* ===== verification/Daemon.thy ===== *)
theory Daemon
  imports Net Client
begin

text \<open>
  The main loop of vrrpd (vrrpd.c): a command that arrives on the Unix socket is parsed, carried out
  and answered; a packet that arrives on a raw socket is checked and drives the state of an
  instance. What arrives is an argument of the definitions.
\<close>

section \<open>Answering a command\<close>

text \<open>Bytes of the stack that the program did not write: \<open>n\<close> of them, by the number of the variable.\<close>

definition stack_bytes :: "nat \<Rightarrow> nat \<Rightarrow> world \<Rightarrow> u8 list" where
  "stack_bytes x n w = map (\<lambda>i. ucast (stack_junk (os w) (x + i) (trace w))) [0..<n]"

definition build_vrrp_ret :: "u32 \<Rightarrow> u8 list \<times> nat \<Rightarrow> (u8 list \<times> nat) res" where
  "build_vrrp_ret rval b = bnd (put (le32 CMD_RETURN_VAL) b) (put (le32 rval))"

text \<open>
  The two structures as they lie in memory, on top of \<open>m\<close>: their padding and pointers keep its bytes.
\<close>

definition sizeof_vrrpd_ds :: nat where [simp]: "sizeof_vrrpd_ds = 36"
definition sizeof_vrrpd_vr_ds :: nat where [simp]: "sizeof_vrrpd_vr_ds = 120"

definition ds_mem :: "u8 list \<Rightarrow> vrrpd_ds \<Rightarrow> u8 list" where
  "ds_mem m d =
     (let m = poke 4 (le32 (active d)) m;
          m = poke 8 [state d] m;
          m = poke 12 (le32 (pid d)) m;
          m = poke 16 [previous_state d] m;
          m = poke 20 (le32 (tv_sec (state_trans_time d))) m
      in poke 24 (le32 (tv_usec (state_trans_time d))) m)"

definition vr_mem :: "u8 list \<Rightarrow> vrrpd_vr_ds \<Rightarrow> u8 list" where
  "vr_mem m v =
     (let m = poke 0 (peek 0 68 (inst_mem (peek 0 76 m) \<lparr>vi_va = attr v, vi_vr = vr v, vi_state = 0, vi_active = 0\<rparr>)) m;
          m = poke 72 (le32 (timeout v)) m;
          m = poke 76 (le32 (ai_af (advinfo v))) m;
          m = poke 80 (le32 (ai_addr (advinfo v))) m;
          m = poke 84 (le32 (tv_sec (ai_timestamp (advinfo v)))) m;
          m = poke 88 (le32 (tv_usec (ai_timestamp (advinfo v)))) m;
          m = poke 92 [ai_priority (advinfo v)] m
      in poke 96 (le32 (ai_interval (advinfo v))) m)"

fun build_vrrp_vr_buf :: "ptr \<Rightarrow> nat \<Rightarrow> world \<Rightarrow> u8 list \<times> nat \<Rightarrow> (u8 list \<times> nat) res" where
  "build_vrrp_vr_buf p 0 w b = Inr b"
| "build_vrrp_vr_buf p (Suc num) w b =
     bnd (vload p w) (\<lambda>v.
     bnd (put (vr_mem (junk (os w) (the p) sizeof_vrrpd_vr_ds) v) b) (\<lambda>b.
     bnd (fetch 0 (unat (vr_ipnum (vr v)) * 4) (vr_ip (vr v))) (\<lambda>ips.
     bnd (put ips b) (\<lambda>b.
     build_vrrp_vr_buf (vr_next v) num w b))))"

definition build_vrrp_ret_get_instx ::
  "ptr \<Rightarrow> u8 \<Rightarrow> u8 list \<Rightarrow> cint \<Rightarrow> world \<Rightarrow> u8 list \<times> nat \<Rightarrow> (u8 list \<times> nat) res" where
  "build_vrrp_ret_get_instx v next_vid next_intf next_af w b =
     bnd (dload v w) (\<lambda>d.
     bnd (put (ds_mem (junk (os w) (the v) sizeof_vrrpd_ds) d) b) (\<lambda>b.
     bnd (build_vrrp_vr_buf (ds_vr d) 1 w b) (\<lambda>b.
     bnd (put [next_vid] b) (\<lambda>b.
     bnd (put (cstr next_intf @ [0]) b) (\<lambda>b.
     put (le32 next_af) b)))))"

section \<open>Carrying out a command\<close>

text \<open>\<open>ifname\<close> is NULL when the name is empty.\<close>

definition opt_name :: "u8 list \<Rightarrow> u8 list option" where
  "opt_name intf = (if hd intf = 0 then None else Some intf)"

text \<open>What the switch leaves in \<open>ret\<close>, and in \<open>implp\<close>, \<open>vid\<close>, \<open>intf\<close> and \<open>af\<close> for the reply.\<close>

record adm_result =
  r_ret :: u32
  r_implp :: ptr
  r_vid :: u8
  r_intf :: "u8 list"
  r_af :: cint

definition only_ret :: "u32 \<Rightarrow> adm_result" where
  "only_ret r = \<lparr>r_ret = r, r_implp = None, r_vid = 0, r_intf = [], r_af = 0\<rparr>"

definition adm_create :: "vrrp_inst \<Rightarrow> world \<Rightarrow> (u32 \<times> world) res" where
  "adm_create vi w =
     bnd (vrrp_create_inst (Some vi) w) (\<lambda>((ret, temp), w).
     if ret \<noteq> VRRP_SUCCESS then Inr (ret, w)
     else
       bnd (vrrpd_setup_netfd temp w) (\<lambda>(_, w).
       bnd (inst_start_recv temp w) (\<lambda>w.
       if pri (vi_va vi) = 255 then
         bnd (vrrp_state_i2m temp w) (\<lambda>(ret, w). Inr (ret, emit (EvAlarm (delay (vi_va vi))) w))
       else Inr (ret, w))))"

definition adm_dispatch :: "u8 list \<Rightarrow> u32 \<Rightarrow> u8 list \<Rightarrow> world \<Rightarrow> (adm_result \<times> world) res" where
  "adm_dispatch buf cmd intf w =
     (let plain = (\<lambda>r. bnd r (\<lambda>(ret, w). Inr (only_ret ret, w))) in
      if \<not> (has_ids cmd \<or> cmd = CMD_CREATE_INST) then Inr (only_ret VRRP_EVRIP, w)
      else
      bnd (parse_vrrp_cmd buf cmd intf) (\<lambda>p.
      case p of
        PInst vi \<Rightarrow> plain (adm_create vi w)
      | PModify vid intf af prio intvl pree acpt \<Rightarrow>
          plain (vrrp_set_inst_prop vid (opt_name intf) af prio intvl pree acpt w)
      | PIds vid intf af \<Rightarrow>
          if cmd = CMD_REMOVE_INST then plain (vrrp_destroy_inst vid (opt_name intf) af w)
          else if cmd = CMD_STARTUP_INST then plain (vrrp_startup_inst vid (opt_name intf) af w)
          else if cmd = CMD_SHUTDOWN_INST then plain (vrrp_shutdown_inst vid (opt_name intf) af w)
          else
            bnd (vrrp_get_instx vid intf af w) (\<lambda>(ret, implp, vid, intf, af).
            Inr (\<lparr>r_ret = ret, r_implp = implp, r_vid = vid, r_intf = intf, r_af = af\<rparr>, w))
      | _ \<Rightarrow> Inr (only_ret VRRP_EVRIP, w)))"

text \<open>\<open>sizeof(p - buf)\<close>, the length of the reply that is sent, is the size of a pointer difference.\<close>

definition sizeof_ptrdiff :: nat where [simp]: "sizeof_ptrdiff = 4"

definition adm_reply :: "cint \<Rightarrow> u8 list \<Rightarrow> u32 \<Rightarrow> adm_result \<Rightarrow> world \<Rightarrow> world res" where
  "adm_reply sock buf cmd r w =
     bnd (build_vrrp_ret (r_ret r) (buf, 0)) (\<lambda>b.
     bnd (if r_ret r = VRRP_SUCCESS \<and> cmd = CMD_GET_INSTX
          then build_vrrp_ret_get_instx (r_implp r) (r_vid r) (r_intf r) (r_af r) w b else Inr b) (\<lambda>(buf, _).
     Inr (emit (EvSendto sock (take sizeof_ptrdiff buf)) w)))"

text \<open>
  \<open>process_adm_sock\<close> on what \<open>recvfrom\<close> delivers (\<open>None\<close> for an error, whose length -1 passes the
  unsigned comparison). The display comes last.
\<close>

definition adm_recv :: "u8 list option \<Rightarrow> world \<Rightarrow> cint \<times> u8 list" where
  "adm_recv msg w = (case msg of None \<Rightarrow> (-1, stack_bytes 100000 (BUFSIZE + 1) w)
     | Some m \<Rightarrow> (of_nat (length (take (BUFSIZE + 1) m)),
         poke 0 (take (BUFSIZE + 1) m) (stack_bytes 100000 (BUFSIZE + 1) w)))"

definition adm_command :: "cint \<Rightarrow> u8 list option \<Rightarrow> world \<Rightarrow> world res" where
  "adm_command sock msg w =
     (let (len, buf) = adm_recv msg w; intf = stack_bytes 200000 LIFNAMSIZ w in
      if len < 4 then Inr w
      else
        bnd (get_vrrp_cmd buf) (\<lambda>cmd.
        bnd (adm_dispatch buf cmd intf w) (\<lambda>(r, w).
        adm_reply sock buf cmd r w)))"

definition process_adm_sock :: "cint \<Rightarrow> u8 list option \<Rightarrow> world \<Rightarrow> world res" where
  "process_adm_sock sock msg w =
     (if fst (adm_recv msg w) < 4 then Inr w
      else bnd (adm_command sock msg w) (\<lambda>w. bnd (display_vrrp_instx inst_runtime_list w) (\<lambda>_. Inr w)))"

section \<open>Advertisements\<close>

definition ip_version :: "u8 list \<Rightarrow> u8" where
  "ip_version buf = drop_bit 4 (get8 14 buf)"

definition set_flag :: "u8 \<Rightarrow> cint \<Rightarrow> world \<Rightarrow> world" where
  "set_flag i x w = w\<lparr>flag := (flag w)(i := x)\<rparr>"

text \<open>
  \<open>vrrp_adv_check\<close> on the buffer of 4096 bytes: NULL, or a new instance that holds the sender's fields.
  The copy of the name goes to 32 bytes. Neither structure is freed; the members the code leaves
  uninitialised, which nobody reads, are blank here.
\<close>

definition adv_instance :: "vrrp_inst \<Rightarrow> world \<Rightarrow> (ptr \<times> world) res" where
  "adv_instance inst w =
     (let (r, w) = malloc w; (v, w) = malloc w in
      case v of None \<Rightarrow> Inl NullDeref | Some va \<Rightarrow>
      case r of None \<Rightarrow> Inl NullDeref | Some ra \<Rightarrow>
        bnd (strcpy (junk (os w) ra LIFNAMSIZ) (vr_ifname (vi_vr inst))) (\<lambda>name.
        Inr (v, w\<lparr>vr_heap := (vr_heap w)(ra := Some (blank_vr\<lparr>attr := vi_va inst,
                    vr := (vi_vr inst)\<lparr>vr_ipnum := 0, vr_ip := [], vr_ifname := name\<rparr>\<rparr>)),
                  ds_heap := (ds_heap w)(va := Some (blank_ds\<lparr>ds_vr := r, state := vi_state inst,
                    active := vi_active inst\<rparr>))\<rparr>)))"

definition vrrp_adv_check :: "u8 list \<Rightarrow> world \<Rightarrow> (ptr \<times> world) res" where
  "vrrp_adv_check buf w =
     (if ip_version buf \<noteq> 4 then Inr (None, w)
      else if get8 23 buf \<noteq> IPPROTO_VRRP then Inr (None, w)
      else if get8 22 buf \<noteq> VRRP_IP_TTL then Inr (None, w)
      else
        let inst = inst_at [] (drop 34 buf); i = vr_id (vi_vr inst); w = set_flag i 1 w in
        if pri (vi_va inst) = 0 then
          bnd (dload inst_runtime_list w) (\<lambda>l.
          let v_i = ds_next l; w = set_flag i 0 w in
          bnd (dload v_i w) (\<lambda>d.
          if state d = VRRP_STATE_BACK then
            bnd (inst_vr v_i w) (\<lambda>_.
            bnd (vrrp_state_b2m v_i w) (\<lambda>(_, w). Inr (None, w)))
          else Inr (None, w)))
        else adv_instance inst w)"

text \<open>The backup's timer when a master is heard: three intervals and the skew.\<close>

definition backup_timeout :: "u8 \<Rightarrow> vrrp_attr \<Rightarrow> u32" where
  "backup_timeout p a = VRRP_SEC2USEC (skew_sec (pri a)) + (if p \<noteq> 0 then 3 * VRRP_SEC2USEC (delay a) else 0)"

definition vrrp_process_incoming_adv :: "ptr \<Rightarrow> ptr \<Rightarrow> world \<Rightarrow> world res" where
  "vrrp_process_incoming_adv vri_curr vri_rcv w =
     bnd (dload vri_curr w) (\<lambda>c.
     let vri = ds_vr c in
     bnd (vload vri w) (\<lambda>v.
     bnd (stat_name (state c)) (\<lambda>_.
     bnd (dload (parent v) w) (\<lambda>p.
     if state p = VRRP_STATE_BACK then
       bnd (if pree_mode (attr v) = boolean_FALSE then Inr True
            else bnd (inst_vr vri_rcv w) (\<lambda>rv. Inr (pri (attr v) \<le> pri (attr rv)))) (\<lambda>heed.
       if heed then
         locked (\<lambda>w.
           bnd (vrrp_rmqueue_impl vri w) (\<lambda>(ret, w).
           if ret = VRRP_SUCCESS then
             bnd (inst_vr vri_rcv w) (\<lambda>rv.
             bnd (vstore vri (\<lambda>e. e\<lparr>timeout := backup_timeout (pri (attr rv)) (attr e)\<rparr>) w) (\<lambda>w.
             vrrp_enqueue_impl vri w))
           else Inr (0, w))) w
       else Inr w)
     else if state p = VRRP_STATE_MAST then
       bnd (inst_vr vri_rcv w) (\<lambda>rv.
       if pri (attr rv) = 0 then
         locked (\<lambda>w.
           bnd (vrrp_rmqueue_impl vri w) (\<lambda>(_, w).
           bnd (vstore vri (\<lambda>e. e\<lparr>timeout := VRRP_SEC2USEC (delay (attr e))\<rparr>) w) (\<lambda>w.
           vrrp_enqueue_impl vri w))) w
       else if pri (attr v) < pri (attr rv) then map_sum id snd (vrrp_state_m2b (parent v) w)
       else Inr w)
     else Inr w))))"

text \<open>\<open>vrrp_recv_adv4\<close> writes the packet over a zeroed buffer of 4096 bytes.\<close>

definition vrrp_recv_adv4 :: "u8 list \<Rightarrow> u8 list" where
  "vrrp_recv_adv4 pkt = poke 0 (take 4096 pkt) (replicate 4096 0)"

definition process_vrrpd_sock :: "u8 list \<Rightarrow> cint \<Rightarrow> u8 list \<Rightarrow> world \<Rightarrow> world res" where
  "process_vrrpd_sock pkt af ifname w =
     bnd (vrrp_adv_check (vrrp_recv_adv4 pkt) w) (\<lambda>(vri_rcv, w).
     if vri_rcv = None then Inr w
     else
       bnd (inst_vr vri_rcv w) (\<lambda>rv.
       let vid_rcv = vr_id (vr rv) in
       bnd (vrrp_search_inst vid_rcv (Some ifname) af w) (\<lambda>vri_curr.
       if vid_rcv = 0 \<or> vri_curr = None then Inr w
       else vrrp_process_incoming_adv vri_curr vri_rcv w)))"

section \<open>The main loop\<close>

text \<open>
  One round of the loop in \<open>vrrpd_adm_thread\<close>. \<open>poll\<close> is interrupted, fails, or reports the set of
  indexes that are ready; the first of them is served with what arrives on it, \<open>data\<close>. A
  descriptor whose index is 32 or more has no name and family.
\<close>

datatype poll_answer = PollInterrupted | PollFailed | PollReady "nat \<Rightarrow> bool"

definition adm_thread_round :: "cint \<Rightarrow> poll_answer \<Rightarrow> u8 list option \<Rightarrow> world \<Rightarrow> world res" where
  "adm_thread_round admsock answer data w =
     (case answer of
        PollInterrupted \<Rightarrow> Inr w
      | PollFailed \<Rightarrow> Inl (ProcessExit 1)
      | PollReady ready \<Rightarrow>
          (case List.find ready [0..<length (pollfds w)] of
             None \<Rightarrow> Inr w
           | Some i \<Rightarrow>
               if pfd_fd (pollfds w ! i) = admsock then process_adm_sock admsock data w
               else if i < length (poll_afs w) \<and> i < length (poll_intfs w) then
                 process_vrrpd_sock (case data of None \<Rightarrow> [] | Some d \<Rightarrow> d) (poll_afs w ! i) (poll_intfs w ! i) w
               else Inl OutOfBounds))"

section \<open>The reply\<close>

lemma put_keeps:
  assumes "put bs (b, off) = Inr (b', off')" and "4 \<le> off"
  shows "take 4 b' = take 4 b \<and> 4 \<le> off'"
  using assms by (auto simp: put_def poke_def split: if_splits)

lemma build_vr_buf_keeps:
  "build_vrrp_vr_buf p n w (b, off) = Inr (b', off') \<Longrightarrow> 4 \<le> off \<Longrightarrow> take 4 b' = take 4 b \<and> 4 \<le> off'"
proof (induction n arbitrary: p b off)
  case (Suc n)
  from Suc.prems(1) obtain v b1 o1 ips b2 o2 where
    "put (vr_mem (junk (os w) (the p) sizeof_vrrpd_vr_ds) v) (b, off) = Inr (b1, o1)"
    "put ips (b1, o1) = Inr (b2, o2)" "build_vrrp_vr_buf (vr_next v) n w (b2, o2) = Inr (b', off')"
    by (auto simp: bnd_Inr_iff)
  with put_keeps Suc.IH Suc.prems(2) show ?case by metis
qed simp

lemma build_instx_keeps:
  assumes "build_vrrp_ret_get_instx v i nm af w (b, off) = Inr (b', off')" and "4 \<le> off"
  shows "take 4 b' = take 4 b"
proof -
  from assms(1) obtain d b1 o1 b2 o2 b3 o3 b4 o4 where
    "put (ds_mem (junk (os w) (the v) sizeof_vrrpd_ds) d) (b, off) = Inr (b1, o1)"
    "build_vrrp_vr_buf (ds_vr d) 1 w (b1, o1) = Inr (b2, o2)" "put [i] (b2, o2) = Inr (b3, o3)"
    "put (cstr nm @ [0]) (b3, o3) = Inr (b4, o4)" "put (le32 af) (b4, o4) = Inr (b', off')"
    unfolding build_vrrp_ret_get_instx_def by (auto simp only: bnd_Inr_iff split_paired_Ex)
  with put_keeps build_vr_buf_keeps assms(2) show ?thesis by metis
qed

text \<open>Every command is answered with the same four bytes.\<close>

lemma reply_bytes:
  assumes "adm_reply sock buf cmd r w = Inr w'"
  shows "w' = emit (EvSendto sock (le32 CMD_RETURN_VAL)) w"
proof -
  obtain b1 o1 b2 o2 where p: "put (le32 CMD_RETURN_VAL) (buf, 0) = Inr (b1, o1)" "put (le32 (r_ret r)) (b1, o1) = Inr (b2, o2)"
    using assms by (auto simp: adm_reply_def build_vrrp_ret_def bnd_Inr_iff)
  have "take 4 b1 = le32 CMD_RETURN_VAL \<and> o1 = 4" using p(1) by (auto simp: put_def poke_def split: if_splits)
  with put_keeps [OF p(2)] have b2: "take 4 b2 = le32 CMD_RETURN_VAL" "4 \<le> o2" by simp_all
  have "take 4 b3 = le32 CMD_RETURN_VAL"
    if "build_vrrp_ret_get_instx (r_implp r) (r_vid r) (r_intf r) (r_af r) w (b2, o2) = Inr (b3, o3)" for b3 o3
    using build_instx_keeps [OF that b2(2)] b2(1) by simp
  with assms b2(1) p show ?thesis
    by (auto simp: adm_reply_def build_vrrp_ret_def bnd_Inr_iff split: if_splits)
qed

lemma length_stack_bytes [simp]: "length (stack_bytes x n w) = n"
  by (simp add: stack_bytes_def)

lemma recv_msg:
  assumes "length m \<le> BUFSIZE" and "4 \<le> length m"
  shows "\<exists>len rest. adm_recv (Some m) w = (len, m @ rest) \<and> \<not> len < 4 \<and> length (m @ rest) = BUFSIZE + 1"
proof -
  have "length m < 2 ^ 32" using assms(1) by (simp add: BUFSIZE_def)
  then have "unat (of_nat (length m) :: cint) = length m"
    by (simp only: unsigned_of_nat) (simp add: take_bit_nat_eq_self)
  then have "\<not> (of_nat (length m) :: cint) < 4" using assms(2) by (simp add: word_less_nat_alt)
  with assms(1) show ?thesis by (simp add: adm_recv_def poke_def)
qed

text \<open>What the daemon does with a well-formed request, up to the reply.\<close>

lemma adm_command_eq:
  assumes r: "req_ok r"
  shows "\<exists>rest. length (req_msg r @ rest) = BUFSIZE + 1 \<and> adm_command sock (Some (req_msg r)) w =
    bnd (adm_dispatch (req_msg r @ rest) (req_cmd r) (stack_bytes 200000 LIFNAMSIZ w) w) (\<lambda>(x, w).
      adm_reply sock (req_msg r @ rest) (req_cmd r) x w)"
proof -
  have "4 \<le> length (req_msg r)" by (cases r) simp_all
  from recv_msg [OF req_msg_fits [OF r] this, of w] obtain len rest
    where "adm_recv (Some (req_msg r)) w = (len, req_msg r @ rest)" "\<not> len < 4" "length (req_msg r @ rest) = BUFSIZE + 1" by blast
  with parse_msg [OF r, of "stack_bytes 200000 LIFNAMSIZ w" rest] show ?thesis
    by (intro exI [of _ rest]) (simp add: adm_command_def del: length_append)
qed

text \<open>
  C28: From the administrator's command to the daemon and back: whatever a request makes the daemon do,
  and whatever code that has, the reply it sends lets the client report success and print
  the same lines: the arguments of the request, the number of bytes \<open>sendto\<close> took, and that a return value has
  come. None of them depends on the daemon, so no failure of it ever reaches the administrator.
\<close>

theorem failures_stay_hidden:
  assumes "req_ok r" and "adm_command sock (Some (req_msg r)) w = Inr w'" and "connects c"
    and "last (trace w') = EvSendto sock reply"
    and "cl_reply (env c) (calls c @ cmd_calls c (req_msg r)) = Some reply"
  shows "returns (vrrp_all_cmd (req_cmd r) (req_args r @ xs) c) (\<lambda>(ret, c'). ret = VRRP_SUCCESS \<and>
    out c' = out c @ build_says (req_cmd r) (req_args r) @
      [''SENT '' @ dec_str (cl_sendto (env c) (calls c @ [ClSocket, ClBind (cl_socket (env c) (calls c))])) @ '' of '' @
         dec_str (of_nat (length (req_msg r))) @ '' bytes'',
       ''RECEIVED CMD_RETURN_VAL command from vrrpd''])"
proof -
  obtain rest where "adm_command sock (Some (req_msg r)) w =
    bnd (adm_dispatch (req_msg r @ rest) (req_cmd r) (stack_bytes 200000 LIFNAMSIZ w) w) (\<lambda>(x, w).
      adm_reply sock (req_msg r @ rest) (req_cmd r) x w)"
    using adm_command_eq [OF assms(1)] by blast
  with assms(2) obtain x w1 where "adm_reply sock (req_msg r @ rest) (req_cmd r) x w1 = Inr w'"
    by (auto simp: bnd_Inr_iff)
  from reply_bytes [OF this] assms(4) have "reply = le32 CMD_RETURN_VAL @ []" by simp
  with all_cmd_ok [OF assms(3,1), of "[]" xs] assms(5) show ?thesis by (simp add: replied_def req_says_def issue_says_def)
qed

text \<open>The client asks the daemon to start instance 9, which does not exist.\<close>

lemma demo_missing: "returns (adm_command 3 (Some (req_msg (ReqInst CMD_STARTUP_INST 9 [] 2))) demo_one)
    (\<lambda>w'. last (trace w') = EvSendto 3 (le32 0))"
proof -
  let ?r = "ReqInst CMD_STARTUP_INST 9 [] 2"
  have r: "req_ok ?r" by (simp add: has_ids_def fits_name_def)
  obtain rest where e: "adm_command 3 (Some (req_msg ?r)) demo_one =
    bnd (adm_dispatch (req_msg ?r @ rest) (req_cmd ?r) (stack_bytes 200000 LIFNAMSIZ demo_one) demo_one) (\<lambda>(x, w).
      adm_reply 3 (req_msg ?r @ rest) (req_cmd ?r) x w)"
    using adm_command_eq [OF r] by blast
  have il: "inst_list demo_one [1]" using table_demo_one by (simp add: table_def)
  have "vrrp_startup_inst 9 None 2 demo_one = Inr (VRRP_ENOINST, demo_one)"
    by (simp add: vrrp_startup_inst_def search_inst_eq [OF il] search_spec_def the_only_def part_match_def no_name_def)
  moreover have "opt_name (poke 0 [0] (stack_bytes 200000 LIFNAMSIZ demo_one)) = None" by (simp add: opt_name_def poke_def)
  ultimately have d: "adm_dispatch (req_msg ?r @ rest) (req_cmd ?r) (stack_bytes 200000 LIFNAMSIZ demo_one) demo_one =
      Inr (only_ret VRRP_ENOINST, demo_one)"
    using parse_msg [OF r, of "stack_bytes 200000 LIFNAMSIZ demo_one" rest] by (simp add: adm_dispatch_def has_ids_def)
  have "returns (adm_reply 3 (req_msg ?r @ rest) (req_cmd ?r) (only_ret VRRP_ENOINST) demo_one) (\<lambda>_. True)"
    by (simp add: adm_reply_def build_vrrp_ret_def put_def ids_msg_def only_ret_def)
  with d reply_bytes show ?thesis unfolding e by (fastforce elim!: returnsE)
qed

theorem failures_stay_hidden_witness:
  "returns (vrrp_all_cmd CMD_STARTUP_INST [ArgInt 9, ArgStr [], ArgInt 2] (demo_client (Some (le32 0))))
    (\<lambda>(ret, c'). ret = VRRP_SUCCESS \<and> out c' =
      [''vid: 9'', ''intf:'', ''af:2'', ''SENT 20 of 10 bytes'', ''RECEIVED CMD_RETURN_VAL command from vrrpd''])"
proof -
  have r: "req_ok (ReqInst CMD_STARTUP_INST 9 [] 2)" by (simp add: has_ids_def fits_name_def)
  obtain w' where w': "adm_command 3 (Some (req_msg (ReqInst CMD_STARTUP_INST 9 [] 2))) demo_one = Inr w'"
    "last (trace w') = EvSendto 3 (le32 0)" using demo_missing by (auto elim: returnsE)
  from failures_stay_hidden [OF r w'(1) connects_demo w'(2), of "Some (le32 0)" "[]"] show ?thesis
    by (simp add: demo_client_def has_ids_def str_of_def dec_str_def nat_dec.simps ids_msg_def cstr_def char_of_def bit_0)
qed

end
