(* ===== verification/Heard.thy ===== *)
theory Heard
  imports Daemon
begin

text \<open>
  What one daemon sends and another hears: the round trip of an advertisement, the reaction to a farewell,
  and the reaction of the instance an advertisement is for.
\<close>

section \<open>The packet on the other side\<close>

lemma set_flag_simps [simp]:
  "ds_heap (set_flag i x w) = ds_heap w" "vr_heap (set_flag i x w) = vr_heap w" "brk (set_flag i x w) = brk w"
  "os (set_flag i x w) = os w" "trace (set_flag i x w) = trace w" "adv_q (set_flag i x w) = adv_q w"
  "adv_q_lock (set_flag i x w) = adv_q_lock w" "netfds (set_flag i x w) = netfds w"
  "flag (set_flag i x w) = (flag w)(i := x)" "no_oom (set_flag i x w) = no_oom w"
  by (simp_all add: set_flag_def no_oom_def)

lemma set_flag_unit [simp]:
  "unit (set_flag i x w) p a st s = unit w p a st s" "able (set_flag i x w) s = able w s"
  "the_vr (set_flag i x w) p = the_vr w p" "vrec (set_flag i x w) p = vrec w p" "acts (set_flag i x w) = acts w"
  "the_inst (set_flag i x w) p = the_inst w p"
  by (simp_all add: unit_def shaped_def able_def no_oom_def the_vr_def the_inst_def vrec_def acts_def split: qshape.split)

lemma dload_flag [simp]: "dload q (set_flag i x w) = dload q w"
  by (simp add: dload_def split: option.split)

text \<open>What passes the checks of the headers, and the instance that is read.\<close>

definition heard :: "u8 list \<Rightarrow> vrrp_inst \<Rightarrow> bool" where
  "heard buf inst \<longleftrightarrow> ip_version buf = 4 \<and> get8 23 buf = IPPROTO_VRRP \<and> get8 22 buf = VRRP_IP_TTL \<and>
     inst_at [] (drop 34 buf) = inst"

lemma heard_packet:
  assumes "length pkt = 110" and "take 34 pkt = adv_headers r" and "inst_at [] (drop 34 pkt) = inst"
  shows "heard (vrrp_recv_adv4 pkt) inst"
proof -
  have b: "vrrp_recv_adv4 pkt = adv_headers r @ drop 34 pkt @ replicate 3986 0"
  proof -
    have "pkt = adv_headers r @ drop 34 pkt" using assms(2) by (metis append_take_drop_id)
    then show ?thesis using assms(1) by (simp add: vrrp_recv_adv4_def poke_def)
  qed
  have h: "length (adv_headers r) = 34" by simp
  have n: "(adv_headers r @ x) ! 14 = 0x45" "(adv_headers r @ x) ! 22 = 255" "(adv_headers r @ x) ! 23 = 112" for x
    by (simp_all add: adv_headers_def phy_dst_def ip_header_def be16_def le16_def)
  have "inst_at [] (drop 34 (vrrp_recv_adv4 pkt)) = inst"
    using inst_at_append [of "drop 34 pkt" "[]"] assms by (simp add: b)
  moreover have "drop_bit 4 (0x45 :: u8) = 4" by simp
  ultimately show ?thesis by (simp add: heard_def ip_version_def get8_def b n del: append_assoc)
qed

lemma adv_check_heard:
  assumes "heard buf inst"
  shows "vrrp_adv_check buf w = (let w = set_flag (vr_id (vi_vr inst)) 1 w in
    if pri (vi_va inst) = 0 then
      bnd (dload inst_runtime_list w) (\<lambda>l.
      let v_i = ds_next l; w = set_flag (vr_id (vi_vr inst)) 0 w in
      bnd (dload v_i w) (\<lambda>d.
      if state d = VRRP_STATE_BACK then
        bnd (inst_vr v_i w) (\<lambda>_. bnd (vrrp_state_b2m v_i w) (\<lambda>(_, w). Inr (None, w)))
      else Inr (None, w)))
    else adv_instance inst w)"
  using assms by (simp add: vrrp_adv_check_def heard_def Let_def)

text \<open>The instance that \<open>adv_instance\<close> allocates.\<close>

definition carries :: "world \<Rightarrow> nat \<Rightarrow> vrrpd_ds \<Rightarrow> vrrpd_vr_ds \<Rightarrow> bool" where
  "carries u r d v \<longleftrightarrow> (\<exists>e x. ds_heap u r = Some e \<and> inst_vr (Some r) u = Inr x \<and> attr x = attr v \<and>
     vr_id (vr x) = vr_id (vr v) \<and> vr_af (vr x) = vr_af (vr v) \<and> vr_in4 (vr x) = vr_in4 (vr v) \<and>
     cstr (vr_ifname (vr x)) = cstr (vr_ifname (vr v)) \<and> state e = state d \<and> active e = active d)"

lemma sent_name:
  assumes "wf_vr (vr v)" and "length m = 76"
  shows "cstr (vr_ifname (vi_vr (sent_inst [] d v priority m))) = cstr (vr_ifname (vr v))"
    and "length (cstr (vr_ifname (vr v))) < LIFNAMSIZ"
  using assms length_cstr_nul [of "vr_ifname (vr v)"] by (simp_all add: sent_inst_def poke_def wf_vr_def)

lemma adv_instance_ok:
  assumes "no_oom u" and wf: "wf_vr (vr v)" and m: "length m = 76" and p: "priority \<noteq> 0"
  shows "returns (adv_instance (sent_inst [] d v priority m) u) (\<lambda>(q, u'). \<exists>r. q = Some r \<and> carries u' r d v \<and>
    flag u' = flag u \<and> trace u' = trace u)"
proof -
  have "length (cstr (vr_ifname (vi_vr (sent_inst [] d v priority m)))) < length (junk (os u) (brk u) LIFNAMSIZ)"
    using sent_name(1) [OF wf m, of d priority] sent_name(2) [OF wf m] by simp
  from strcpy_ok [OF this] obtain b where b: "strcpy (junk (os u) (brk u) LIFNAMSIZ)
      (vr_ifname (vi_vr (sent_inst [] d v priority m))) = Inr b" "cstr b = cstr (vr_ifname (vr v))"
    using sent_name(1) [OF wf m, of d priority] by auto
  show ?thesis
    using assms(1) b p by (simp add: adv_instance_def carries_def inst_vr_def sent_inst_def)
qed

text \<open>
  C39: An advertisement that one daemon sends is understood by another: the packet that \<open>vrrp_send_adv\<close> writes
  passes the receiver's checks, marks the sender's VRID as heard, and yields an instance with the sender's
  attributes, VRID, family, address, interface name and state.
\<close>

theorem advert_understood:
  assumes "sendable w p d v fd" and "priority \<noteq> 0" and "pri (attr v) \<noteq> 0"
    and "vrrp_send_adv (Some p) priority w = Inr (r, w')" and "last (trace w') = EvWrite sock pkt"
    and "no_oom u"
  shows "returns (vrrp_adv_check (vrrp_recv_adv4 pkt) u) (\<lambda>(q, u'). (\<exists>r. q = Some r \<and> carries u' r d v) \<and>
    flag u' = (flag u)(vr_id (vr v) := 1) \<and> trace u' = trace u)"
proof -
  obtain m where m: "m = junk (os w) (brk w + 2) 76" "length m = 76" by simp
  obtain pkt' where pkt': "length pkt' = 110" "take 34 pkt' = adv_headers (vr v)"
    "inst_at [] (drop 34 pkt') = sent_inst [] d v priority m"
    and w': "w' = w\<lparr>brk := brk w + 3, trace := trace w @ EvSetsockopt (s_send fd) #
         (if setsockopt_ret (os w) (trace w) = 0 then [] else [EvWrite (s_send fd) pkt'])\<rparr>"
    using send_adv_ok [OF assms(1), of priority "[]"] assms(4) unfolding m(1) by auto
  with assms(5) have "pkt = pkt'" by (auto split: if_splits)
  with heard_packet [OF pkt'] have h: "heard (vrrp_recv_adv4 pkt) (sent_inst [] d v priority m)" by simp
  have wf: "wf_vr (vr v)" using assms(1) by (simp add: sendable_def)
  have i: "vr_id (vi_vr (sent_inst [] d v priority m)) = vr_id (vr v)"
    "pri (vi_va (sent_inst [] d v priority m)) \<noteq> 0" using assms(2,3) by (simp_all add: sent_inst_def)
  show ?thesis
    unfolding adv_check_heard [OF h]
    using adv_instance_ok [of "set_flag (vr_id (vr v)) 1 u" v m priority d, OF _ wf m(2)] assms(2,6)
    by (simp add: i Let_def) (auto elim!: returns_mono)
qed

definition demo_sender :: world where
  "demo_sender = demo_world 0 [11 \<mapsto> demo_node 7 1 0 None None] [1 \<mapsto> demo_inst 2 (Some 11) None (Some 0)] None"

lemma sendable_demo: "sendable demo_sender 1 (demo_inst 2 (Some 11) None (Some 0)) (demo_node 7 1 0 None None) demo_fd"
  by (auto simp: demo_sender_def sendable_def wf_vr_def has_nul_def demo_ifname_def no_oom_def)

theorem advert_understood_witness:
  "\<exists>w' pkt. vrrp_send_adv (Some 1) 1 demo_sender = Inr (send_reply demo_sender (s_send demo_fd), w') \<and>
    returns (vrrp_adv_check (vrrp_recv_adv4 pkt) (demo_unit 2 (Some 11))) (\<lambda>(q, u').
      (\<exists>r. q = Some r \<and> carries u' r (demo_inst 2 (Some 11) None (Some 0)) (demo_node 7 1 0 None None)) \<and>
      flag u' = (\<lambda>_. 0)(7 := 1))"
proof -
  obtain w' pkt where w': "vrrp_send_adv (Some 1) 1 demo_sender = Inr (send_reply demo_sender (s_send demo_fd), w')"
    "last (trace w') = EvWrite (s_send demo_fd) pkt"
    using send_adv_ok [OF sendable_demo, of 1 "[]"] by (auto simp: demo_sender_def)
  have "no_oom (demo_unit 2 (Some 11))" using able_demo(1) by (simp add: able_def)
  from advert_understood [OF sendable_demo _ _ w' this] w'(1) show ?thesis
    by (intro exI conjI) (auto simp: demo_unit_def elim!: returns_mono)
qed

section \<open>A farewell\<close>

lemma first_inst:
  assumes "inst_list u ps"
  shows "\<exists>l. dload inst_runtime_list u = Inr l \<and> ds_next l = (case ps of [] \<Rightarrow> None | q # _ \<Rightarrow> Some q)"
proof -
  obtain l where l: "ds_heap u 0 = Some l" "chain ds_next (ds_heap u) (ds_next l) ps" using assms by (rule inst_listE)
  then show ?thesis by (cases ps) (auto simp: inst_runtime_list_def)
qed

lemma farewell_eq:
  assumes h: "heard buf inst" and z: "pri (vi_va inst) = 0" and il: "inst_list u (q # qs)" and un: "unit u q a st s"
  shows "vrrp_adv_check buf u = (if st = VRRP_STATE_BACK
    then bnd (vrrp_state_b2m (Some q) (set_flag (vr_id (vi_vr inst)) 0 u)) (\<lambda>(_, w). Inr (None, w))
    else Inr (None, set_flag (vr_id (vi_vr inst)) 0 u))"
proof -
  let ?i = "vr_id (vi_vr inst)"
  have two: "set_flag ?i 0 (set_flag ?i 1 u) = set_flag ?i 0 u" by (simp add: set_flag_def)
  obtain l where l: "dload inst_runtime_list (set_flag ?i 1 u) = Inr l" "ds_next l = Some q"
    using first_inst [OF il] by auto
  obtain d where d: "dload (Some q) (set_flag ?i 0 u) = Inr d" "state d = st"
    using unit_load(1) [of "set_flag ?i 0 u" q a st s] un by auto
  have "unit (set_flag ?i 0 u) q a st s" using un by simp
  from unit_load(2) [OF this] show ?thesis
    unfolding adv_check_heard [OF h] using l d by (simp add: z Let_def two)
qed

lemma farewell_ok:
  assumes "heard buf inst" and "pri (vi_va inst) = 0" and "inst_list u ps"
  shows "(ps = [] \<longrightarrow> vrrp_adv_check buf u = Inl NullDeref) \<and>
    (\<forall>q qs a s st. ps = q # qs \<longrightarrow> unit u q a st s \<longrightarrow> able u s \<longrightarrow>
      returns (vrrp_adv_check buf u) (\<lambda>(r, u'). r = None \<and> flag u' = (flag u)(vr_id (vi_vr inst) := 0) \<and>
        (if st = VRRP_STATE_BACK
         then unit u' q a VRRP_STATE_MAST (shape_enq (shape_rm s)) \<and> acts u' = acts u @ master_events u q
         else u' = set_flag (vr_id (vi_vr inst)) 0 u)))"
proof (intro conjI impI allI)
  assume "ps = []"
  with first_inst [OF assms(3)] show "vrrp_adv_check buf u = Inl NullDeref"
    unfolding adv_check_heard [OF assms(1)] by (auto simp: assms(2) Let_def inst_runtime_list_def)
next
  fix q qs a s st
  assume ps: "ps = q # qs" and un: "unit u q a st s" and ab: "able u s"
  let ?i = "vr_id (vi_vr inst)"
  note e = farewell_eq [OF assms(1,2) assms(3) [unfolded ps] un]
  have unit': "unit (set_flag ?i 0 u) q a st s" "able (set_flag ?i 0 u) s" using un ab by simp_all
  show "returns (vrrp_adv_check buf u) (\<lambda>(r, u'). r = None \<and> flag u' = (flag u)(?i := 0) \<and>
        (if st = VRRP_STATE_BACK
         then unit u' q a VRRP_STATE_MAST (shape_enq (shape_rm s)) \<and> acts u' = acts u @ master_events u q
         else u' = set_flag ?i 0 u))"
  proof (cases "st = VRRP_STATE_BACK")
    case True
    have "returns (vrrp_state_b2m (Some q) (set_flag ?i 0 u)) (\<lambda>(r, u'). flag u' = (flag u)(?i := 0) \<and>
        unit u' q a VRRP_STATE_MAST (shape_enq (shape_rm s)) \<and> acts u' = acts u @ master_events u q)"
      using b2m_does [OF unit'] by (auto simp: does_def moves_def st_frame_def master_events_def elim!: returns_mono)
    with True show ?thesis unfolding e by (auto elim!: returnsE)
  qed (simp add: e)
qed

text \<open>
  C40: The reaction to an advertisement of priority 0, by which a master says farewell. Whatever its VRID is, the
  first instance of the table takes over if it is a backup; otherwise nothing happens, and with an
  empty table the daemon dereferences NULL. The VRID no longer counts as heard.
\<close>

theorem farewell_heard:
  assumes "heard buf inst" and "pri (vi_va inst) = 0" and "inst_list u ps"
  shows "(ps = [] \<longrightarrow> vrrp_adv_check buf u = Inl NullDeref) \<and>
    (\<forall>q qs a s st. ps = q # qs \<longrightarrow> unit u q a st s \<longrightarrow> able u s \<longrightarrow>
      returns (vrrp_adv_check buf u) (\<lambda>(r, u'). r = None \<and> flag u' = (flag u)(vr_id (vi_vr inst) := 0) \<and>
        (if st = VRRP_STATE_BACK
         then unit u' q a VRRP_STATE_MAST (shape_enq (shape_rm s)) \<and> acts u' = acts u @ master_events u q
         else u' = set_flag (vr_id (vi_vr inst)) 0 u)))"
  using assms by (rule farewell_ok)

theorem farewell_heard_witness:
  "returns (vrrp_adv_check (vrrp_recv_adv4 (adv_headers (demo_vr 9) @ replicate 76 0)) (demo_unit 3 (Some 11)))
     (\<lambda>(r, u'). r = None \<and> unit u' 1 11 VRRP_STATE_MAST QOnly)"
proof -
  let ?p = "adv_headers (demo_vr 9) @ replicate 76 (0 :: u8)"
  have h: "heard (vrrp_recv_adv4 ?p) (inst_at [] (replicate 76 0))" by (rule heard_packet) simp_all
  have i: "pri (vi_va (inst_at [] (replicate 76 (0 :: u8)))) = 0" by (simp add: inst_at_def get8_def)
  have l: "inst_list (demo_unit 3 (Some 11)) [1]"
    by (simp add: inst_list_def demo_unit_def has_vr_def)
  from farewell_heard [OF h i l] unit_demo(2) [of 3] able_demo(1) [of 3 "Some 11" QOnly] show ?thesis
    by (fastforce elim!: returns_mono)
qed

section \<open>The instance an advertisement is for\<close>

text \<open>
  The timer of a queued router is set anew: off the queue, a new timeout, on the queue. With the router
  alone on the queue the alarm is set to that timeout, and to nothing else.
\<close>

lemma inst_vr_the: "has_vr w r \<Longrightarrow> inst_vr (Some r) w = Inr (the_vr w r)"
  by (auto simp: has_vr_def inst_vr_def the_vr_def the_inst_def)

lemma rm_step:
  assumes u: "unit w p a st s"
  obtains w1 where "vrrp_rmqueue_impl (Some a) w = Inr (0, w1)" "moves p a [] st (shape_rm s) w w1" "trace w1 = trace w"
    "\<And>r. has_vr w r \<Longrightarrow> \<exists>rv. inst_vr (Some r) w1 = Inr rv \<and> attr rv = attr (the_vr w r)"
proof -
  from u obtain v where v: "shaped w a v s" "vr_heap w a = Some v" by (auto elim: unitE)
  from rmqueue_shaped [OF v(1)] obtain v' q where e: "vrrp_rmqueue_impl (Some a) w =
      Inr (0, w\<lparr>adv_q := q, vr_heap := (vr_heap w)(a := Some v')\<rparr>)" "vr_core v' = vr_core v"
      "shaped (w\<lparr>adv_q := q, vr_heap := (vr_heap w)(a := Some v')\<rparr>) a v' (shape_rm s)"
    by blast
  let ?w = "w\<lparr>adv_q := q, vr_heap := (vr_heap w)(a := Some v')\<rparr>"
  from unit_vr [OF u v(2) e(2,3)] have m: "moves p a [] st (shape_rm s) w ?w" .
  have "\<exists>rv. inst_vr (Some r) ?w = Inr rv \<and> attr rv = attr (the_vr w r)" if h: "has_vr w r" for r
  proof -
    have f: "st_frame (Some p) w ?w" using m by (simp add: moves_def)
    from st_frame_inst(1) [OF f h] have "inst_vr (Some r) ?w = Inr (the_vr ?w r)" by (rule inst_vr_the)
    with vr_core_fields(1) [OF st_frame_inst(3) [OF f h]] show ?thesis by simp
  qed
  from that [OF e(1) m _ this] show thesis by simp
qed

lemma set_and_enqueue:
  assumes u: "unit w p a st s" and q: "s \<noteq> QEmpty \<Longrightarrow> able w QSelf"
  shows "returns (bnd (vstore (Some a) (\<lambda>e. e\<lparr>timeout := f (attr e)\<rparr>) w) (vrrp_enqueue_impl (Some a)))
    (\<lambda>(x, w'). x = 0 \<and> moves p a [] st (shape_enq s) w w' \<and>
      (s = QEmpty \<longrightarrow> trace w' = trace w @ [EvUalarm (f (attr (the_vr w p)))]))"
proof -
  from u obtain v where v: "shaped w a v s" "vr_heap w a = Some v" "the_vr w p = v" by (auto elim: unitE)
  let ?v = "v\<lparr>timeout := f (attr v)\<rparr>"
  let ?w = "w\<lparr>adv_q := adv_q w, vr_heap := (vr_heap w)(a := Some ?v)\<rparr>"
  have m: "moves p a [] st s w ?w"
    by (rule unit_vr [OF u v(2)]) (use v in \<open>auto simp: shaped_def split: qshape.splits\<close>)
  have "able ?w QSelf" if "s \<noteq> QEmpty" using q [OF that] able_moves [OF m] by simp
  note r = moves_enq [OF moves_unit [OF m] this]
  have t: "ensures (vrrp_enqueue_impl (Some a) ?w)
      (\<lambda>(_, w'). s = QEmpty \<longrightarrow> trace w' = trace w @ [EvUalarm (f (attr v))])"
    using v enqueue_impl_empty [of ?w a ?v] by (cases "s = QEmpty") (simp_all add: shaped_def emit_def ensures_def)
  have "returns (vrrp_enqueue_impl (Some a) ?w) (\<lambda>(x, w'). x = 0 \<and> moves p a [] st (shape_enq s) w w' \<and>
      (s = QEmpty \<longrightarrow> trace w' = trace w @ [EvUalarm (f (attr v))]))"
    by (rule returns_mono [OF returns_ensures [OF r t]]) (use moves_trans [OF m] in auto)
  then show ?thesis using v by (simp add: vstore_def)
qed

lemma retime_moves:
  assumes u: "unit w p a st s" and q: "able w s" and l: "\<not> adv_q_lock w"
    and g: "\<And>w1. vrrp_rmqueue_impl (Some a) (w\<lparr>adv_q_lock := True\<rparr>) = Inr (0, w1) \<Longrightarrow>
      (\<And>r. has_vr w r \<Longrightarrow> \<exists>rv. inst_vr (Some r) w1 = Inr rv \<and> attr rv = attr (the_vr w r)) \<Longrightarrow>
      g (w\<lparr>adv_q_lock := True\<rparr>) = bnd (vstore (Some a) (\<lambda>e. e\<lparr>timeout := f (attr e)\<rparr>) w1) (vrrp_enqueue_impl (Some a))"
  shows "returns (locked g w) (\<lambda>w'. moves p a [] st (shape_enq (shape_rm s)) w w' \<and>
    (s \<noteq> QSelf \<longrightarrow> trace w' = trace w @ [EvUalarm (f (attr (the_vr w p)))]))"
proof -
  let ?w = "w\<lparr>adv_q_lock := True\<rparr>"
  have u': "unit ?w p a st s" using u by simp
  obtain w1 where w1: "vrrp_rmqueue_impl (Some a) ?w = Inr (0, w1)" "moves p a [] st (shape_rm s) ?w w1"
    "trace w1 = trace w" "\<And>r. has_vr ?w r \<Longrightarrow> \<exists>rv. inst_vr (Some r) w1 = Inr rv \<and> attr rv = attr (the_vr ?w r)"
    using rm_step [OF u'] by auto
  have q1: "able w1 QSelf" if "shape_rm s \<noteq> QEmpty" using able_rm [OF q that] able_moves [OF w1(2)] by simp
  have a: "attr (the_vr w1 p) = attr (the_vr w p)" using moves_same(2) [OF w1(2) u'] by simp
  have e: "g ?w = bnd (vstore (Some a) (\<lambda>e. e\<lparr>timeout := f (attr e)\<rparr>) w1) (vrrp_enqueue_impl (Some a))"
    by (rule g [OF w1(1)]) (use w1(4) in \<open>simp add: has_vr_def the_vr_def the_inst_def\<close>)
  have s: "(shape_rm s = QEmpty) = (s \<noteq> QSelf)" by (cases s) simp_all
  from set_and_enqueue [OF moves_unit [OF w1(2)] q1, of f]
  obtain w2 where w2: "g ?w = Inr (0, w2)" "moves p a [] st (shape_enq (shape_rm s)) w1 w2"
    "s \<noteq> QSelf \<longrightarrow> trace w2 = trace w @ [EvUalarm (f (attr (the_vr w p)))]"
    using e a s w1(3) by (auto elim!: returnsE)
  from moves_trans [OF w1(2) w2(2)] have m: "moves p a [] st (shape_enq (shape_rm s)) ?w w2" by simp
  have "returns (locked g w) (moves p a [] st (shape_enq (shape_rm s)) w)"
    by (rule moves_locked [OF l]) (use w2(1) m in simp)
  moreover have "locked g w = Inr (unlock_q w2)" using l w2(1) by (simp add: locked_def lock_q_def)
  ultimately show ?thesis using w2(3) by (simp add: unlock_q_def)
qed

definition waits :: "nat \<Rightarrow> nat \<Rightarrow> qshape \<Rightarrow> u8 \<Rightarrow> u32 \<Rightarrow> world \<Rightarrow> world \<Rightarrow> bool" where
  "waits p a s st t w w' \<longleftrightarrow> moves p a [] st (shape_enq (shape_rm s)) w w' \<and>
     (s \<noteq> QSelf \<longrightarrow> trace w' = trace w @ [EvUalarm t])"

lemma incoming_adv_ok:
  assumes u: "unit w p a st s" and q: "able w s" and l: "\<not> adv_q_lock w" and r: "has_vr w r"
    and at: "x = attr (the_vr w p)" and n: "n = pri (attr (the_vr w r))"
  shows "(st = VRRP_STATE_BACK \<longrightarrow> (if pree_mode x = boolean_FALSE \<or> pri x \<le> n
       then returns (vrrp_process_incoming_adv (Some p) (Some r) w) (waits p a s st (backup_timeout n x) w)
       else vrrp_process_incoming_adv (Some p) (Some r) w = Inr w)) \<and>
    (st = VRRP_STATE_MAST \<longrightarrow> (if n = 0
       then returns (vrrp_process_incoming_adv (Some p) (Some r) w) (waits p a s st (VRRP_SEC2USEC (delay x)) w)
       else if pri x < n then \<exists>t. goes_down t p a (wait_events w p) (wait_state w VRRP_STATE_BACK)
           (wait_shape w (shape_enq (shape_rm s))) w \<and> vrrp_process_incoming_adv (Some p) (Some r) w = map_sum id snd t
       else vrrp_process_incoming_adv (Some p) (Some r) w = Inr w)) \<and>
    (st = VRRP_STATE_INIT \<longrightarrow> vrrp_process_incoming_adv (Some p) (Some r) w = Inr w)"
proof -
  from u obtain d v where h: "ds_heap w p = Some d" "ds_vr d = Some a" "state d = st" "vr_heap w a = Some v"
    "parent v = Some p" "the_vr w p = v"
    by (rule unitE) blast
  have rv: "inst_vr (Some r) w = Inr (the_vr w r)" using r by (rule inst_vr_the)
  let ?again = "\<lambda>w. bnd (vrrp_rmqueue_impl (Some a) w) (\<lambda>(ret, w).
          if ret = VRRP_SUCCESS then
            bnd (inst_vr (Some r) w) (\<lambda>rv.
            bnd (vstore (Some a) (\<lambda>e. e\<lparr>timeout := backup_timeout (pri (attr rv)) (attr e)\<rparr>) w) (\<lambda>w.
            vrrp_enqueue_impl (Some a) w))
          else Inr (0, w))"
  let ?mast = "\<lambda>w. bnd (vrrp_rmqueue_impl (Some a) w) (\<lambda>(_, w).
          bnd (vstore (Some a) (\<lambda>e. e\<lparr>timeout := VRRP_SEC2USEC (delay (attr e))\<rparr>) w) (\<lambda>w.
          vrrp_enqueue_impl (Some a) w))"
  have e: "vrrp_process_incoming_adv (Some p) (Some r) w =
      (if st = VRRP_STATE_BACK then if pree_mode x = boolean_FALSE \<or> pri x \<le> n then locked ?again w else Inr w
       else if st = VRRP_STATE_MAST then
         if n = 0 then locked ?mast w else if pri x < n then map_sum id snd (vrrp_state_m2b (Some p) w) else Inr w
       else Inr w)" if "st < 4"
    using that h rv by (simp add: vrrp_process_incoming_adv_def stat_name_def n at Let_def cong del: if_weak_cong)
  have bk: "returns (locked ?again w) (waits p a s st (backup_timeout n x) w)"
    unfolding waits_def at
    by (rule retime_moves [OF u q l]) (use r n in fastforce)
  have mast: "returns (locked ?mast w) (waits p a s st (VRRP_SEC2USEC (delay x)) w)"
    unfolding waits_def at by (rule retime_moves [OF u q l, of _ "\<lambda>x. VRRP_SEC2USEC (delay x)"]) simp
  show ?thesis
    using e bk mast m2b_does [OF u q l] by auto
qed

text \<open>
  C3: The reaction of an instance to an advertisement for it with priority \<open>n\<close>. A backup that does not
  preempt, or whose own priority is no higher, waits again for its timeout: the skew, and three intervals if
  \<open>n\<close> is not 0. A backup with a higher priority ignores it. A master waits one interval if \<open>n\<close> is 0. It gives way if
  \<open>n\<close> is higher than its own priority: it makes its last advertisement and stops its router process, and takes over
  again if it then hears no VRID for an interval. Otherwise it ignores the advertisement, also one of the same
  priority, for which the comment in that branch (vrrpd.c:709) has it give way too. An instance that is not started
  ignores it.
\<close>

theorem incoming_adv_spec:
  assumes u: "unit w p a st s" and q: "able w s" and l: "\<not> adv_q_lock w" and r: "has_vr w r"
    and at: "x = attr (the_vr w p)" and n: "n = pri (attr (the_vr w r))"
  shows "(st = VRRP_STATE_BACK \<longrightarrow> (if pree_mode x = boolean_FALSE \<or> pri x \<le> n
       then returns (vrrp_process_incoming_adv (Some p) (Some r) w) (waits p a s st (backup_timeout n x) w)
       else vrrp_process_incoming_adv (Some p) (Some r) w = Inr w)) \<and>
    (st = VRRP_STATE_MAST \<longrightarrow> (if n = 0
       then returns (vrrp_process_incoming_adv (Some p) (Some r) w) (waits p a s st (VRRP_SEC2USEC (delay x)) w)
       else if pri x < n then \<exists>t. goes_down t p a (wait_events w p) (wait_state w VRRP_STATE_BACK)
           (wait_shape w (shape_enq (shape_rm s))) w \<and> vrrp_process_incoming_adv (Some p) (Some r) w = map_sum id snd t
       else vrrp_process_incoming_adv (Some p) (Some r) w = Inr w)) \<and>
    (st = VRRP_STATE_INIT \<longrightarrow> vrrp_process_incoming_adv (Some p) (Some r) w = Inr w)"
  using assms by (rule incoming_adv_ok)

theorem incoming_adv_spec_witness:
  "returns (vrrp_process_incoming_adv (Some 1) (Some 1) (demo_unit 3 (Some 11)))
     (waits 1 11 QOnly 3 (backup_timeout 100 (demo_attr 100)) (demo_unit 3 (Some 11)))"
proof -
  have "has_vr (demo_unit 3 (Some 11)) 1" by (simp add: has_vr_def demo_unit_def)
  from incoming_adv_spec [OF unit_demo(2) able_demo this refl refl] show ?thesis by (simp add: demo_node_def demo_attr_def)
qed

end
