(* ===== verification/Reach.thy ===== *)
theory Reach
  imports Heard
begin

text \<open>
  A daemon with one instance, through any sequence of alarms, packets and requests, as long as no instance is
  created or removed: the handlers as the rules of a step relation, and an invariant of what is reached.
\<close>

section \<open>The steps\<close>

text \<open>
  The handlers of the daemon's events. A request on the Unix socket is carried out and answered, whatever bytes it
  has, and then the status is displayed; these are two steps, because the display changes nothing but may crash
  (\<open>display_overruns\<close>), so that more states are reached than without the crash. \<open>keeps_table\<close>: the message is ignored,
  or its command word is not that of creating or removing an instance. Removing one that is not there crashes the
  daemon (\<open>destroy_missing_crashes\<close>), and removing one that is no master signals a process that was not started
  (\<open>destroy_backup_spec\<close>).
\<close>

datatype action =
    Alarm
  | Packet "u8 list" cint "u8 list"
  | Command cint "u8 list option"
  | Display

definition keeps_table :: "u8 list option \<Rightarrow> world \<Rightarrow> bool" where
  "keeps_table msg w \<longleftrightarrow> (let (len, buf) = adm_recv msg w in
     len < 4 \<or> get_vrrp_cmd buf \<noteq> Inr CMD_CREATE_INST \<and> get_vrrp_cmd buf \<noteq> Inr CMD_REMOVE_INST)"

inductive step :: "action \<Rightarrow> world \<Rightarrow> world \<Rightarrow> bool" where
  alarm: "signal_alarm w = Inr w' \<Longrightarrow> step Alarm w w'"
| packet: "process_vrrpd_sock pkt af ifname w = Inr w' \<Longrightarrow> step (Packet pkt af ifname) w w'"
| command: "adm_command sock msg w = Inr w' \<Longrightarrow> keeps_table msg w \<Longrightarrow> step (Command sock msg) w w'"
| display: "display_vrrp_instx inst_runtime_list w = Inr lines \<Longrightarrow> step Display w w"

inductive_cases stepE: "step x w w'"
inductive_simps step_simps [simp]:
  "step Alarm w w'" "step (Packet pkt af ifname) w w'" "step (Command sock msg) w w'" "step Display w w'"

inductive reach :: "world \<Rightarrow> world \<Rightarrow> bool" where
  start: "reach w w"
| go: "reach w0 w \<Longrightarrow> step x w w' \<Longrightarrow> reach w0 w'"

lemma reach_step: "step x w w' \<Longrightarrow> reach w w'"
  using reach.go [OF reach.start] .

text \<open>A round of the daemon's main loop, whatever \<open>poll\<close> reports and whatever then arrives, is made of these steps.\<close>

lemma adm_sock_reach:
  assumes "process_adm_sock sock msg w = Inr w'" and "keeps_table msg w"
  shows "reach w w'"
proof (cases "fst (adm_recv msg w) < 4")
  case True
  with assms(1) reach.start show ?thesis by (simp add: process_adm_sock_def)
next
  case False
  with assms(1) obtain lines where e: "adm_command sock msg w = Inr w'" "display_vrrp_instx inst_runtime_list w' = Inr lines"
    by (auto simp: process_adm_sock_def bnd_Inr_iff)
  from reach.go [OF reach_step [OF step.command [OF e(1) assms(2)]] step.display [OF e(2)]] show ?thesis .
qed

lemma round_reach:
  assumes "adm_thread_round admsock answer data w = Inr w'" and "keeps_table data w"
  shows "reach w w'"
proof (cases "w' = w")
  case False
  with assms(1) obtain i where "process_adm_sock admsock data w = Inr w' \<or>
      process_vrrpd_sock (case data of None \<Rightarrow> [] | Some d \<Rightarrow> d) (poll_afs w ! i) (poll_intfs w ! i) w = Inr w'"
    by (auto simp: adm_thread_round_def split: poll_answer.splits option.splits if_splits)
  then show ?thesis
    using adm_sock_reach [OF _ assms(2)] reach_step [OF step.packet] by blast
qed (simp add: reach.start)

text \<open>
  What the daemon is sure to handle: the alarm; a packet whose interface name ends within its 32 bytes (the daemon
  copies the name without a bound); and a well-formed request that does not create or remove an instance. The reply
  to a question for the instance copies its addresses, which must be there.
\<close>

definition all_ips :: "world \<Rightarrow> nat \<Rightarrow> bool" where
  "all_ips w p \<longleftrightarrow> length (vr_ip (vrec w p)) = unat (vr_ipnum (vrec w p)) * 4"

fun handled :: "action \<Rightarrow> world \<Rightarrow> nat \<Rightarrow> bool" where
  "handled Alarm w p \<longleftrightarrow> True"
| "handled (Packet pkt _ _) w p \<longleftrightarrow>
     length (cstr (vr_ifname (vi_vr (inst_at [] (drop 34 (vrrp_recv_adv4 pkt)))))) < LIFNAMSIZ"
| "handled (Command _ msg) w p \<longleftrightarrow> (\<exists>r. msg = Some (req_msg r) \<and> req_ok r \<and>
     req_cmd r \<noteq> CMD_CREATE_INST \<and> req_cmd r \<noteq> CMD_REMOVE_INST \<and> (req_cmd r = CMD_GET_INSTX \<longrightarrow> all_ips w p))"
| "handled Display w p \<longleftrightarrow> False"

section \<open>The invariant\<close>

text \<open>Router processes started less those interrupted.\<close>

fun delta :: "event \<Rightarrow> int" where
  "delta (EvFork _ _) = 1"
| "delta (EvKill _ _) = -1"
| "delta _ = 0"

definition net :: "event list \<Rightarrow> int" where
  "net es = sum_list (map delta es)"

definition up :: "u8 \<Rightarrow> int" where
  "up st = (if st = VRRP_STATE_MAST then 1 else 0)"

definition queued :: "u8 \<Rightarrow> qshape \<Rightarrow> bool" where
  "queued st s \<longleftrightarrow> st = VRRP_STATE_INIT \<or> (st = VRRP_STATE_MAST \<or> st = VRRP_STATE_BACK) \<and> s \<noteq> QEmpty"

definition lone :: "world \<Rightarrow> nat \<Rightarrow> nat \<Rightarrow> u8 \<Rightarrow> qshape \<Rightarrow> bool" where
  "lone w p a st s \<longleftrightarrow> unit w p a st s \<and> table w [p] \<and> able w QSelf \<and> \<not> adv_q_lock w"

definition live :: "world \<Rightarrow> nat \<Rightarrow> nat \<Rightarrow> bool" where
  "live w p a \<longleftrightarrow> (\<exists>st s. lone w p a st s \<and> queued st s \<and> net (acts w) = up st)"

lemma net_simps [simp]:
  "net [] = 0" "net (e # es) = delta e + net es" "net (es @ fs) = net es + net fs"
  by (simp_all add: net_def)

lemma net_events [simp]:
  "net (master_events w p) = 1" "net (wait_events w p) = up (wait_state w 3)"
  "net (stop_events sys t raw pkt n) = -1" "net (adv_events sys t raw pkt) = 0"
  by (simp_all add: master_events_def fork_event_def wait_events_def wait_state_def up_def stop_events_def adv_events_def)

lemma net_calls: "quits w p es w' \<Longrightarrow> net es = -1" "advertised w p es w' \<Longrightarrow> net es = 0"
  by (auto simp: quits_def advertised_def)

lemma shape_enq_ne [simp]: "shape_enq s \<noteq> QEmpty"
  by (cases s) simp_all

lemma queued_simps [simp]:
  "queued 1 s" "queued 2 s = (s \<noteq> QEmpty)" "queued 3 s = (s \<noteq> QEmpty)" "up 1 = 0" "up 2 = 1" "up 3 = 0"
  by (simp_all add: queued_def up_def)

lemma wait_queued [simp]: "s \<noteq> QEmpty \<Longrightarrow> queued (wait_state w 3) (wait_shape w s)"
  by (simp add: wait_state_def wait_shape_def)

lemma queuedE:
  assumes "queued st s"
  obtains "st = VRRP_STATE_INIT" | "st = VRRP_STATE_MAST" "s \<noteq> QEmpty" | "st = VRRP_STATE_BACK" "s \<noteq> QEmpty"
  using assms by (auto simp: queued_def)

lemma lone_fires:
  assumes "lone w p a st0 s0" and "fires p a es st s w w'"
  shows "lone w' p a st s" and "acts w' = acts w @ es"
  using assms by (auto simp: lone_def fires_def steady_def able_def no_oom_def)

lemma lone_moves:
  assumes "lone w p a st0 s0" and "moves p a es st s w w'"
  shows "lone w' p a st s" and "acts w' = acts w @ es"
  using lone_fires [OF assms(1) moves_fires [OF assms(2)]] assms(1) by (auto simp: lone_def)

lemma live_fires:
  assumes "lone w p a st0 s0" and "net (acts w) = up st0" and "fires p a es st s w w'"
    and "queued st s" and "net es = up st - up st0"
  shows "live w' p a"
  using lone_fires [OF assms(1,3)] assms(2,4,5) by (auto simp: live_def intro!: exI [of _ st] exI [of _ s])

lemma live_moves:
  assumes "lone w p a st0 s0" and "net (acts w) = up st0" and "moves p a es st s w w'"
    and "queued st s" and "net es = up st - up st0"
  shows "live w' p a"
proof -
  have "unit w p a st0 s0" using assms(1) by (simp add: lone_def)
  from live_fires [OF assms(1,2) moves_fires [OF assms(3) this] assms(4,5)] show ?thesis .
qed

lemma live_does:
  assumes "lone w p a st0 s0" and "net (acts w) = up st0" and "does r p a x es st s w"
    and "queued st s" and "net es = up st - up st0"
  shows "returns r (\<lambda>(_, w'). live w' p a)"
  using assms(3) by (auto simp: does_def elim!: returns_mono intro: live_moves [OF assms(1,2) _ assms(4,5)])

lemma live_down:
  assumes "lone w p a VRRP_STATE_MAST s0" and "net (acts w) = 1" and "goes_down r p a fin st s w"
    and "queued st s" and "net fin = up st"
  shows "returns r (\<lambda>(_, w'). live w' p a)"
  using assms(3) unfolding goes_down_def
  by (rule returns_mono) (use assms in \<open>auto simp: net_calls intro!: live_moves [OF assms(1) _ _ assms(4)]\<close>)

lemma lone_rules:
  assumes "lone w p a st s"
  shows "unit w p a st s" "able w t" "\<not> adv_q_lock w" "table w [p]" "inst_list w [p]" "no_oom w" "fresh_above w"
  using assms by (auto simp: lone_def table_def able_def)

section \<open>Alarms\<close>

lemma alarm_idle:
  assumes "adv_q w = None" and "\<not> adv_q_lock w"
  shows "signal_alarm w = Inr w"
  using assms by (simp add: signal_alarm_def lock_q_def unlock_q_def) (subst loop_unfold, simp add: vrrp_dequeue_def)

lemma alarm_init:
  assumes u: "unit w p a VRRP_STATE_INIT s" and ne: "s \<noteq> QEmpty" and l: "\<not> adv_q_lock w"
  shows "returns (signal_alarm w) (fires p a [] VRRP_STATE_INIT (shape_rm s) w)"
proof -
  from alarm_dequeues [OF u ne l] obtain w1 where w1: "signal_alarm w = bnd (serve (Some a) None w1) (\<lambda>w. Inr (unlock_q w))"
    "moves p a [] VRRP_STATE_INIT (shape_rm s) (w\<lparr>adv_q_lock := True\<rparr>) w1" by blast
  from moves_unit [OF w1(2)] have "serve (Some a) None w1 = Inr w1"
    by (rule unitE) (simp add: serve_def)
  moreover have "unit (w\<lparr>adv_q_lock := True\<rparr>) p a VRRP_STATE_INIT s" using u by simp
  from fires_unlock [OF moves_fires [OF w1(2) this] l] have "fires p a [] VRRP_STATE_INIT (shape_rm s) w (unlock_q w1)" .
  ultimately show ?thesis by (simp add: w1(1))
qed

lemma alarm_backup:
  assumes u: "unit w p a VRRP_STATE_BACK s" and ne: "s \<noteq> QEmpty" and q: "able w QSelf" and l: "\<not> adv_q_lock w"
  shows "returns (signal_alarm w) (fires p a (master_events w p @ [EvAlarm (delay (attr (the_vr w p)))]) VRRP_STATE_MAST QSelf w)"
proof -
  let ?w = "w\<lparr>adv_q_lock := True\<rparr>" and ?e = "EvAlarm (delay (attr (the_vr w p)))"
  from alarm_dequeues [OF u ne l] obtain w1 where w1: "signal_alarm w = bnd (serve (Some a) None w1) (\<lambda>w. Inr (unlock_q w))"
    "moves p a [] VRRP_STATE_BACK (shape_rm s) ?w w1" by blast
  have u0: "unit ?w p a VRRP_STATE_BACK s" using u by simp
  note u1 = moves_unit [OF w1(2)] and same = moves_same [OF w1(2) u0]
  have q1: "able w1 t" for t using q able_moves [OF w1(2), of QSelf] by (simp add: able_loose)
  from u1 have "serve (Some a) None w1 = bnd (vrrp_state_b2m (Some p) w1) (\<lambda>(_, w). rearm (Some a) None w)"
    by (rule unitE) (simp add: serve_def)
  moreover have "does (bnd (vrrp_state_b2m (Some p) w1) (\<lambda>(_, w). bnd (rearm (Some a) None w) (\<lambda>w. Inr ((), w)))) p a ()
      (master_events w1 p @ [?e]) VRRP_STATE_MAST QSelf w1"
  proof (rule does_bnd [OF b2m_does [OF u1 q1]], clarify)
    fix w2 assume m: "moves p a (master_events w1 p) VRRP_STATE_MAST (shape_enq (shape_rm (shape_rm s))) w1 w2"
      and u2: "unit w2 p a VRRP_STATE_MAST (shape_enq (shape_rm (shape_rm s)))"
    have "shape_enq (shape_rm (shape_rm s)) = QOnly" using ne by (cases s) simp_all
    with rearm_moves [OF u2] moves_same(2) [OF m u1] same q1 able_moves [OF m]
    show "does (bnd (rearm (Some a) None w2) (\<lambda>w. Inr ((), w))) p a () [?e] VRRP_STATE_MAST QSelf w2"
      by (intro does_retw) simp
  qed
  moreover have "master_events w1 p = master_events w p" using same by (simp add: master_events_def)
  ultimately obtain w2 where w2: "serve (Some a) None w1 = Inr w2"
    "moves p a (master_events w p @ [?e]) VRRP_STATE_MAST QSelf w1 w2"
    by (auto simp: does_def returns_def bnd_Inr_iff)
  have "fires p a (master_events w p @ [?e]) VRRP_STATE_MAST QSelf ?w w2"
    using moves_fires [OF moves_trans [OF w1(2) w2(2)] u0] by simp
  from fires_unlock [OF this l] w2(1) show ?thesis by (simp add: w1(1))
qed

lemma alarm_live:
  assumes lo: "lone w p a st s" and st: "queued st s" and n: "net (acts w) = up st"
  shows "returns (signal_alarm w) (\<lambda>w'. live w' p a)"
  using st
proof (cases rule: queuedE)
  case 1
  show ?thesis
  proof (cases "s = QEmpty")
    case True
    with lone_rules(1,3) [OF lo] alarm_idle [of w] lo st n show ?thesis
      by (auto simp: unit_def shaped_def live_def intro!: exI [of _ st] exI [of _ s])
  next
    case False
    with alarm_init [of w p a s] lone_rules(1,3) [OF lo] 1 show ?thesis
      by (auto elim!: returns_mono intro: live_fires [OF lo n])
  qed
next
  case 2
  then have s: "s = QOnly \<or> s = QSelf \<and> able w QSelf" using lone_rules(2) [OF lo] by (cases s) auto
  have "unit w p a VRRP_STATE_MAST s" using lone_rules(1) [OF lo] 2(1) by simp
  from alarm_master_ok [OF this s lone_rules(6,7,3) [OF lo]] 2 show ?thesis
    by (auto simp: net_calls elim!: returns_mono intro!: live_fires [OF lo n])
next
  case 3
  have "unit w p a VRRP_STATE_BACK s" using lone_rules(1) [OF lo] 3(1) by simp
  from alarm_backup [OF this 3(2) lone_rules(2,3) [OF lo]] 3 show ?thesis
    by (auto elim!: returns_mono intro: live_fires [OF lo n])
qed

section \<open>Requests\<close>

lemma lone_state:
  assumes "lone w p a st s"
  shows "\<exists>d. dload (Some p) w = Inr d \<and> state d = st"
  using unit_load(1) [OF lone_rules(1) [OF assms]] by blast

lemma lone_search:
  assumes "lone w p a st s"
  shows "vrrp_search_inst i nm af w = Inr None \<or> vrrp_search_inst i nm af w = Inr (Some p)"
  using search_inst_eq [OF lone_rules(5) [OF assms], of i nm af] search_spec_member [of i nm af w "[p]"]
  by (cases "search_spec i nm af w [p]") auto

lemma startup_live:
  assumes lo: "lone w p a st s" and st: "queued st s" and n: "net (acts w) = up st"
  shows "returns (vrrp_startup_inst i nm af w) (\<lambda>(_, w'). live w' p a)"
proof -
  obtain d where d: "dload (Some p) w = Inr d" "state d = st" using lone_state [OF lo] by blast
  have stay: "live w p a" using assms by (auto simp: live_def)
  have st4: "st < 4" using st by (auto simp: queued_def)
  have "returns (vrrp_state_i2b (Some p) w) (\<lambda>(_, w'). live w' p a)" if "st = VRRP_STATE_INIT"
    by (rule live_does [OF lo n i2b_does [OF lone_rules(1,2,3) [OF lo]]]) (use that in simp_all)
  with lone_search [OF lo, of i nm af] d stay st4 show ?thesis
    by (auto simp: vrrp_startup_inst_def stat_name_def)
qed

lemma shutdown_live:
  assumes lo: "lone w p a st s" and st: "queued st s" and n: "net (acts w) = up st"
  shows "returns (vrrp_shutdown_inst i nm af w) (\<lambda>(_, w'). live w' p a)"
proof -
  obtain d where d: "dload (Some p) w = Inr d" "state d = st" using lone_state [OF lo] by blast
  have stay: "live w p a" using assms by (auto simp: live_def)
  have "returns (vrrp_state_m2i (Some p) w) (\<lambda>(_, w'). live w' p a)" if m: "st = VRRP_STATE_MAST"
    by (rule live_down [OF _ _ m2i_does [OF lone_rules(1,2,3) [OF lo]]]) (use lo n m in simp_all)
  moreover have "returns (vrrp_state_b2i (Some p) w) (\<lambda>(_, w'). live w' p a)" if "st = VRRP_STATE_BACK"
    by (rule live_does [OF lo n b2i_does [OF lone_rules(1,3) [OF lo]]]) (use that in simp_all)
  ultimately show ?thesis
    using lone_search [OF lo, of i nm af] d stay by (auto simp: vrrp_shutdown_inst_def)
qed

section \<open>Changes of the attributes\<close>

text \<open>A store to the attributes is invisible to the table and to the queue.\<close>

lemma attr_lone:
  assumes lo: "lone w p a st s" and v: "vr_heap w a = Some v"
  shows "lone (w\<lparr>vr_heap := (vr_heap w)(a := Some (v\<lparr>attr := x\<rparr>))\<rparr>) p a st s" (is "lone ?w p a st s")
proof -
  let ?v = "v\<lparr>attr := x\<rparr>"
  obtain d where h: "ds_heap w p = Some d" "ds_vr d = Some a" and u: "state d = st" "shaped w a v s" "vr_next v = None"
      "parent v = Some p" "wf_vr (vr v)" "\<exists>i. vfd v = Some i \<and> i < length (netfds w)"
    using lone_rules(1) [OF lo] v by (fastforce simp: unit_def shaped_def)
  have "shaped ?w a ?v s" using u(2) by (cases s) (simp_all add: shaped_def)
  with h u have "unit ?w p a st s" by (auto simp: unit_def intro!: exI [of _ ?v])
  moreover have "own_vr ?w p" using h u by (simp add: own_vr_def vrec_def the_vr_def the_inst_def)
  moreover have "fresh_above ?w" using lone_rules(7) [OF lo] v by (auto simp: fresh_above_def)
  ultimately have "unit ?w p a st s" "table ?w [p]"
    using search_attr(1) [OF lone_rules(5) [OF lo] v, of ?v] by (simp_all add: table_def)
  then show ?thesis using lo by (simp add: lone_def able_def no_oom_def)
qed

lemma attr_step:
  assumes "lone w p a st s" and "\<And>v. f v = v\<lparr>attr := g v\<rparr>"
  shows "returns (inst_vstore (Some p) f w) (\<lambda>w'. lone w' p a st s \<and> acts w' = acts w)"
proof -
  obtain d v where "ds_heap w p = Some d" "ds_vr d = Some a" "vr_heap w a = Some v"
    using lone_rules(1) [OF assms(1)] by (rule unitE) blast
  with attr_lone [OF assms(1)] assms(2) show ?thesis by (simp add: inst_vstore_eq acts_def)
qed

text \<open>
  The instance is looked up once more, by name, when it is taken off the queue and when it is put back; if it is
  found the first time it is self-linked, and stays so or is alone on the queue.
\<close>

lemma search_one:
  assumes "table w [p]" and "unit w p a st s"
  shows "vrrp_search_vr i nm af w = Inr None \<or> vrrp_search_vr i nm af w = Inr (Some a)"
proof -
  have "ds_vr (the_inst w p) = Some a" using assms(2) by (rule unitE) (simp add: the_inst_def)
  then show ?thesis
    using search_vr_eq [of w "[p]" i nm af] search_spec_member [of i nm af w "[p]"] assms(1)
    by (cases "search_spec i nm af w [p]") (auto simp: table_def)
qed


lemma moves_then_ok:
  "returns r (\<lambda>(x, w'). x = 0 \<and> moves p a es st s w w') \<Longrightarrow>
    returns (bnd r (\<lambda>(_, w). Inr (VRRP_SUCCESS, w))) (\<lambda>(_, w'). \<exists>s'. (s' = s0 \<or> s' = s) \<and> moves p a es st s' w w')"
  by (auto simp: returns_def)

lemma enqueue_moves:
  assumes t: "table w [p]" and u: "unit w p a st s" and q: "able w QSelf"
  shows "returns (vrrp_enqueue i nm af w) (\<lambda>(_, w'). \<exists>s'. (s' = s \<or> s' = shape_enq s) \<and> moves p a [] st s' w w')"
    (is "returns _ ?Q")
proof -
  from u obtain d v where h: "ds_heap w p = Some d" "ds_vr d = Some a" "state d = st" "vr_heap w a = Some v" "parent v = Some p"
    by (rule unitE) blast
  let ?put = "\<lambda>w. bnd (vrrp_enqueue_impl (Some a) w) (\<lambda>(_, w). Inr (VRRP_SUCCESS, w))"
  have timed: "returns (bnd (vstore (Some a) (\<lambda>e. e\<lparr>timeout := x\<rparr>) w) ?put) ?Q" for x
    using moves_then_ok [OF returns_mono [OF set_and_enqueue [OF u q, of "\<lambda>_. x"]]] by (fastforce simp: bnd_assoc)
  have put: "returns (?put w) ?Q"
    by (rule moves_then_ok [OF moves_enq [OF u q]])
  have "vrrp_enqueue i nm af w = (if \<not> queue_args_ok i af then Inr (EINVAL, w)
      else if vrrp_search_vr i nm af w = Inr None then Inr (-1, w)
      else if st = VRRP_STATE_MAST then bnd (vstore (Some a) (\<lambda>e. e\<lparr>timeout := VRRP_SEC2USEC (delay (attr v))\<rparr>) w) ?put
      else if st = VRRP_STATE_BACK then bnd (vstore (Some a) (\<lambda>e. e\<lparr>timeout := master_down (attr v)\<rparr>) w) ?put
      else ?put w)"
    using search_one [OF t u, of i nm af] h by (auto simp: vrrp_enqueue_def)
  with timed put moves_refl [OF u] show ?thesis by auto
qed

text \<open>Off the queue and back on it: only a self-linked router is taken off, and it leaves itself behind.\<close>

lemma requeue_by_name:
  assumes t: "table w [p]" and u: "unit w p a st s" and q: "able w QSelf"
  shows "returns (bnd (vrrp_rmqueue i nm af w) (\<lambda>(r, w). if r = VRRP_SUCCESS then map_sum id snd (vrrp_enqueue i nm af w) else Inr w))
    (\<lambda>w'. \<exists>s'. (s' = QEmpty \<longrightarrow> s = QEmpty) \<and> moves p a [] st s' w w')" (is "returns _ ?Q")
proof -
  have stay: "?Q w" using moves_refl [OF u] by blast
  obtain v where v: "shaped w a v s" "vr_heap w a = Some v" using u by (auto elim: unitE)
  show ?thesis
  proof (cases "queue_args_ok i af \<and> vrrp_search_vr i nm af w = Inr (Some a) \<and> s = QSelf")
    case False
    then have "\<exists>r. r \<noteq> 0 \<and> vrrp_rmqueue i nm af w = Inr (r, w)"
      using search_one [OF t u, of i nm af] v by (cases s) (auto simp: vrrp_rmqueue_def shaped_def EINVAL_def)
    with stay show ?thesis by auto
  next
    case True
    then have "vrrp_rmqueue i nm af w = vrrp_rmqueue_impl (Some a) w"
      using v by (simp add: vrrp_rmqueue_def shaped_def)
    with rm_step [OF u] True obtain w1 where e: "vrrp_rmqueue i nm af w = Inr (0, w1)" and m: "moves p a [] st QOnly w w1"
      by (metis shape_rm.simps(1))
    have "able w1 QSelf" using q able_moves [OF m] by simp
    from enqueue_moves [OF moves_table(1) [OF m t] moves_unit [OF m] this, of i nm af] moves_trans [OF m] e show ?thesis
      by (fastforce simp: returns_map_sum elim!: returns_mono)
  qed
qed


lemma table_lock [simp]: "table (w\<lparr>adv_q_lock := b\<rparr>) ps = table w ps"
  by (simp add: table_def inst_list_def has_vr_def own_vr_def fresh_above_def vrec_def the_vr_def the_inst_def)

definition still :: "world \<Rightarrow> nat \<Rightarrow> nat \<Rightarrow> u8 \<Rightarrow> world \<Rightarrow> bool" where
  "still w p a st w' \<longleftrightarrow> (\<exists>s'. lone w' p a st s' \<and> queued st s') \<and> acts w' = acts w"

lemma attr_still:
  assumes "still w0 p a st w" and "\<And>v. f v = v\<lparr>attr := g v\<rparr>"
  shows "returns (inst_vstore (Some p) f w) (still w0 p a st)"
proof -
  from assms(1) obtain s where "lone w p a st s" "queued st s" "acts w = acts w0" by (auto simp: still_def)
  with attr_step [OF this(1) assms(2)] show ?thesis by (auto simp: still_def elim!: returns_mono)
qed

lemma delay_still:
  assumes "still w0 p a st w"
  shows "returns (set_delay (Some p) i nm af dl w) (still w0 p a st)"
  unfolding set_delay_def
proof (rule returns_bndI [OF attr_still [OF assms]])
  show "v\<lparr>attr := (attr v)\<lparr>delay := dl\<rparr>\<rparr> = v\<lparr>attr := (attr v)\<lparr>delay := dl\<rparr>\<rparr>" for v ..
  fix w1 assume "still w0 p a st w1"
  then obtain s where lo: "lone w1 p a st s" and st: "queued st s" and ac: "acts w1 = acts w0" by (auto simp: still_def)
  let ?w = "w1\<lparr>adv_q_lock := True\<rparr>"
  let ?body = "\<lambda>w. bnd (vrrp_rmqueue i nm af w) (\<lambda>(r, w).
      if r = VRRP_SUCCESS then map_sum id snd (vrrp_enqueue i nm af w) else Inr w)"
  have u: "unit ?w p a st s" using lone_rules(1) [OF lo] by simp
  have "returns (?body ?w) (\<lambda>w2. still w0 p a st (unlock_q w2))"
  proof (rule returns_mono [OF requeue_by_name [OF _ u]])
    fix w2 assume "\<exists>s'. (s' = QEmpty \<longrightarrow> s = QEmpty) \<and> moves p a [] st s' ?w w2"
    then obtain s' where s': "s' = QEmpty \<longrightarrow> s = QEmpty" and m: "moves p a [] st s' ?w w2" by blast
    from lone_fires [OF lo fires_unlock [OF moves_fires [OF m u] lone_rules(3) [OF lo]]] s' st ac
    show "still w0 p a st (unlock_q w2)" by (auto simp: still_def queued_def)
  qed (use lone_rules [OF lo] in simp_all)
  moreover have "bnd (lock_q w1) (\<lambda>w. bnd (vrrp_rmqueue i nm af w) (\<lambda>(r, w).
      bnd (if r = VRRP_SUCCESS then map_sum id snd (vrrp_enqueue i nm af w) else Inr w) (\<lambda>w. Inr (unlock_q w)))) =
    bnd (?body ?w) (\<lambda>w. Inr (unlock_q w))"
    using lone_rules(3) [OF lo] by (simp add: lock_q_def bnd_assoc case_prod_unfold)
  ultimately show "returns (bnd (lock_q w1) (\<lambda>w. bnd (vrrp_rmqueue i nm af w) (\<lambda>(r, w).
      bnd (if r = VRRP_SUCCESS then map_sum id snd (vrrp_enqueue i nm af w) else Inr w) (\<lambda>w. Inr (unlock_q w)))))
    (still w0 p a st)"
    by (auto simp: returns_def)
qed

lemma still_opt:
  assumes "still w0 p a st w" and "returns r (still w0 p a st)"
    and "\<And>w'. still w0 p a st w' \<Longrightarrow> returns (f w') Q"
  shows "returns (bnd (if c then r else Inr w) f) Q"
  using assms returns_bndI [of r "still w0 p a st" f Q] by simp

lemma modify_live:
  assumes lo: "lone w p a st s" and st: "queued st s" and n: "net (acts w) = up st"
  shows "returns (vrrp_set_inst_prop i nm af pr dl pree acpt w) (\<lambda>(_, w'). live w' p a)"
proof -
  have start: "still w p a st w" using lo st by (auto simp: still_def)
  have live: "live w' p a" if "still w p a st w'" for w' using that n by (auto simp: still_def live_def)
  show ?thesis
  proof (cases "flag_arg pree \<and> flag_arg acpt \<and> vrrp_search_inst i nm af w \<noteq> Inr None")
    case False
    with live [OF start] lone_search [OF lo, of i nm af] show ?thesis by (auto simp: vrrp_set_inst_prop_def)
  next
    case True
    with lone_search [OF lo, of i nm af] have s: "vrrp_search_inst i nm af w = Inr (Some p)" by blast
    show ?thesis
      unfolding vrrp_set_inst_prop_def s
      using True by (simp only: bnd_simps option.distinct if_False not_True_eq_False simp_thms)
        (rule still_opt [OF start], rule attr_still [OF start], rule refl,
         (rule still_opt, assumption, rule attr_still delay_still, assumption, (rule refl)?)+, simp add: live)
  qed
qed

section \<open>Packets\<close>

lemma lone_flag [simp]: "lone (set_flag i x w) p a st s = lone w p a st s"
  by (simp add: lone_def table_def inst_list_def has_vr_def own_vr_def fresh_above_def set_flag_def
      unit_def shaped_def able_def no_oom_def vrec_def the_vr_def the_inst_def cong: qshape.case_cong)

lemma alloc_lone:
  assumes lo: "lone w p a st s" and old: "\<And>b d. ds_heap w b = Some d \<Longrightarrow> ds_heap w' b = Some d"
      "\<And>b v. vr_heap w b = Some v \<Longrightarrow> vr_heap w' b = Some v"
    and rest: "fresh_above w'" "adv_q w' = adv_q w" "adv_q_lock w' = adv_q_lock w" "os w' = os w" "length (netfds w') = length (netfds w)"
  shows "lone w' p a st s"
proof -
  from lone_rules(1) [OF lo] obtain d v where "ds_heap w p = Some d" "ds_vr d = Some a" "state d = st" "shaped w a v s"
    "vr_heap w a = Some v" "vr_next v = None" "parent v = Some p" "wf_vr (vr v)" "\<exists>i. vfd v = Some i \<and> i < length (netfds w)"
    by (fastforce simp: unit_def shaped_def)
  then have "unit w' p a st s"
    using old rest by (auto simp: unit_def shaped_def split: qshape.splits)
  moreover note l = inst_list_old [OF lone_rules(5) [OF lo], of w', OF old]
  have "table w' [p]" using lone_rules(4) [OF lo] l rest(1) by (simp add: table_def own_vr_def)
  ultimately show ?thesis using lo rest by (simp add: lone_def able_def no_oom_def)
qed

lemma adv_instance_lone:
  assumes lo: "lone w p a st s" and nm: "length (cstr (vr_ifname (vi_vr inst))) < LIFNAMSIZ"
  shows "returns (adv_instance inst w) (\<lambda>(q, w'). \<exists>r. q = Some r \<and> has_vr w' r \<and> lone w' p a st s \<and> acts w' = acts w)"
proof -
  have "length (cstr (vr_ifname (vi_vr inst))) < length (junk (os w) (brk w) LIFNAMSIZ)" using nm by simp
  from strcpy_ok [OF this] obtain b where b: "strcpy (junk (os w) (brk w) LIFNAMSIZ) (vr_ifname (vi_vr inst)) = Inr b" by auto
  let ?r = "blank_vr\<lparr>attr := vi_va inst, vr := (vi_vr inst)\<lparr>vr_ipnum := 0, vr_ip := [], vr_ifname := b\<rparr>\<rparr>"
  let ?d = "blank_ds\<lparr>ds_vr := Some (brk w), state := vi_state inst, active := vi_active inst\<rparr>"
  let ?w = "w\<lparr>brk := Suc (Suc (brk w)), vr_heap := (vr_heap w)(brk w := Some ?r), ds_heap := (ds_heap w)(Suc (brk w) := Some ?d)\<rparr>"
  have fr: "fresh_above w" and oom: "no_oom w" using lone_rules [OF lo] by simp_all
  have e: "adv_instance inst w = Inr (Some (Suc (brk w)), ?w)"
    using b oom by (simp add: adv_instance_def)
  have "lone ?w p a st s"
    by (rule alloc_lone [OF lo]) (use fr in \<open>auto simp: fresh_above_def\<close>)
  moreover have "has_vr ?w (Suc (brk w))" by (simp add: has_vr_def)
  ultimately show ?thesis by (simp add: e acts_def)
qed

lemma adv_instance_long:
  assumes lo: "lone w p a st s" and nm: "\<not> length (cstr (vr_ifname (vi_vr inst))) < LIFNAMSIZ"
  shows "ensures (adv_instance inst w) Q"
  using lone_rules(6) [OF lo] nm by (auto simp: adv_instance_def strcpy_def)

lemma incoming_live:
  assumes lo: "lone w p a st s" and st: "queued st s" and n: "net (acts w) = up st" and r: "has_vr w r"
  shows "returns (vrrp_process_incoming_adv (Some p) (Some r) w) (\<lambda>w'. live w' p a)"
proof -
  have stay: "live w p a" using assms by (auto simp: live_def)
  have waits: "live w' p a" if "waits p a s st t w w'" "st = VRRP_STATE_MAST \<or> st = VRRP_STATE_BACK" for t w'
    using that live_moves [OF lo n, of "[]" st "shape_enq (shape_rm s)" w'] by (auto simp: waits_def)
  have down: "returns (map_sum id snd t) (\<lambda>w'. live w' p a)" if "goes_down t p a (wait_events w p) (wait_state w VRRP_STATE_BACK)
      (wait_shape w (shape_enq (shape_rm s))) w" "st = VRRP_STATE_MAST" for t
    using live_down [OF _ _ that(1)] lo n that(2) by (simp add: returns_map_sum case_prod_unfold)
  note spec = incoming_adv_ok [OF lone_rules(1,2,3) [OF lo] r refl refl]
  from st show ?thesis
  proof (cases rule: queuedE)
    case 1
    with spec stay show ?thesis by simp
  next
    case 2
    with spec stay down waits show ?thesis by (auto split: if_splits elim!: returns_mono)
  next
    case 3
    with spec stay waits show ?thesis by (auto split: if_splits elim!: returns_mono)
  qed
qed

text \<open>\<open>sure b r Q\<close>: what \<open>r\<close> returns has \<open>Q\<close>, and if \<open>b\<close> it does return.\<close>

definition sure :: "bool \<Rightarrow> 'a res \<Rightarrow> ('a \<Rightarrow> bool) \<Rightarrow> bool" where
  "sure b r Q \<longleftrightarrow> ensures r Q \<and> (b \<longrightarrow> returns r Q)"

lemma returns_imp_ensures: "returns r Q \<Longrightarrow> ensures r Q"
  by (auto simp: returns_def)

lemma sure_returns: "returns r Q \<Longrightarrow> sure b r Q"
  by (simp add: sure_def returns_imp_ensures)

lemma sure_bndI: "sure b r P \<Longrightarrow> (\<And>a. P a \<Longrightarrow> returns (f a) Q) \<Longrightarrow> sure b (bnd r f) Q"
  by (cases r) (auto simp: sure_def intro: returns_imp_ensures)

lemma sure_Inr [simp]: "sure b (Inr x) Q = Q x"
  by (auto simp: sure_def)

lemma adv_check_live:
  assumes lo: "lone w p a st s" and st: "queued st s" and n: "net (acts w) = up st"
  shows "sure (length (cstr (vr_ifname (vi_vr (inst_at [] (drop 34 buf))))) < LIFNAMSIZ)
    (vrrp_adv_check buf w) (\<lambda>(q, w'). case q of None \<Rightarrow> live w' p a
      | Some r \<Rightarrow> has_vr w' r \<and> lone w' p a st s \<and> acts w' = acts w)" (is "sure ?nm _ ?Q")
proof -
  let ?inst = "inst_at [] (drop 34 buf)"
  let ?i = "vr_id (vi_vr ?inst)"
  have stay: "live w p a" using assms by (auto simp: live_def)
  show ?thesis
  proof (cases "heard buf ?inst")
    case False
    then show ?thesis using stay by (auto simp: heard_def vrrp_adv_check_def intro: sure_returns)
  next
    case h: True
    have lo': "lone (set_flag ?i x w) p a st s" for x using lo by simp
    show ?thesis
    proof (cases "pri (vi_va ?inst) = 0")
      case True
      note e = farewell_eq [OF h True lone_rules(5,1) [OF lo]]
      have live': "live (set_flag ?i 0 w) p a" using lo st n by (auto simp: live_def)
      have "returns (vrrp_state_b2m (Some p) (set_flag ?i 0 w)) (\<lambda>(_, w'). live w' p a)" if "st = VRRP_STATE_BACK"
        by (rule live_does [OF lo' _ b2m_does [OF lone_rules(1,2) [OF lo']]]) (use that n in simp_all)
      with live' show ?thesis unfolding e by (auto elim!: returnsE intro: sure_returns)
    next
      case False
      have e: "vrrp_adv_check buf w = adv_instance ?inst (set_flag ?i 1 w)"
        unfolding adv_check_heard [OF h] using False by (simp add: Let_def)
      have "returns (vrrp_adv_check buf w) ?Q" if ?nm
        using adv_instance_lone [OF lo' that, of 1] by (auto simp: e elim!: returns_mono)
      moreover have "ensures (vrrp_adv_check buf w) ?Q" if "\<not> ?nm"
        using adv_instance_long [OF lo' that, of 1] by (simp add: e)
      ultimately show ?thesis using returns_imp_ensures unfolding sure_def by blast
    qed
  qed
qed

lemma packet_live:
  assumes lo: "lone w p a st s" and st: "queued st s" and n: "net (acts w) = up st"
  shows "sure (handled (Packet pkt af ifname) w p) (process_vrrpd_sock pkt af ifname w) (\<lambda>w'. live w' p a)"
  unfolding process_vrrpd_sock_def handled.simps
proof (rule sure_bndI [OF adv_check_live [OF assms]], clarify)
  fix q w1
  assume q: "case q of None \<Rightarrow> live w1 p a | Some r \<Rightarrow> has_vr w1 r \<and> lone w1 p a st s \<and> acts w1 = acts w"
  let ?rest = "if q = None then Inr w1
     else bnd (inst_vr q w1) (\<lambda>rv. let vid_rcv = vr_id (vr rv) in
       bnd (vrrp_search_inst vid_rcv (Some ifname) af w1) (\<lambda>vri_curr.
       if vid_rcv = 0 \<or> vri_curr = None then Inr w1 else vrrp_process_incoming_adv vri_curr q w1))"
  show "returns ?rest (\<lambda>w'. live w' p a)"
  proof (cases q)
    case None
    with q show ?thesis by simp
  next
    case (Some r)
    with q have r: "has_vr w1 r" and lo1: "lone w1 p a st s" and n1: "net (acts w1) = up st" using n by auto
    have "live w1 p a" using lo1 n1 st by (auto simp: live_def)
    with Some lone_search [OF lo1, of "vr_id (vr (the_vr w1 r))" "Some ifname" af] incoming_live [OF lo1 st n1 r]
      inst_vr_the [OF r] show ?thesis by auto
  qed
qed

section \<open>Requests on the socket\<close>

lemma emit_same [simp]: "unit (emit e w) p a st s = unit w p a st s" "table (emit e w) ps = table w ps"
  "able (emit e w) t = able w t" "adv_q_lock (emit e w) = adv_q_lock w"
  by (simp_all add: emit_def table_def inst_list_def has_vr_def own_vr_def fresh_above_def unit_def shaped_def able_def
      no_oom_def vrec_def the_vr_def the_inst_def cong: qshape.case_cong)

lemma live_sendto [simp]: "live (emit (EvSendto sock m) w) p a = live w p a"
  by (simp add: live_def lone_def) (simp add: acts_def emit_def)

lemma reply_live: "live w p a \<Longrightarrow> ensures (adm_reply sock buf cmd r w) (\<lambda>w'. live w' p a)"
  by (auto simp: ensures_def dest!: reply_bytes)

lemma parse_no_inst: "cmd \<noteq> CMD_CREATE_INST \<Longrightarrow> ensures (parse_vrrp_cmd buf cmd intf) (\<lambda>x. \<forall>vi. x \<noteq> PInst vi)"
  by (auto simp: parse_vrrp_cmd_def ensures_def bnd_Inr_iff split: if_splits)

text \<open>What the switch does with a parsed request, whatever its arguments are.\<close>

lemma requests_live:
  assumes "lone w p a st s" and "queued st s" and "net (acts w) = up st"
  shows "ensures (vrrp_startup_inst i nm af w) (\<lambda>(_, w'). live w' p a)"
    "ensures (vrrp_shutdown_inst i nm af w) (\<lambda>(_, w'). live w' p a)"
    "ensures (vrrp_set_inst_prop i nm af pr dl pree acpt w) (\<lambda>(_, w'). live w' p a)"
  using startup_live [OF assms] shutdown_live [OF assms] modify_live [OF assms] by (auto intro: returns_imp_ensures)

lemma dispatch_live:
  assumes l: "live w p a" and c: "cmd \<noteq> CMD_CREATE_INST" "cmd \<noteq> CMD_REMOVE_INST"
  shows "ensures (adm_dispatch buf cmd intf w) (\<lambda>(_, w'). live w' p a)"
proof -
  from l obtain st s where lo: "lone w p a st s" "queued st s" "net (acts w) = up st" by (auto simp: live_def)
  show ?thesis
    unfolding adm_dispatch_def Let_def ensures_if
    by (intro conjI impI ensures_bndI [OF parse_no_inst [OF c(1)]])
      (use l c requests_live [OF lo] in \<open>auto simp: ensures_bnd case_prod_unfold split: parsed.split\<close>)
qed

lemma command_live:
  assumes "live w p a" and "keeps_table msg w"
  shows "ensures (adm_command sock msg w) (\<lambda>w'. live w' p a)"
proof -
  obtain len buf where m: "adm_recv msg w = (len, buf)" by force
  have "ensures (bnd (adm_dispatch buf cmd intf w) (\<lambda>(r, w). adm_reply sock buf cmd r w)) (\<lambda>w'. live w' p a)"
    if "cmd \<noteq> CMD_CREATE_INST" "cmd \<noteq> CMD_REMOVE_INST" for cmd intf
    by (rule ensures_bndI [OF dispatch_live [OF assms(1) that]]) (auto intro: reply_live)
  with assms m show ?thesis
    by (cases "get_vrrp_cmd buf") (auto simp: adm_command_def keeps_table_def)
qed

section \<open>Well-formed requests are answered\<close>

lemma put_fits:
  "off + length bs \<le> length buf \<Longrightarrow> \<exists>buf'. put bs (buf, off) = Inr (buf', off + length bs) \<and> length buf' = length buf"
  by (simp add: put_def poke_def)

lemma returns_put:
  assumes "off + length bs \<le> length buf" and "\<And>b. length b = length buf \<Longrightarrow> returns (f (b, off + length bs)) Q"
  shows "returns (bnd (put bs (buf, off)) f) Q"
  using put_fits [OF assms(1)] assms(2) by auto

lemma length_poke_in: "off + length bs \<le> length m \<Longrightarrow> length (poke off bs m) = length m"
  by (simp add: poke_def)

lemma length_ds_mem: "length m = 36 \<Longrightarrow> length (ds_mem m d) = 36"
  by (simp add: ds_mem_def Let_def length_poke_in)

lemma length_vr_mem: "length m = 120 \<Longrightarrow> length (vr_ifname (vr v)) = 32 \<Longrightarrow> length (vr_mem m v) = 120"
  by (simp add: vr_mem_def Let_def length_poke_in length_inst_mem)

lemma head_next:
  assumes "lone w p a st s"
  obtains l where "dload inst_runtime_list w = Inr l" "ds_next l = Some p"
  using first_inst [OF lone_rules(5) [OF assms]] by auto

lemma getx_lone:
  assumes lo: "lone w p a st s" and nm: "nm \<noteq> []"
  shows "\<exists>r q i nm' af'. vrrp_get_instx i0 nm af w = Inr (r, q, i, nm', af') \<and>
    (r = VRRP_SUCCESS \<longrightarrow> q = Some p \<and> cstr nm' = [])"
proof -
  obtain l where l: "dload inst_runtime_list w = Inr l" "ds_next l = Some p" using head_next [OF lo] .
  have "\<exists>d. ds_heap w p = Some d \<and> ds_next d = None"
    using lone_rules(5) [OF lo] by (auto elim!: inst_listE)
  then obtain d where "dload (Some p) w = Inr d" "ds_next d = None" by auto
  with l lone_search [OF lo, of i0 "Some nm" af] nm show ?thesis
    by (auto simp: vrrp_get_instx_def cstr_def poke_def VRRP_ENOINST_def)
qed

lemma instx_reply:
  assumes lo: "lone w p a st s" and ips: "all_ips w p" and nm: "cstr nm = []" and buf: "length buf = BUFSIZE + 1"
  shows "returns (build_vrrp_ret_get_instx (Some p) i nm af w (buf, 8)) (\<lambda>_. True)"
proof -
  obtain d v where u: "ds_heap w p = Some d" "ds_vr d = Some a" "vr_heap w a = Some v" "vr_next v = None" "wf_vr (vr v)"
    "vrec w p = vr v" using lone_rules(1) [OF lo] by (auto simp: vrec_def elim!: unitE)
  have n: "unat (vr_ipnum (vr v)) < 2 ^ LENGTH(8)" by (rule unsigned_less)
  have f: "fetch 0 (unat (vr_ipnum (vr v)) * 4) (vr_ip (vr v)) = Inr (vr_ip (vr v))"
    using ips u(6) by (simp add: all_ips_def fetch_def peek_all)
  have l: "length (vr_ip (vr v)) \<le> 1020" using ips n by (simp add: all_ips_def u(6))
  have d: "length (ds_mem (junk (os w) p 36) d) = 36" by (simp add: length_ds_mem)
  have v: "length (vr_mem (junk (os w) a 120) v) = 120" using u(5) by (simp add: length_vr_mem wf_vr_def)
  have b: "BUFSIZE = 65535" by (simp add: BUFSIZE_def)
  show ?thesis
    unfolding build_vrrp_ret_get_instx_def
    using u f l d v buf b
    by (simp add: bnd_assoc nm) (intro returns_put; simp add: put_def)
qed

lemma reply_ok:
  assumes buf: "length buf = BUFSIZE + 1" and x: "r_ret x = VRRP_SUCCESS \<Longrightarrow> cmd = CMD_GET_INSTX \<Longrightarrow>
      r_implp x = Some p \<and> cstr (r_intf x) = [] \<and> lone w p a st s \<and> all_ips w p"
  shows "returns (adm_reply sock buf cmd x w) (\<lambda>_. True)"
proof -
  have "returns (build_vrrp_ret_get_instx (r_implp x) (r_vid x) (r_intf x) (r_af x) w (b, 8)) (\<lambda>_. True)"
    if "length b = length buf" "r_ret x = VRRP_SUCCESS" "cmd = CMD_GET_INSTX" for b
    using instx_reply [of w p a st s "r_intf x" b "r_vid x" "r_af x"] x buf that by auto
  then show ?thesis
    using buf unfolding adm_reply_def build_vrrp_ret_def bnd_assoc
    by (intro returns_put) (simp_all add: BUFSIZE_def returns_bnd case_prod_unfold)
qed

lemma dispatch_ok:
  assumes l: "live w p a" and r: "req_ok r" and intf: "length intf = LIFNAMSIZ"
    and c: "req_cmd r \<noteq> CMD_CREATE_INST" "req_cmd r \<noteq> CMD_REMOVE_INST"
  shows "returns (adm_dispatch (req_msg r @ rest) (req_cmd r) intf w) (\<lambda>(x, w').
    r_ret x = VRRP_SUCCESS \<longrightarrow> req_cmd r = CMD_GET_INSTX \<longrightarrow> w' = w \<and> r_implp x = Some p \<and> cstr (r_intf x) = [])"
proof -
  from l obtain st s where lo: "lone w p a st s" "queued st s" "net (acts w) = up st" by (auto simp: live_def)
  note parse = parse_msg [OF r intf, of rest]
  have ret: "returns (vrrp_startup_inst i nm af w) (\<lambda>_. True)" "returns (vrrp_shutdown_inst i nm af w) (\<lambda>_. True)"
    "returns (vrrp_set_inst_prop i nm af pr dl pree acpt w) (\<lambda>_. True)" for i nm af pr dl pree acpt
    using startup_live [OF lo, of i nm af] shutdown_live [OF lo, of i nm af] modify_live [OF lo, of i nm af pr dl pree acpt]
    by (auto elim: returns_mono)
  show ?thesis
  proof (cases r)
    case (ReqInst cmd vid name af)
    have "poke 0 (name @ [0]) intf \<noteq> []" by (simp add: poke_def)
    from getx_lone [OF lo(1) this, of vid af] obtain x q i nm' af'
      where "vrrp_get_instx vid (poke 0 (name @ [0]) intf) af w = Inr (x, q, i, nm', af')"
        "x = VRRP_SUCCESS \<longrightarrow> q = Some p \<and> cstr nm' = []" by blast
    with ReqInst r c parse ret(1,2) show ?thesis
      by (auto simp: adm_dispatch_def returns_bnd case_prod_unfold)
  next
    case (ReqModify vid name af pr dl pree acpt)
    with parse ret(3) show ?thesis
      by (auto simp: adm_dispatch_def returns_bnd case_prod_unfold has_ids_def)
  qed (use c in simp)
qed

lemma command_handled:
  assumes l: "live w p a" and r: "req_ok r" and c: "req_cmd r \<noteq> CMD_CREATE_INST" "req_cmd r \<noteq> CMD_REMOVE_INST"
    and g: "req_cmd r = CMD_GET_INSTX \<Longrightarrow> all_ips w p"
  shows "\<exists>w'. step (Command sock (Some (req_msg r))) w w'"
proof -
  from l obtain st s where lo: "lone w p a st s" by (auto simp: live_def)
  obtain rest where buf: "length (req_msg r @ rest) = BUFSIZE + 1" and e: "adm_command sock (Some (req_msg r)) w =
      bnd (adm_dispatch (req_msg r @ rest) (req_cmd r) (stack_bytes 200000 LIFNAMSIZ w) w) (\<lambda>(x, w).
        adm_reply sock (req_msg r @ rest) (req_cmd r) x w)"
    using adm_command_eq [OF r] by blast
  have "returns (adm_command sock (Some (req_msg r)) w) (\<lambda>_. True)"
    unfolding e
  proof (rule returns_bndI [OF dispatch_ok [OF l r _ c]], simp, clarify)
    fix x :: adm_result and w' assume x: "r_ret x = VRRP_SUCCESS \<longrightarrow> req_cmd r = CMD_GET_INSTX \<longrightarrow>
      w' = w \<and> r_implp x = Some p \<and> cstr (r_intf x) = []"
    show "returns (adm_reply sock (req_msg r @ rest) (req_cmd r) x w') (\<lambda>_. True)"
      by (rule reply_ok [OF buf]) (use x g lo in auto)
  qed
  moreover have "keeps_table (Some (req_msg r)) w"
  proof -
    have "4 \<le> length (req_msg r)" by (cases r) simp_all
    from recv_msg [OF req_msg_fits [OF r] this, of w] obtain len rest
      where "adm_recv (Some (req_msg r)) w = (len, req_msg r @ rest)" by blast
    with parse_msg [OF r, of "stack_bytes 200000 LIFNAMSIZ w" rest] c show ?thesis by (simp add: keeps_table_def)
  qed
  ultimately show ?thesis by (auto simp: returns_def)
qed

section \<open>Every step, and every run\<close>

lemma step_sure:
  assumes "live w p a"
  shows "(step x w w' \<longrightarrow> live w' p a) \<and> (handled x w p \<longrightarrow> (\<exists>w'. step x w w'))"
proof -
  from assms(1) obtain st s where lo: "lone w p a st s" and st: "queued st s" and n: "net (acts w) = up st"
    by (auto simp: live_def)
  show ?thesis
  proof (cases x)
    case Alarm
    with alarm_live [OF lo st n] show ?thesis by (auto simp: returns_def)
  next
    case (Packet pkt af ifname)
    with packet_live [OF lo st n, of pkt af ifname] show ?thesis by (auto simp: sure_def returns_def ensures_def)
  next
    case (Command sock msg)
    have "step x w w' \<longrightarrow> live w' p a"
      using command_live [OF assms] Command by (auto simp: ensures_def)
    moreover have "\<exists>w'. step x w w'" if "handled x w p"
    proof -
      from that Command obtain r where "msg = Some (req_msg r)" "req_ok r" "req_cmd r \<noteq> CMD_CREATE_INST"
        "req_cmd r \<noteq> CMD_REMOVE_INST" "req_cmd r = CMD_GET_INSTX \<longrightarrow> all_ips w p" by auto
      with command_handled [OF assms, of r sock] Command show ?thesis by simp
    qed
    ultimately show ?thesis by blast
  next
    case Display
    with assms show ?thesis by simp
  qed
qed

lemma reach_live: "reach w0 w \<Longrightarrow> live w0 p a \<Longrightarrow> live w p a"
  by (induction rule: reach.induct) (use step_sure in blast)+

section \<open>What holds in every state that is reached\<close>

text \<open>
  C2: A daemon with one instance stays well-formed until an instance is created or removed. Whatever alarms, packets
  and other requests have been handled, in whatever order, the instance is in one of the three states, alone in the
  table, with its one router, and the queue holds nothing else. The next alarm, the next packet whose interface name
  ends within 32 bytes, and the next well-formed startup, shutdown, modify or get request, is handled to its
  end, a request up to its reply. Not covered are requests that create or remove an instance, and the display
  that follows a reply; either may crash such a daemon. Memory is there, and \<open>ualarm\<close> is assumed to refuse the
  timeouts: each is taken to be a second or more.
\<close>

theorem lone_daemon_sound:
  assumes "live w0 p a" and "reach w0 w"
  shows "(\<exists>st s. st \<in> {VRRP_STATE_INIT, VRRP_STATE_MAST, VRRP_STATE_BACK} \<and> unit w p a st s \<and> table w [p]) \<and>
    (\<forall>x. handled x w p \<longrightarrow> (\<exists>w'. step x w w'))"
proof (intro conjI allI impI)
  note lv = reach_live [OF assms(2,1)]
  then show "\<exists>st s. st \<in> {VRRP_STATE_INIT, VRRP_STATE_MAST, VRRP_STATE_BACK} \<and> unit w p a st s \<and> table w [p]"
    by (auto simp: live_def lone_def queued_def)
  show "\<exists>w'. step x w w'" if "handled x w p" for x
    using step_sure [OF lv] that by blast
qed

text \<open>A backup that becomes a master at its alarm.\<close>

lemma live_demo: "live (demo_unit 3 (Some 11)) 1 11"
  using unit_demo(2) [of 3] able_demo [of 3 "Some 11"] table_demo_unit [of 3 "Some 11"]
  by (auto simp: live_def lone_def acts_def demo_unit_def intro!: exI [of _ "3 :: u8"] exI [of _ QOnly])

lemma alarm_demo: "\<exists>w. step Alarm (demo_unit 3 (Some 11)) w"
  using step_sure [OF live_demo, of Alarm] by simp

theorem lone_daemon_sound_witness:
  "\<exists>w w'. step Alarm (demo_unit 3 (Some 11)) w \<and>
     adm_command 5 (Some (req_msg (ReqInst CMD_SHUTDOWN_INST 7 [] 2))) w = Inr w'"
proof -
  obtain w where w: "step Alarm (demo_unit 3 (Some 11)) w" using alarm_demo by blast
  have "handled (Command 5 (Some (req_msg (ReqInst CMD_SHUTDOWN_INST 7 [] 2)))) w 1"
    by (intro handled.simps(3) [THEN iffD2] exI [of _ "ReqInst CMD_SHUTDOWN_INST 7 [] 2"]) (simp add: has_ids_def fits_name_def)
  with lone_daemon_sound [OF live_demo reach_step [OF w]] w show ?thesis by (metis step_simps(3))
qed

text \<open>
  C1: In every state that a daemon with one instance reaches before an instance is created or removed, the router
  process has been started exactly as often as it was interrupted, and once more if the instance is a master: a
  master never starts a second one, and no instance that stopped being a master leaves one behind. A started
  instance is at the head of the advertisement queue, and the queue's mutex is free. Memory is there and the
  timeouts are a second or more.
\<close>

theorem one_router_process:
  assumes "live w0 p a" and "reach w0 w"
  shows "\<exists>d. ds_heap w p = Some d \<and>
    net (acts w) = (if state d = VRRP_STATE_MAST then 1 else 0) \<and>
    (state d \<noteq> VRRP_STATE_INIT \<longrightarrow> adv_q w = Some a) \<and> \<not> adv_q_lock w"
proof -
  from reach_live [OF assms(2,1)] obtain st s where l: "lone w p a st s" "queued st s" "net (acts w) = up st"
    by (auto simp: live_def)
  from lone_rules(1) [OF l(1)] obtain d v where "ds_heap w p = Some d" "state d = st" "shaped w a v s"
    by (rule unitE) blast
  with l show ?thesis
    by (intro exI [of _ d]) (cases s; auto simp: shaped_def lone_def queued_def up_def)
qed

theorem one_router_process_witness:
  "\<exists>w d. step Alarm (demo_unit 3 (Some 11)) w \<and> ds_heap w 1 = Some d \<and>
    net (acts w) = (if state d = VRRP_STATE_MAST then 1 else 0)"
proof -
  obtain w where w: "step Alarm (demo_unit 3 (Some 11)) w" using alarm_demo by blast
  from one_router_process [OF live_demo reach_step [OF w]] w show ?thesis by blast
qed

end
