(* ===== verification/Creation.thy ===== *)
theory Creation
  imports Reach
begin

text \<open>
  How a daemon comes to have its one instance: \<open>CREATE_INST\<close> (\<open>adm_create\<close>) on a daemon without one
  ends, and leaves the invariant of Reach, so that what holds in every reachable state holds from there on.
\<close>

section \<open>A new instance\<close>

text \<open>A place is left in the socket and poll tables for the interface; and a daemon without an instance.\<close>

definition room :: "world \<Rightarrow> u8 list \<Rightarrow> bool" where
  "room w name \<longleftrightarrow> wf_netfds w \<and> sockets_ok w \<and> wf_poll w \<and> (\<exists>n. fd_slot (netfds w) name n) \<and>
     (\<exists>i < 32. find_fd (-1) w = Some i)"

definition vacant :: "world \<Rightarrow> bool" where
  "vacant w \<longleftrightarrow> table w [] \<and> adv_q w = None \<and> \<not> adv_q_lock w \<and> able w QSelf \<and> net (acts w) = 0"

lemma created:
  assumes t: "table w []" and oom: "no_oom w" and wf: "wf_request vi" and ok: "valid_request vi"
  obtains h where "vrrp_create_inst (Some vi) w = Inr ((VRRP_SUCCESS, Some (brk w)), (allocated vi w)\<lparr>ds_heap := h\<rparr>)"
    and "table ((allocated vi w)\<lparr>ds_heap := h\<rparr>) [brk w]"
    and "\<exists>d. h (brk w) = Some d \<and> ds_vr d = Some (Suc (brk w)) \<and> state d = VRRP_STATE_INIT"
proof -
  let ?a = "allocated vi w"
  from create_inst_ok [OF t oom wf ok request_free_Nil] obtain w' where w':
    "vrrp_create_inst (Some vi) w = Inr ((VRRP_SUCCESS, Some (brk w)), w')" "table w' (with_inst vi w [])" "l_frame ?a w'"
    by blast
  from w'(3) obtain h where h: "w' = ?a\<lparr>ds_heap := h\<rparr>" "\<And>b. map_option ds_core (h b) = map_option ds_core (ds_heap ?a b)"
    by (auto simp: l_frame_def)
  have "map_option ds_core (h (brk w)) = Some (ds_core (new_inst vi w))" by (simp add: h(2) allocated_def)
  then obtain d where "h (brk w) = Some d" "ds_core d = ds_core (new_inst vi w)" by auto
  with ds_core_fields [OF this(2)] w'(1,2) h(1) show thesis
    by (intro that [of h]) (simp_all add: new_inst_def with_inst_def before_def from_on_def)
qed

text \<open>Its sockets: one round of the loop, for its one router.\<close>

lemma setup_one:
  assumes d: "ds_heap w p = Some d" "ds_vr d = Some a" and v: "vr_heap w a = Some v" "vr_next v = None" "wf_vr (vr v)"
    and wf: "wf_netfds w" "sockets_ok w" and ne: "cstr (vr_ifname (vr v)) \<noteq> []"
    and slot: "\<exists>n. fd_slot (netfds w) (cstr (vr_ifname (vr v))) n"
  obtains n name where "n < length (netfds w)" and "cstr name = cstr (vr_ifname (vr v))" and "length name = LIFNAMSIZ"
    and "vrrpd_setup_netfd (Some p) w = Inr (0, (opens n name w)\<lparr>vr_heap := (vr_heap w)(a := Some (v\<lparr>vfd := Some n\<rparr>))\<rparr>)"
proof -
  have l: "length (cstr (vr_ifname (vr v))) < LIFNAMSIZ" using v(3) length_cstr_nul [of "vr_ifname (vr v)"] by (simp add: wf_vr_def)
  from setup_vr_ok [OF wf v(1) l ne slot, of "vr_af (vr v)"] obtain n name where n: "fd_slot (netfds w) (cstr (vr_ifname (vr v))) n"
    "cstr name = cstr (vr_ifname (vr v))" "length name = LIFNAMSIZ" and
    r: "vrrpd_setup_netfd_vr (Some a) (vr_ifname (vr v)) (vr_af (vr v)) w =
      Inr (0, (opens n name w)\<lparr>vr_heap := (vr_heap w)(a := Some (v\<lparr>vfd := Some n\<rparr>))\<rparr>)" by blast
  show thesis
    using that [OF _ n(2,3), of n] n(1) d v(1,2) r
    by (simp add: vrrpd_setup_netfd_def fd_slot_def loop_unfold)
qed

lemma recv_one:
  assumes d: "ds_heap w p = Some d" "ds_vr d = Some a" and v: "vr_heap w a = Some v" "vr_next v = None" "vfd v = Some n" "n < length (netfds w)"
    and wf: "wf_poll w" and fd: "s_rcv (netfds w ! n) \<noteq> -1" "length (cstr (fd_intf (netfds w ! n))) < LIFNAMSIZ"
    and i: "i < 32" "find_fd (-1) w = Some i"
  shows "\<exists>ps af nm. inst_start_recv (Some p) w = Inr (w\<lparr>pollfds := ps, poll_afs := af, poll_intfs := nm\<rparr>)"
proof -
  let ?fd = "s_rcv (netfds w ! n)" and ?nm = "fd_intf (netfds w ! n)"
  have "\<exists>ps af nm. poll_add ?fd (vr_af (vr v)) (Some ?nm) w = Inr (0, w\<lparr>pollfds := ps, poll_afs := af, poll_intfs := nm\<rparr>)"
  proof (cases "find_fd ?fd w")
    case (Some j)
    then have "poll_add ?fd (vr_af (vr v)) (Some ?nm) w = Inr (0, w\<lparr>pollfds := pollfds w, poll_afs := poll_afs w, poll_intfs := poll_intfs w\<rparr>)"
      by (simp add: poll_add_def)
    then show ?thesis by blast
  next
    case None
    from poll_add_free [OF wf None fd(1) i(2,1) fd(2)] show ?thesis by blast
  qed
  then obtain ps af nm where "poll_add ?fd (vr_af (vr v)) (Some ?nm) w = Inr (0, w\<lparr>pollfds := ps, poll_afs := af, poll_intfs := nm\<rparr>)"
    by blast
  then show ?thesis
    using d v by (auto simp: inst_start_recv_def loop_unfold fd_at_def)
qed

lemma lone_ext:
  assumes "lone w p a st s" and "ds_heap w' = ds_heap w" "vr_heap w' = vr_heap w" "brk w' = brk w" "adv_q w' = adv_q w"
    "adv_q_lock w' = adv_q_lock w" "os w' = os w" "length (netfds w') = length (netfds w)"
  shows "lone w' p a st s"
  by (rule alloc_lone [OF assms(1)]) (use assms lone_rules(7) [OF assms(1)] in \<open>simp_all add: fresh_above_def\<close>)

lemma vfd_lone:
  assumes t: "table w [p]" and d: "ds_heap w p = Some d" "ds_vr d = Some a" and v: "vr_heap w a = Some v"
    and q: "adv_q w = None" "qnext v = None" "qprev v = None" and e: "\<not> adv_q_lock w" "able w QSelf" and n: "n < length (netfds w)"
  shows "lone ((opens n name w)\<lparr>vr_heap := (vr_heap w)(a := Some (v\<lparr>vfd := Some n\<rparr>))\<rparr>) p a (state d) QEmpty"
    (is "lone ?w p a _ _")
proof -
  let ?v = "v\<lparr>vfd := Some n\<rparr>"
  let ?w0 = "w\<lparr>vr_heap := (vr_heap w)(a := Some ?v)\<rparr>"
  have own: "wf_vr (vr v)" "parent v = Some p" "vr_next v = None"
    using t d v by (simp_all add: table_def own_vr_def vrec_def the_vr_def the_inst_def)
  have il: "inst_list ?w0 [p]" using t d v by (intro search_attr(1)) (simp_all add: table_def)
  have "fresh_above ?w0" using t v by (auto simp: table_def fresh_above_def)
  with il own d v have "table ?w0 [p]" by (simp add: table_def own_vr_def vrec_def the_vr_def the_inst_def)
  moreover have "unit ?w0 p a (state d) QEmpty"
    using own d v q n by (simp add: unit_def shaped_def)
  ultimately have "lone ?w0 p a (state d) QEmpty"
    using e by (simp add: lone_def able_def no_oom_def)
  then show ?thesis by (rule lone_ext) (simp_all add: opens_def)
qed

text \<open>Both in turn leave an instance that is alone and in state INIT.\<close>

lemma sockets_up:
  assumes t: "table w [p]" and d: "ds_heap w p = Some d" "ds_vr d = Some a" and v: "vr_heap w a = Some v"
    and q: "adv_q w = None" "qnext v = None" "qprev v = None" and e: "\<not> adv_q_lock w" "able w QSelf"
    and room: "room w (cstr (vr_ifname (vr v)))" and ne: "cstr (vr_ifname (vr v)) \<noteq> []"
  obtains w2 w3 where "vrrpd_setup_netfd (Some p) w = Inr (0, w2)" "inst_start_recv (Some p) w2 = Inr w3"
    "lone w3 p a (state d) QEmpty" "net (acts w3) = net (acts w)"
proof -
  have own: "vr_next v = None" "wf_vr (vr v)"
    using t d v by (simp_all add: table_def own_vr_def vrec_def the_vr_def the_inst_def)
  have fds: "wf_netfds w" "sockets_ok w" "\<exists>n. fd_slot (netfds w) (cstr (vr_ifname (vr v))) n" "wf_poll w"
    using room by (simp_all add: room_def)
  obtain n name where n: "n < length (netfds w)" "cstr name = cstr (vr_ifname (vr v))" "length name = LIFNAMSIZ"
    and net: "vrrpd_setup_netfd (Some p) w = Inr (0, (opens n name w)\<lparr>vr_heap := (vr_heap w)(a := Some (v\<lparr>vfd := Some n\<rparr>))\<rparr>)"
    using setup_one [OF d v own fds(1,2) ne fds(3)] by blast
  let ?w2 = "(opens n name w)\<lparr>vr_heap := (vr_heap w)(a := Some (v\<lparr>vfd := Some n\<rparr>))\<rparr>"
  have fd: "netfds ?w2 ! n = new_fd w name" using n(1) by (simp add: opens_def)
  have s: "s_rcv (netfds ?w2 ! n) \<noteq> -1" "length (cstr (fd_intf (netfds ?w2 ! n))) < LIFNAMSIZ"
    unfolding fd using fds(2) own(2) length_cstr_nul [of "vr_ifname (vr v)"] n(2)
    by (simp_all add: new_fd_def sockets_ok_def wf_vr_def)
  obtain i where i: "i < 32" "find_fd (-1) ?w2 = Some i"
    using room by (auto simp: room_def find_fd_def poll_fds_def opens_def)
  have "wf_poll ?w2" using fds(4) by (simp add: wf_poll_def poll_fds_def opens_def)
  from recv_one [OF _ d(2) _ _ _ _ this s i, of p "v\<lparr>vfd := Some n\<rparr>"] d(1) own(1) n(1)
  obtain ps af nm where r: "inst_start_recv (Some p) ?w2 = Inr (?w2\<lparr>pollfds := ps, poll_afs := af, poll_intfs := nm\<rparr>)"
    by (auto simp: opens_def)
  show thesis
  proof (rule that [OF net r])
    show "lone (?w2\<lparr>pollfds := ps, poll_afs := af, poll_intfs := nm\<rparr>) p a (state d) QEmpty"
      by (rule lone_ext [OF vfd_lone [OF t d v q e n(1), of name]]) simp_all
    show "net (acts (?w2\<lparr>pollfds := ps, poll_afs := af, poll_intfs := nm\<rparr>)) = net (acts w)"
      by (simp add: acts_def opens_def open_events_def)
  qed
qed

text \<open>The instance that \<open>CREATE_INST\<close> leaves, started at once if it owns the address.\<close>

lemma create_live:
  assumes vac: "vacant w" and room: "room w (cstr (vr_ifname (vi_vr vi)))" and wf: "wf_request vi" and ok: "valid_request vi"
    and ne: "cstr (vr_ifname (vi_vr vi)) \<noteq> []"
  shows "returns (adm_create vi w) (\<lambda>(_, w'). live w' (brk w) (Suc (brk w)))"
proof -
  let ?p = "brk w" and ?a = "Suc (brk w)" and ?v = "new_router vi w"
  have v: "vr_ifname (vr ?v) = vr_ifname (vi_vr vi)" "qnext ?v = None" "qprev ?v = None"
    by (simp_all add: new_router_def kept_vr_def blank_vr_def)
  have t: "table w []" and oom: "no_oom w" using vac by (simp_all add: vacant_def able_def)
  obtain h d where c: "vrrp_create_inst (Some vi) w = Inr ((VRRP_SUCCESS, Some ?p), (allocated vi w)\<lparr>ds_heap := h\<rparr>)"
    and t1: "table ((allocated vi w)\<lparr>ds_heap := h\<rparr>) [?p]" and d: "h ?p = Some d" "ds_vr d = Some ?a" "state d = VRRP_STATE_INIT"
    using created [OF t oom wf ok] by metis
  let ?w1 = "(allocated vi w)\<lparr>ds_heap := h\<rparr>"
  have "room ?w1 (cstr (vr_ifname (vr ?v)))"
    using room v(1) by (simp add: room_def allocated_def wf_netfds_def sockets_ok_def wf_poll_def poll_fds_def find_fd_def)
  moreover have "adv_q ?w1 = None" "\<not> adv_q_lock ?w1" "able ?w1 QSelf" "ds_heap ?w1 ?p = Some d" "vr_heap ?w1 ?a = Some ?v"
    "net (acts ?w1) = up VRRP_STATE_INIT"
    using vac d(1) by (simp_all add: vacant_def allocated_def able_def no_oom_def acts_def)
  ultimately obtain w2 w3 where r: "vrrpd_setup_netfd (Some ?p) ?w1 = Inr (0, w2)" "inst_start_recv (Some ?p) w2 = Inr w3"
    and lo: "lone w3 ?p ?a VRRP_STATE_INIT QEmpty" and n: "net (acts w3) = up VRRP_STATE_INIT"
    using sockets_up [OF t1 _ d(2) _ _ v(2,3)] ne v(1) d(3) by metis
  have e: "adm_create vi w = (if pri (vi_va vi) = 255
      then bnd (vrrp_state_i2m (Some ?p) w3) (\<lambda>(ret, w). Inr (ret, emit (EvAlarm (delay (vi_va vi))) w))
      else Inr (VRRP_SUCCESS, w3))"
    by (simp add: adm_create_def c r)
  have "returns (vrrp_state_i2m (Some ?p) w3) (\<lambda>(_, w'). live w' ?p ?a)"
    by (rule live_does [OF lo n i2m_does [OF lone_rules(1,2,3) [OF lo]]]) (simp_all add: fork_event_def)
  moreover have "live (emit (EvAlarm t) w') ?p ?a" if "live w' ?p ?a" for t w'
    using that lone_ext [of w' ?p ?a _ _ "emit (EvAlarm t) w'"] by (fastforce simp: live_def emit_def acts_def)
  moreover have "live w3 ?p ?a" using lo n by (force simp: live_def)
  ultimately show ?thesis by (auto simp: e elim!: returnsE)
qed

text \<open>There are such daemons: nothing but the administration socket is polled, and the socket table has room.\<close>

definition demo_vacant :: world where
  "demo_vacant = demo_empty\<lparr>os := (demo_os 0)\<lparr>socket_ret := \<lambda>t. 8, ualarm_ret := \<lambda>t. -1\<rparr>, pollfds := pollfds demo_poll\<rparr>"

lemma demo_created: "returns (adm_create (demo_req 7) demo_vacant) (\<lambda>(_, w'). live w' 100 101)"
proof -
  let ?nm = "vr_ifname (vi_vr (demo_req 7))"
  have vac: "vacant demo_vacant"
    using table_demo_empty
    by (simp add: vacant_def demo_vacant_def table_def inst_list_def fresh_above_def able_def no_oom_def demo_os_def acts_def
        demo_empty_def demo_world_def)
  have fds: "poll_fds demo_vacant = poll_fds demo_poll" by (simp add: demo_vacant_def poll_fds_def)
  have len: "length (pollfds demo_vacant) = 32" by (simp add: demo_vacant_def demo_poll_def)
  have "wf_poll demo_vacant"
    using wf_demo_poll fds by (simp add: wf_poll_def demo_vacant_def demo_empty_def demo_poll_def demo_world_def)
  moreover have "wf_netfds demo_vacant" using demo_netfds by (simp add: wf_netfds_def demo_vacant_def demo_empty_def)
  moreover have "sockets_ok demo_vacant" by (simp add: sockets_ok_def demo_os_def demo_vacant_def word_sless_alt)
  moreover have "fd_slot (netfds demo_vacant) (cstr ?nm) 0"
    by (simp add: demo_vacant_def demo_empty_def demo_world_def demo_req_def demo_vr_def fd_slot_def demo_fd_def fd_used_def demo_ifname_def)
  moreover have "find_fd (-1) demo_vacant = Some 1"
    using fds len by (simp add: find_fd_Some demo_poll_fds)
  ultimately have room: "room demo_vacant (cstr ?nm)"
    unfolding room_def by (metis one_less_numeral_iff semiring_norm(76) num.distinct)
  have "brk demo_vacant = 100" by (simp add: demo_vacant_def)
  moreover have "cstr ?nm \<noteq> []" by (simp add: demo_req_def demo_vr_def)
  ultimately show ?thesis using create_live [OF vac room demo_req_ok] by simp
qed

end
