(* ===== verification/Checksum.thy ===== *)
theory Checksum
  imports AdmProto CLib
begin

unbundle bit_operations_syntax

text \<open>
  \<open>ComputeChecksum\<close>, which vrrpd_adv.c, router.c, sender.c and receiver.c share word for word: the Internet
  checksum of \<open>len\<close> bytes, read as 16-bit words in the byte order of the machine. The sum is a signed 32-bit
  \<open>long\<close>; it wraps as the target's compiler makes it wrap, and its right shift keeps the sign.
\<close>

section \<open>The code\<close>

definition fold_sum :: "cint \<Rightarrow> cint" where
  "fold_sum x = (x AND 0xFFFF) + signed_drop_bit 16 x"

definition fetch16 :: "nat \<Rightarrow> u8 list \<Rightarrow> u16 res" where
  "fetch16 off buf = bnd (fetch off 2 buf) (\<lambda>b. Inr (un16 (b ! 0) (b ! 1)))"

definition sum_word :: "u8 list \<Rightarrow> cint \<times> nat \<times> cint \<Rightarrow> ((cint \<times> nat \<times> cint) + (cint \<times> nat \<times> cint)) res" where
  "sum_word data = (\<lambda>(sum, temp, len).
     if 1 <s len then
       bnd (fetch16 temp data) (\<lambda>x.
       let sum = sum + ucast x;
           sum = (if sum AND 0x80000000 \<noteq> 0 then fold_sum sum else sum)
       in Inr (Inl (sum, temp + 2, len - 2)))
     else Inr (Inr (sum, temp, len)))"

definition sum_byte :: "u8 list \<Rightarrow> cint \<times> nat \<times> cint \<Rightarrow> cint res" where
  "sum_byte data = (\<lambda>(sum, temp, len).
     if len \<noteq> 0 then bnd (fetch temp 1 data) (\<lambda>b. Inr (sum + ucast (b ! 0))) else Inr sum)"

definition fold_all :: "cint \<Rightarrow> cint res" where
  "fold_all = loop (\<lambda>x. Inr (if signed_drop_bit 16 x \<noteq> 0 then Inl (fold_sum x) else Inr x))"

definition ComputeChecksum :: "u8 list \<Rightarrow> cint \<Rightarrow> u16 res" where
  "ComputeChecksum data len =
     bnd (loop (sum_word data) (0, 0, len)) (\<lambda>s.
     bnd (sum_byte data s) (\<lambda>sum.
     bnd (fold_all sum) (\<lambda>sum. Inr (NOT (ucast sum)))))"

section \<open>Folding\<close>

lemma sint_bounds: "- (2 ^ 31) \<le> sint (x :: cint)" "sint (x :: cint) < 2 ^ 31"
  using sint_greater_eq [of x] sint_less [of x] by simp_all

lemma sint_add:
  "- 2147483648 \<le> sint x + sint y \<Longrightarrow> sint x + sint y < 2147483648 \<Longrightarrow> sint (x + y :: cint) = sint x + sint y"
  by (simp add: sint_word_ariths signed_take_bit_int_eq_self)

lemma sint_fold: "sint (fold_sum x) = sint x mod 65536 + sint x div 65536"
proof -
  have "sint (0xFFFF :: cint) = 65535" by simp
  then have a: "sint (x AND 0xFFFF) = sint x mod 65536"
    using take_bit_eq_mask [of 16 "sint x"] by (simp add: signed_and_eq mask_eq_exp_minus_1 take_bit_eq_mod)
  have b: "sint (signed_drop_bit 16 x) = sint x div 65536"
    by (simp add: sint_signed_drop_bit_eq drop_bit_eq_div)
  have m: "0 \<le> sint x mod 65536" "sint x mod 65536 < 65536" by simp_all
  have "- 2147483648 \<le> sint x" "sint x < 2147483648" using sint_bounds [of x] by simp_all
  moreover have "sint x = 65536 * (sint x div 65536) + sint x mod 65536" by simp
  ultimately have "- 32768 \<le> sint x div 65536 \<and> sint x div 65536 < 32768" using m by (intro conjI) linarith+
  then have "- 2147483648 \<le> sint x mod 65536 + sint x div 65536 \<and> sint x mod 65536 + sint x div 65536 < 2147483648"
    using m by (intro conjI) linarith+
  then show ?thesis unfolding fold_sum_def by (subst sint_add) (simp_all add: a b)
qed

lemma folded_iff: "signed_drop_bit 16 x = 0 \<longleftrightarrow> 0 \<le> sint x \<and> sint x < 65536"
proof -
  have "signed_drop_bit 16 x = 0 \<longleftrightarrow> sint (signed_drop_bit 16 x) = 0"
    by (metis signed_0 signed_word_eqI)
  also have "\<dots> \<longleftrightarrow> sint x div 65536 = 0" by (simp add: sint_signed_drop_bit_eq drop_bit_eq_div)
  also have "\<dots> \<longleftrightarrow> 0 \<le> sint x \<and> sint x < 65536" by (auto simp: zdiv_eq_0_iff)
  finally show ?thesis .
qed

text \<open>Whatever the sum, folding ends; a sum that is not negative keeps its residue modulo 65535.\<close>

definition ones_fold :: "nat \<Rightarrow> nat" where
  "ones_fold n = (if n = 0 then 0 else (n - 1) mod 65535 + 1)"

definition fold_measure :: "cint \<Rightarrow> nat" where
  "fold_measure x = (if 0 \<le> sint x then nat (sint x) else 2 ^ 32 + nat (- sint x))"

lemma fold_step:
  assumes "signed_drop_bit 16 x \<noteq> 0"
  shows "fold_measure (fold_sum x) < fold_measure x"
    and "0 \<le> sint x \<Longrightarrow> 0 \<le> sint (fold_sum x)"
    and "0 \<le> sint x \<Longrightarrow> ones_fold (nat (sint (fold_sum x))) = ones_fold (nat (sint x))"
proof -
  have x: "sint x < 0 \<or> 65536 \<le> sint x" using assms folded_iff [of x] by linarith
  define q r where "q = sint x div 65536" and "r = sint x mod 65536"
  have e: "sint x = 65536 * q + r" and r: "0 \<le> r" "r < 65536" and f: "sint (fold_sum x) = q + r"
    by (simp_all add: q_def r_def sint_fold)
  have q: "q \<noteq> 0" "q < 0 \<longleftrightarrow> sint x < 0" using x e r by linarith+
  show "fold_measure (fold_sum x) < fold_measure x"
    using q e r sint_bounds [of x] by (auto simp: fold_measure_def f nat_less_iff)
  show "0 \<le> sint x \<Longrightarrow> 0 \<le> sint (fold_sum x)" using q r f by linarith
  show "ones_fold (nat (sint (fold_sum x))) = ones_fold (nat (sint x))" if "0 \<le> sint x"
  proof -
    have "0 < q" using that q by linarith
    then obtain a b where ab: "q = int a" "r = int b" "0 < a"
      using r by (intro that [of "nat q" "nat r"]) simp_all
    have "(65536 * a + b - 1) mod 65535 = (65535 * a + (a + b - 1)) mod 65535" using ab(3) by simp
    also have "\<dots> = (a + b - 1) mod 65535" by simp
    finally show ?thesis using ab unfolding e f by (simp add: ones_fold_def nat_add_distrib nat_mult_distrib)
  qed
qed

lemma fold_all_ends: "\<exists>y. fold_all x = Inr y \<and> (0 \<le> sint x \<longrightarrow> y = of_nat (ones_fold (nat (sint x))))"
  unfolding fold_all_def
proof (rule loop_total [where I = "\<lambda>y :: cint. 0 \<le> sint x \<longrightarrow> 0 \<le> sint y \<and> ones_fold (nat (sint y)) = ones_fold (nat (sint x))"
      and m = fold_measure])
  fix y :: cint
  assume I: "0 \<le> sint x \<longrightarrow> 0 \<le> sint y \<and> ones_fold (nat (sint y)) = ones_fold (nat (sint x))"
  have "y = of_nat (ones_fold (nat (sint y)))" if "signed_drop_bit 16 y = 0"
  proof -
    have b: "0 \<le> sint y" "sint y < 65536" using that folded_iff by auto
    then have "ones_fold (nat (sint y)) = nat (sint y)" by (simp add: ones_fold_def)
    with b show ?thesis by simp
  qed
  with I fold_step [of y] show "(\<exists>s'. Inr (if signed_drop_bit 16 y \<noteq> 0 then Inl (fold_sum y) else Inr y) = Inr (Inl s') \<and>
      (0 \<le> sint x \<longrightarrow> 0 \<le> sint s' \<and> ones_fold (nat (sint s')) = ones_fold (nat (sint x))) \<and> fold_measure s' < fold_measure y) \<or>
    (\<exists>r. Inr (if signed_drop_bit 16 y \<noteq> 0 then Inl (fold_sum y) else Inr y) = Inr (Inr r) \<and>
      (0 \<le> sint x \<longrightarrow> r = of_nat (ones_fold (nat (sint x)))))"
    by (cases "signed_drop_bit 16 y = 0") auto
qed simp

section \<open>The sum\<close>

text \<open>The reference: the sum of the words without a width, and the one's complement of its one's complement sum.\<close>

fun words_sum :: "u8 list \<Rightarrow> nat" where
  "words_sum (a # b # s) = unat (un16 a b) + words_sum s"
| "words_sum [a] = unat a"
| "words_sum [] = 0"

definition internet_checksum :: "u8 list \<Rightarrow> u16" where
  "internet_checksum data = NOT (of_nat (ones_fold (words_sum data)))"

lemma words_sum_bound: "words_sum s \<le> 65535 * ((length s + 1) div 2)"
proof (induction s rule: words_sum.induct)
  case (1 a b s)
  moreover have "unat (un16 a b) < 2 ^ LENGTH(16)" by (rule unsigned_less)
  ultimately show ?case by simp
next
  case (2 a)
  have "unat a < 2 ^ LENGTH(8)" by (rule unsigned_less)
  then show ?case by simp
qed simp

lemma word_step:
  assumes "data = pre @ a # b # s" and "length pre = temp" and "length (a # b # s) < 2 ^ 31"
  shows "sum_word data (acc, temp, of_nat (length (a # b # s))) =
    Inr (Inl (let sum = acc + ucast (un16 a b) in if sum AND 0x80000000 \<noteq> 0 then fold_sum sum else sum,
      temp + 2, of_nat (length s)))"
proof -
  have "1 <s (of_nat (length (a # b # s)) :: cint)"
    using sint_of_nat [OF assms(3)] by (simp add: word_sless_alt)
  moreover have "fetch16 temp data = Inr (un16 a b)"
    using assms(1,2) by (simp add: fetch16_def fetch_def peek_def)
  moreover have "(of_nat (length (a # b # s)) - 2 :: cint) = of_nat (length s)" by simp
  ultimately show ?thesis by (simp add: sum_word_def Let_def del: length_Cons)
qed

lemma word_stop:
  assumes "length s < 2"
  shows "sum_word data (acc, temp, of_nat (length s)) = Inr (Inr (acc, temp, of_nat (length s)))"
proof -
  have "\<not> 1 <s (of_nat (length s) :: cint)" using assms sint_of_nat [of "length s"] by (simp add: word_sless_alt)
  then show ?thesis by (simp add: sum_word_def)
qed

text \<open>The loop and the left-over byte return for every input.\<close>

lemma sum_ends:
  assumes "data = pre @ s" and "length pre = temp" and "length s < 2 ^ 31"
  shows "returns (bnd (loop (sum_word data) (acc, temp, of_nat (length s))) (sum_byte data)) (\<lambda>_. True)"
  using assms
proof (induction s arbitrary: pre temp acc rule: words_sum.induct)
  case (1 a b s)
  show ?case
    by (subst loop_next [where body = "sum_word data", OF word_step [OF 1(2-), of acc]], rule 1(1) [of "pre @ [a, b]"]) (use 1(2-) in simp_all)
next
  case (2 a)
  have e: "loop (sum_word data) (acc, temp, of_nat (length [a])) = Inr (acc, temp, of_nat (length [a]))"
    by (rule loop_done, rule word_stop) simp
  from 2 show ?case unfolding e by (simp add: sum_byte_def fetch_def peek_def)
next
  case 3
  have e: "loop (sum_word data) (acc, temp, of_nat (length ([] :: u8 list))) = Inr (acc, temp, of_nat (length ([] :: u8 list)))"
    by (rule loop_done, rule word_stop) simp
  show ?case unfolding e by (simp add: sum_byte_def)
qed

text \<open>While the sum stays below \<open>2 ^ 31\<close> it is never folded on the way.\<close>

lemma bit_high: "bit (0x80000000 :: cint) n \<longleftrightarrow> n = 31"
proof -
  have e: "(0x80000000 :: cint) = push_bit 31 1" by simp
  show ?thesis by (subst e, simp only: bit_push_bit_iff bit_1_iff possible_bit_word) auto
qed

lemma sign_bit:
  assumes "0 \<le> sint x"
  shows "x AND 0x80000000 = (0 :: cint)"
proof -
  have "\<not> bit x 31" using assms by (simp add: sint_uint bit_uint_iff)
  then have "\<not> bit (x AND 0x80000000) n" for n unfolding bit_and_iff bit_high by auto
  then show ?thesis by (intro bit_word_eqI) simp
qed

lemma sum_exact:
  assumes "data = pre @ s" and "length pre = temp" and "length s < 2 ^ 31" and "n + words_sum s < 2 ^ 31"
  shows "bnd (loop (sum_word data) (of_nat n, temp, of_nat (length s))) (sum_byte data) = Inr (of_nat (n + words_sum s))"
  using assms
proof (induction s arbitrary: pre temp n rule: words_sum.induct)
  case (1 a b s)
  have "(ucast (un16 a b) :: cint) = of_nat (unat (un16 a b))" by simp
  then have e: "(of_nat n + ucast (un16 a b) :: cint) = of_nat (n + unat (un16 a b))" by simp
  have "(of_nat (n + unat (un16 a b)) :: cint) AND 0x80000000 = 0"
    by (rule sign_bit, subst sint_of_nat) (use 1(5) in simp_all)
  then have n: "(let sum = of_nat n + ucast (un16 a b) :: cint in if sum AND 0x80000000 \<noteq> 0 then fold_sum sum else sum) =
      of_nat (n + unat (un16 a b))" by (simp only: e Let_def) simp
  have "bnd (loop (sum_word data) (of_nat (n + unat (un16 a b)), temp + 2, of_nat (length s))) (sum_byte data) =
      Inr (of_nat (n + unat (un16 a b) + words_sum s))"
    by (rule 1(1) [of "pre @ [a, b]"]) (use 1(2-) in simp_all)
  then show ?case by (subst loop_next [where body = "sum_word data", OF word_step [OF 1(2-4), of "of_nat n"]], unfold n) (simp only: words_sum.simps add.assoc)
next
  case (2 a)
  have e: "loop (sum_word data) (of_nat n, temp, of_nat (length [a])) = Inr (of_nat n, temp, of_nat (length [a]))"
    by (rule loop_done, rule word_stop) simp
  from 2 show ?case unfolding e by (simp add: sum_byte_def fetch_def peek_def)
next
  case 3
  have e: "loop (sum_word data) (of_nat n, temp, of_nat (length ([] :: u8 list))) = Inr (of_nat n, temp, of_nat (length ([] :: u8 list)))"
    by (rule loop_done, rule word_stop) simp
  show ?case unfolding e by (simp add: sum_byte_def)
qed

text \<open>
  C30: \<open>ComputeChecksum\<close> returns whatever the data are, also when the sum has overflowed and is negative:
  neither loop runs forever and no byte outside the data is read.
\<close>

theorem checksum_returns:
  assumes "length data < 2 ^ 31"
  shows "\<exists>c. ComputeChecksum data (of_nat (length data)) = Inr c"
proof -
  from sum_ends [of data "[]" data 0 0] assms obtain acc where
    "bnd (loop (sum_word data) (0, 0, of_nat (length data))) (sum_byte data) = Inr acc" by (auto elim: returnsE)
  moreover obtain y where "fold_all acc = Inr y" using fold_all_ends by blast
  ultimately show ?thesis by (simp add: ComputeChecksum_def flip: bnd_assoc)
qed

text \<open>Seven bytes of which the last is alone.\<close>

theorem checksum_returns_witness:
  "\<exists>c. ComputeChecksum [1, 2, 3, 4, 5, 6, 7] (of_nat (length [1, 2, 3, 4, 5, 6, 7 :: u8])) = Inr c"
  by (rule checksum_returns) simp

lemma checksum_eq:
  assumes "length data \<le> 65536"
  shows "ComputeChecksum data (of_nat (length data)) = Inr (internet_checksum data)"
proof -
  have "(length data + 1) div 2 \<le> 32768" using assms by linarith
  then have lt: "words_sum data < 2 ^ 31" using words_sum_bound [of data] by simp
  with sum_exact [of data "[]" data 0 0] assms have
    "bnd (loop (sum_word data) (0, 0, of_nat (length data))) (sum_byte data) = Inr (of_nat (words_sum data))" by simp
  moreover have "fold_all (of_nat (words_sum data)) = Inr (of_nat (ones_fold (words_sum data)))"
    using fold_all_ends [of "of_nat (words_sum data)"] by (simp add: sint_of_nat [OF lt])
  moreover have "(ucast (of_nat n :: cint) :: u16) = of_nat n" for n
    by (simp only: unsigned_of_nat) (simp add: word_of_nat_eq_iff)
  ultimately show ?thesis by (simp add: ComputeChecksum_def internet_checksum_def flip: bnd_assoc)
qed

text \<open>
  C29: On anything that fits into a packet \<open>ComputeChecksum\<close> is the Internet checksum: the complement of the
  one's complement sum of the words, although it adds in a signed integer and folds late.
\<close>

theorem checksum_is_internet_checksum:
  assumes "length data \<le> 65536"
  shows "ComputeChecksum data (of_nat (length data)) = Inr (internet_checksum data)"
  using assms by (rule checksum_eq)

theorem checksum_is_internet_checksum_witness:
  "ComputeChecksum [0x45, 0, 0, 20, 0xff] 5 = Inr (internet_checksum [0x45, 0, 0, 20, 0xff]) \<and>
   internet_checksum [0x45, 0, 0, 20, 0xff] = 0xeabb"
  using checksum_is_internet_checksum [of "[0x45, 0, 0, 20, 0xff]"]
  by (simp add: internet_checksum_def un16_def ones_fold_def)

section \<open>A checksum that is stored is verified\<close>

lemma words_sum_append: "even (length xs) \<Longrightarrow> words_sum (xs @ ys) = words_sum xs + words_sum ys"
  by (induction xs rule: words_sum.induct) simp_all

lemma stored_sum: "ones_fold (n + unat (NOT (of_nat (ones_fold n) :: u16))) = 65535"
proof -
  let ?f = "ones_fold n"
  have lt: "?f \<le> 65535" by (simp add: ones_fold_def Suc_le_eq)
  have "NOT (of_nat ?f :: u16) = 65535 - of_nat ?f" by (simp add: not_eq_complement)
  moreover have "unat (of_nat ?f :: u16) = ?f" using lt by (simp add: take_bit_nat_eq_self unsigned_of_nat)
  moreover from this have "(of_nat ?f :: u16) \<le> 65535" using lt by (simp add: word_le_nat_alt)
  ultimately have c: "unat (NOT (of_nat ?f :: u16)) = 65535 - ?f" by (simp add: unat_sub)
  show ?thesis
  proof (cases "n = 0")
    case False
    then have "n = 65535 * ((n - 1) div 65535) + ?f"
      using div_mult_mod_eq [of "n - 1" 65535] by (simp add: ones_fold_def)
    with lt have "n + (65535 - ?f) = 65535 * ((n - 1) div 65535) + 65535" by linarith
    then show ?thesis unfolding c by (simp add: ones_fold_def)
  qed (unfold c, simp add: ones_fold_def)
qed

lemma stored_checksum_verifies:
  assumes "even (length pre)"
  shows "internet_checksum (pre @ le16 (internet_checksum (pre @ [0, 0] @ post)) @ post) = 0"
proof -
  let ?n = "words_sum (pre @ [0, 0] @ post)"
  have "words_sum (pre @ le16 c @ post) = ?n + unat c" for c
    by (simp add: words_sum_append [OF assms] le16_def un16_le16) (simp add: un16_def)
  then have "ones_fold (words_sum (pre @ le16 (internet_checksum (pre @ [0, 0] @ post)) @ post)) = 65535"
    using stored_sum [of ?n] by (simp add: internet_checksum_def)
  then show ?thesis by (simp add: internet_checksum_def)
qed

end
