(* ===== verification/Router.thy ===== *)
theory Router
  imports Checksum
begin

text \<open>
  router.c: a stand-alone program that receives IP packets of protocol 112 on a raw socket, looks up the
  Ethernet address of their destination and sends them on, and a thread that broadcasts its presence. What
  a call of the system answers and what an allocation holds are arguments; the lines that only trace what
  happens are left out.
\<close>

section \<open>Sockets\<close>

definition CreateRawSocket :: "cint \<Rightarrow> cint res" where
  "CreateRawSocket r = (if r = -1 then Inl (ProcessExit (-1)) else Inr r)"

definition BindRawSocketToInterface :: "cint \<Rightarrow> cint \<Rightarrow> cint res" where
  "BindRawSocketToInterface r1 r2 =
     (if r1 = -1 then Inl (ProcessExit (-1))
      else if r2 = -1 then Inl (ProcessExit (-1)) else Inr 1)"

text \<open>What \<open>write\<close> returned for a packet of \<open>pkt_len\<close> bytes.\<close>

definition SendRawPacket :: "cint \<Rightarrow> cint \<Rightarrow> cint" where
  "SendRawPacket sent pkt_len = (if sent \<noteq> pkt_len then 0 else 1)"

section \<open>Headers\<close>

text \<open>The result of \<open>malloc\<close> is used unchecked; so is that of \<open>ether_aton\<close>.\<close>

definition CreateEthernetHeader_rt :: "string \<Rightarrow> string \<Rightarrow> u16 \<Rightarrow> u8 list option \<Rightarrow> u8 list res" where
  "CreateEthernetHeader_rt src_mac dst_mac protocol m =
     bnd (deref m) (\<lambda>eth.
     bnd (deref (ether_aton src_mac)) (\<lambda>mac.
     let eth = poke 6 mac eth in
     bnd (deref (ether_aton dst_mac)) (\<lambda>mac.
     let eth = poke 0 mac eth in
     Inr (poke 12 (be16 protocol) eth))))"

text \<open>The header on top of what the allocation held, before the checksum.\<close>

definition raw_ip_header :: "u8 list \<Rightarrow> u8 list \<Rightarrow> u8 list \<Rightarrow> u8 list" where
  "raw_ip_header saddr daddr ip =
     (let ip = poke 0 [0x45] ip;
          ip = poke 1 [0] ip;
          ip = poke 2 (be16 20) ip;
          ip = poke 4 (be16 111) ip;
          ip = poke 6 [0, 0] ip;
          ip = poke 8 [111] ip;
          ip = poke 9 [112] ip;
          ip = poke 12 saddr ip;
          ip = poke 16 daddr ip
      in poke 10 [0, 0] ip)"

definition CreateIPHeader_rt :: "string \<Rightarrow> string \<Rightarrow> u8 list option \<Rightarrow> u8 list res" where
  "CreateIPHeader_rt SRC_IP DST_IP m =
     bnd (deref m) (\<lambda>ip. Inr (raw_ip_header (inet_addr SRC_IP) (inet_addr DST_IP) ip))"

section \<open>Receiving\<close>

text \<open>
  \<open>ParseIpHeader\<close>: the destination of an IP packet of protocol 112, copied to an allocation of 20 bytes.
\<close>

definition ParseIpHeader :: "u8 list \<Rightarrow> cint \<Rightarrow> u8 list option \<Rightarrow> string option res" where
  "ParseIpHeader packet len m =
     (if un16 (packet ! 13) (packet ! 12) \<noteq> ETH_P_IP then Inr None
      else if len < 34 then Inr None
      else if get8 23 packet \<noteq> 112 then Inr None
      else bnd (deref m) (\<lambda>dstip. map_sum id Some (sprintf (length dstip) (inet_ntoa (peek 30 4 packet)))))"

definition strlen :: "u8 list \<Rightarrow> nat res" where
  "strlen s = (if has_nul s then Inr (length (cstr s)) else Inl OutOfBounds)"

section \<open>Forwarding\<close>

definition SRC_MAC :: string where "SRC_MAC = ''00:e0:4d:84:84:c8''"
definition SRC1_IP :: string where "SRC1_IP = ''192.168.100.22''"

definition IP_MAC :: "(string \<times> string) list" where
  "IP_MAC =
     [(''00:15:f2:3b:20:47'', ''172.16.101.6''),
      (''00:15:f2:3b:20:9c'', ''172.16.103.64''),
      (''00:15:f2:3b:1f:65'', ''172.16.101.7''),
      (''00:15:f2:3b:20:43'', ''172.16.101.5''),
      (''00:15:F2:3B:1F:13'', ''172.16.102.17''),
      (''ff:ff:ff:ff:ff:ff'', ''255.255.255.255''),
      (''00:e0:4d:84:84:c8'', ''192.168.1.6''),
      (''00:23:4d:4e:96:1c'', ''192.168.1.4''),
      (''00:1b:77:a7:86:f7'', ''192.168.1.3''),
      (''00:23:8b:08:1f:15'', ''192.168.1.10'')]"

text \<open>The search runs over 20 indexes of an array of ten; \<open>phy\<close> is kept when none fits.\<close>

fun find_mac :: "string \<Rightarrow> nat list \<Rightarrow> string \<Rightarrow> string res" where
  "find_mac ip [] phy = Inr phy"
| "find_mac ip (i # is) phy =
     (if i < length IP_MAC then
        if ip = snd (IP_MAC ! i) then Inr (fst (IP_MAC ! i)) else find_mac ip is phy
      else Inl OutOfBounds)"

text \<open>
  One round of the main loop for a packet that arrived; \<open>mem i\<close> is what the \<open>i\<close>-th allocation gives for
  its size. The result is what is written to the sending socket, or \<open>None\<close> for a packet that is ignored.
  The allocation for the packet has the size of the variable \<open>pktlen\<close>.
\<close>

definition sizeof_int :: nat where [simp]: "sizeof_int = 4"

definition route_packet :: "(nat \<Rightarrow> nat \<Rightarrow> u8 list option) \<Rightarrow> string \<Rightarrow> string \<Rightarrow> u8 list \<Rightarrow> u8 list option res" where
  "route_packet mem phy_src phy pkt =
     (let packet_buffer = poke 0 (take 2048 pkt) (replicate 2048 0); len = of_nat (length (take 2048 pkt)) in
      bnd (ParseIpHeader packet_buffer len (mem 0 20)) (\<lambda>ip_dst.
      case ip_dst of None \<Rightarrow> Inr None
      | Some ip_dst \<Rightarrow>
          let data = drop 34 packet_buffer in
          bnd (strlen data) (\<lambda>dlen.
          bnd (find_mac ip_dst [0..<20] phy) (\<lambda>phy.
          bnd (CreateEthernetHeader_rt phy_src phy ETH_P_IP (mem 1 14)) (\<lambda>eth1.
          bnd (CreateIPHeader_rt SRC1_IP ip_dst (mem 2 20)) (\<lambda>ip1.
          let pktlen = 34 + dlen in
          bnd (deref (mem 3 sizeof_int)) (\<lambda>packet.
          bnd (put eth1 (packet, 0)) (\<lambda>p.
          bnd (put ip1 p) (\<lambda>p.
          bnd (put (take dlen data) p) (\<lambda>(packet, _).
          Inr (Some (take pktlen packet))))))))))))"

section \<open>The broadcast\<close>

definition sizeof_VRRP_PKT :: nat where [simp]: "sizeof_VRRP_PKT = 10"

text \<open>The structure has a byte of padding before its checksum.\<close>

definition CreateVRRPPkt :: "u8 list option \<Rightarrow> u8 list res" where
  "CreateVRRPPkt m =
     bnd (deref m) (\<lambda>p.
     let p = poke 0 [2] p;
         p = poke 1 [1] p;
         p = poke 2 [10] p;
         p = poke 3 [100] p;
         p = poke 4 [10] p;
         p = poke 5 [0] p;
         p = poke 6 [1] p;
         p = poke 8 [0, 0] p
     in bnd (ComputeChecksum p (of_nat sizeof_VRRP_PKT)) (\<lambda>c. Inr (poke 8 (le16 c) p)))"

text \<open>
  What one round of \<open>SendBcastPacket\<close> sends: the bytes from the address of the pointer variable \<open>vrrppkt\<close>
  on, which has four. \<open>addr\<close> is the address the allocation got.
\<close>

definition bcast_payload :: "u32 \<Rightarrow> u8 list option \<Rightarrow> u8 list res" where
  "bcast_payload addr m = bnd (CreateVRRPPkt m) (\<lambda>_. fetch 0 sizeof_VRRP_PKT (le32 addr))"

section \<open>What the router does\<close>

lemma mac_bytes_length: "mac_bytes n s = Some b \<Longrightarrow> length b = n"
  by (induction n arbitrary: s b) (auto split: option.splits)

lemma ether_aton_length: "ether_aton s = Some b \<Longrightarrow> length b = 6"
  by (simp add: ether_aton_def mac_bytes_length)

lemma CreateEthernetHeader_rt_eq:
  assumes "ether_aton src = Some s" and "ether_aton dst = Some d" and "length m = 14"
  shows "CreateEthernetHeader_rt src dst proto (Some m) = Inr (d @ s @ be16 proto)"
proof -
  have "length s = 6" "length d = 6" using assms ether_aton_length by auto
  with assms show ?thesis by (simp add: CreateEthernetHeader_rt_def deref_def poke_def be16_def)
qed

definition mem_ok :: "(nat \<Rightarrow> nat \<Rightarrow> u8 list option) \<Rightarrow> bool" where
  "mem_ok mem \<longleftrightarrow> (\<forall>i n. \<exists>b. mem i n = Some b \<and> length b = n)"

lemma mem_okE: "mem_ok mem \<Longrightarrow> (\<And>b. mem i n = Some b \<Longrightarrow> length b = n \<Longrightarrow> thesis) \<Longrightarrow> thesis"
  by (auto simp: mem_ok_def)

definition mac_of :: "string \<Rightarrow> string option" where
  "mac_of ip = map_option fst (List.find (\<lambda>e. ip = snd e) IP_MAC)"

lemma find_mac_eq:
  "i \<le> length IP_MAC \<Longrightarrow> length IP_MAC < n \<Longrightarrow> find_mac ip [i..<n] phy =
     (case List.find (\<lambda>e. ip = snd e) (drop i IP_MAC) of None \<Rightarrow> Inl OutOfBounds | Some e \<Rightarrow> Inr (fst e))"
proof (induction i rule: inc_induct)
  case base
  then show ?case by (simp add: upt_conv_Cons)
next
  case (step i)
  then show ?case by (auto simp: upt_conv_Cons Cons_nth_drop_Suc [symmetric])
qed

lemma find_mac_all: "find_mac ip [0..<20] phy = (case mac_of ip of None \<Rightarrow> Inl OutOfBounds | Some m \<Rightarrow> Inr m)"
  using find_mac_eq [of 0 20 ip phy] by (simp add: IP_MAC_def mac_of_def option.case_eq_if option.map_sel)

lemma mac_of_valid: "mac_of ip = Some m \<Longrightarrow> \<exists>b. ether_aton m = Some b"
proof -
  have "list_all (\<lambda>e. ether_aton (fst e) \<noteq> None) IP_MAC"
    by (simp add: IP_MAC_def ether_aton_unfold mac_byte_def digit_val_def isspace_def)
  moreover assume "mac_of ip = Some m"
  ultimately show ?thesis by (auto simp: mac_of_def find_Some_iff list_all_length) (metis fst_conv)
qed

text \<open>The packets the router wants to forward, and their destination.\<close>

definition routable :: "u8 list \<Rightarrow> bool" where
  "routable pkt \<longleftrightarrow> 34 \<le> length pkt \<and> un16 (pkt ! 13) (pkt ! 12) = ETH_P_IP \<and> pkt ! 23 = 112"

definition dst_of :: "u8 list \<Rightarrow> string" where
  "dst_of pkt = inet_ntoa (peek 30 4 pkt)"

lemma packet_buffer:
  assumes "length pkt < 2048"
  shows "poke 0 (take 2048 pkt) (replicate 2048 0) = pkt @ replicate (2048 - length pkt) 0"
  using assms by (simp add: poke_def)

lemma short_len: "n < 2048 \<Longrightarrow> (of_nat n :: cint) < 34 \<longleftrightarrow> n < 34"
  by (simp add: word_less_nat_alt unsigned_of_nat take_bit_nat_eq_self)

lemma parse_ip_header:
  assumes "length pkt < 2048" and "length m = 20"
  shows "ParseIpHeader (pkt @ replicate (2048 - length pkt) 0) (of_nat (length pkt)) (Some m) =
    Inr (if routable pkt then Some (dst_of pkt) else None)"
proof (cases "length pkt < 34")
  case True
  with assms(1) show ?thesis by (simp add: ParseIpHeader_def short_len routable_def)
next
  case False
  then have n: "(pkt @ z) ! i = pkt ! i" if "i < 34" for z i using that by (simp add: nth_append)
  have "sprintf 20 (dst_of pkt) = Inr (dst_of pkt)"
    using length_dotted [of "peek 30 4 pkt"] by (simp add: sprintf_def dst_of_def)
  with False assms show ?thesis
    by (simp add: ParseIpHeader_def short_len routable_def n get8_def deref_def dst_of_def peek_append_left)
qed

text \<open>
  C31: The router forwards nothing. A packet that is not IP of protocol 112 is ignored; for every other
  the search for the destination's Ethernet address leaves its table unless the table lists it, and
  then the packet is copied to an allocation of four bytes, which overflows with the Ethernet header.
\<close>

theorem router_never_forwards:
  assumes "mem_ok mem" and "ether_aton phy_src \<noteq> None" and "length pkt < 2048"
  shows "route_packet mem phy_src phy pkt =
    (if \<not> routable pkt then Inr None
     else case mac_of (dst_of pkt) of None \<Rightarrow> Inl OutOfBounds | Some _ \<Rightarrow> Inl BufferOverflow)"
proof -
  obtain b0 b1 b2 b3 where b: "mem 0 20 = Some b0" "length b0 = 20" "mem (Suc 0) 14 = Some b1" "length b1 = 14"
    "mem 2 20 = Some b2" "mem 3 sizeof_int = Some b3" "length b3 = 4"
    using assms(1) unfolding mem_ok_def by (metis sizeof_int_def)
  obtain s where s: "ether_aton phy_src = Some s" using assms(2) by auto
  have l: "take 2048 pkt = pkt" using assms(3) by simp
  have "strlen (drop 34 (pkt @ replicate (2048 - length pkt) 0)) = Inr n \<Longrightarrow> True" for n by simp
  have "0 \<in> set (drop 34 (pkt @ replicate (2048 - length pkt) (0 :: u8)))"
    using assms(3) by (cases "length pkt < 34") auto
  then obtain n where n: "strlen (drop 34 (pkt @ replicate (2048 - length pkt) 0)) = Inr n"
    by (simp add: strlen_def has_nul_def)
  show ?thesis
  proof (cases "mac_of (dst_of pkt)")
    case None
    then show ?thesis
      by (simp add: route_packet_def packet_buffer [OF assms(3), unfolded l] l Let_def b parse_ip_header [OF assms(3)] n
          find_mac_all del: sizeof_int_def drop_append)
  next
    case (Some m)
    obtain d where d: "ether_aton m = Some d" using mac_of_valid [OF Some] by blast
    have "length s = 6" "length d = 6" using s d ether_aton_length by auto
    with Some show ?thesis
      by (simp add: route_packet_def packet_buffer [OF assms(3), unfolded l] l Let_def b parse_ip_header [OF assms(3)] n
          find_mac_all CreateEthernetHeader_rt_eq [OF s d] CreateIPHeader_rt_def deref_def put_def del: sizeof_int_def drop_append)
  qed
qed

definition demo_frame :: "u8 list \<Rightarrow> u8 list" where
  "demo_frame daddr = replicate 12 0 @ [8, 0] @ [0x45] @ replicate 8 0 @ [112] @ replicate 6 0 @ daddr @ [72, 105]"

theorem router_never_forwards_witness:
  "route_packet (\<lambda>i n. Some (replicate n 0)) SRC_MAC [] (demo_frame [172, 16, 101, 6]) = Inl BufferOverflow \<and>
   route_packet (\<lambda>i n. Some (replicate n 0)) SRC_MAC [] (demo_frame [10, 0, 0, 1]) = Inl OutOfBounds"
proof -
  have m: "mem_ok (\<lambda>i n. Some (replicate n 0))" by (simp add: mem_ok_def)
  have s: "ether_aton SRC_MAC \<noteq> None"
    by (simp add: SRC_MAC_def ether_aton_unfold mac_byte_def digit_val_def isspace_def)
  have r: "routable (demo_frame [a, b, c, d])" for a b c d
    by (simp add: routable_def demo_frame_def nth_append ETH_P_IP_def un16_def)
  have "dst_of (demo_frame [a, b, c, d]) = dotted [a, b, c, d]" for a b c d
    by (simp add: dst_of_def demo_frame_def peek_def)
  then have "mac_of (dst_of (demo_frame [172, 16, 101, 6])) = Some ''00:15:f2:3b:20:47''"
    "mac_of (dst_of (demo_frame [10, 0, 0, 1])) = None"
    by (simp_all add: dotted_def nat_dec.simps mac_of_def IP_MAC_def char_of_eq_iff)
  with router_never_forwards [OF m s, of "demo_frame [172, 16, 101, 6]" "[]"]
    router_never_forwards [OF m s, of "demo_frame [10, 0, 0, 1]" "[]"] r
  show ?thesis by (simp add: demo_frame_def)
qed

text \<open>
  C32: The VRRP packet of the router's broadcast verifies: the Internet checksum of its ten bytes, with the one
  the router stored, is 0. But what is sent is not that packet: the bytes are read from the address of the
  pointer to it, past the four bytes the pointer has.
\<close>

theorem broadcast_spec:
  assumes "length m = sizeof_VRRP_PKT"
  shows "(\<exists>p. CreateVRRPPkt (Some m) = Inr p \<and> take 7 p = [2, 1, 10, 100, 10, 0, 1] \<and>
      ComputeChecksum p (of_nat sizeof_VRRP_PKT) = Inr 0) \<and>
    bcast_payload addr (Some m) = Inl OutOfBounds"
proof -
  define h where "h = [2, 1, 10, 100, 10, 0, 1, m ! 7]"
  obtain a0 a1 a2 a3 a4 a5 a6 a7 a8 a9 where m: "m = [a0, a1, a2, a3, a4, a5, a6, a7, a8, a9]"
    using assms by (auto simp: numeral_eq_Suc length_Suc_conv)
  have p: "poke 8 [0, 0] (poke 6 [1] (poke 5 [0] (poke 4 [10] (poke 3 [100] (poke 2 [10] (poke 1 [1] (poke 0 [2] m)))))))
      = h @ [0, 0]" by (simp add: poke_def m h_def)
  have "poke 8 (le16 c) (h @ [0, 0]) = h @ le16 c" for c by (simp add: poke_def h_def)
  moreover have "ComputeChecksum (h @ [0, 0]) (of_nat sizeof_VRRP_PKT) = Inr (internet_checksum (h @ [0, 0]))"
    using checksum_eq [of "h @ [0, 0]"] by (simp add: h_def)
  ultimately have e: "CreateVRRPPkt (Some m) = Inr (h @ le16 (internet_checksum (h @ [0, 0])))"
    by (simp only: CreateVRRPPkt_def deref_def option.case bnd_simps Let_def p)
  have "ComputeChecksum (h @ le16 (internet_checksum (h @ [0, 0]))) 10 = Inr 0"
    using checksum_eq [of "h @ le16 (internet_checksum (h @ [0, 0]))"] stored_checksum_verifies [of h "[]"]
    by (simp add: h_def)
  then show ?thesis by (simp add: bcast_payload_def e fetch_def) (simp add: h_def)
qed

theorem broadcast_spec_witness:
  "(\<exists>p. CreateVRRPPkt (Some (replicate 10 7)) = Inr p \<and> take 7 p = [2, 1, 10, 100, 10, 0, 1] \<and>
     ComputeChecksum p 10 = Inr 0) \<and> bcast_payload 0x804a008 (Some (replicate 10 7)) = Inl OutOfBounds"
  using broadcast_spec [of "replicate 10 7"] by simp

end
