(* ===== verification/Sender.thy ===== *)
theory Sender
  imports Router
begin

unbundle bit_operations_syntax

text \<open>
  sender.c: a program that sends a message typed in by the user to the router of its network. A second
  thread listens for the router's broadcast and keeps the router's Ethernet address in \<open>dst_eth\<close>.
\<close>

section \<open>Headers\<close>

text \<open>\<open>CreateRawSocket\<close> and \<open>BindRawSocketToInterface\<close> are those of router.c.\<close>

definition CreateRawSocket_snd :: "cint \<Rightarrow> cint res" where
  "CreateRawSocket_snd sd = (if sd = -1 then Inl (ProcessExit (-1)) else Inr sd)"

definition BindRawSocketToInterface_snd :: "cint \<Rightarrow> cint \<Rightarrow> cint res" where
  "BindRawSocketToInterface_snd r1 r2 =
     (if r1 = -1 then Inl (ProcessExit (-1))
      else if r2 = -1 then Inl (ProcessExit (-1)) else Inr 1)"

text \<open>The destination is read under \<open>dest_eth_lock\<close>; the calls are those of router.c.\<close>

definition CreateEthernetHeader_snd :: "string \<Rightarrow> string \<Rightarrow> u16 \<Rightarrow> u8 list option \<Rightarrow> u8 list res" where
  "CreateEthernetHeader_snd src dst protocol m =
     bnd (deref m) (\<lambda>eth.
     bnd (deref (ether_aton src)) (\<lambda>mac.
     let eth = poke 6 mac eth in
     bnd (deref (ether_aton dst)) (\<lambda>mac.
     let eth = poke 0 mac eth in
     Inr (poke 12 (be16 protocol) eth))))"

definition SRC_ETHER_ADDR :: string where "SRC_ETHER_ADDR = ''aa:aa:aa:aa:aa:aa''"
definition SRC_IP :: string where "SRC_IP = ''127.0.0.1''"
definition NO_ROUTER :: string where "NO_ROUTER = ''00:00:00:00:00:00''"

text \<open>\<open>ihl * 4\<close> bytes are summed.\<close>

definition CreateIP :: "string \<Rightarrow> u8 list option \<Rightarrow> u8 list res" where
  "CreateIP dst m =
     bnd (deref m) (\<lambda>ip.
     let ip = poke 0 [0x45] ip;
         ip = poke 1 [0] ip;
         ip = poke 2 (be16 20) ip;
         ip = poke 4 (be16 111) ip;
         ip = poke 6 [0, 0] ip;
         ip = poke 8 [111] ip;
         ip = poke 9 [112] ip;
         ip = poke 12 (inet_addr SRC_IP) ip;
         ip = poke 16 (inet_addr dst) ip;
         ip = poke 10 [0, 0] ip
     in bnd (ComputeChecksum ip (ucast (get8 0 ip AND 0xF) * 4)) (\<lambda>c. Inr (poke 10 (le16 c) ip)))"

section \<open>Sending\<close>

text \<open>
  One round of the main loop for a line and an address the user typed. \<open>heard\<close> is what \<open>dst_eth\<close> holds a
  second after it was reset. \<open>None\<close> means that no router was heard. A write past the allocation \<open>mem 2\<close> gives, which
  the program requests with four bytes, is undefined and ends the model's round with a fault; what is sent is the
  result for an allocation with more room.
\<close>

definition send_message ::
  "(nat \<Rightarrow> nat \<Rightarrow> u8 list option) \<Rightarrow> string \<Rightarrow> string \<Rightarrow> string \<Rightarrow> u8 list option res" where
  "send_message mem line addr heard =
     bnd (sprintf 1000 line) (\<lambda>data.
     bnd (sprintf 100 addr) (\<lambda>dest.
     bnd (CreateIP dest (mem 0 20)) (\<lambda>ip.
     if heard = NO_ROUTER then Inr None
     else
       bnd (CreateEthernetHeader_snd SRC_ETHER_ADDR heard ETH_P_IP (mem 1 14)) (\<lambda>eth.
       let pktlen = 34 + length data in
       bnd (deref (mem 2 sizeof_int)) (\<lambda>packet.
       bnd (put eth (packet, 0)) (\<lambda>p.
       bnd (put ip p) (\<lambda>p.
       bnd (put (bytes_of data) p) (\<lambda>(packet, _).
       Inr (Some (take pktlen packet))))))))))"

section \<open>Listening for the router\<close>

definition GetMasterEthAddr :: "u8 list \<Rightarrow> string" where
  "GetMasterEthAddr pkt = ether_str (peek 6 6 pkt)"

definition IPDstAddr :: "u8 list \<Rightarrow> u8 list option \<Rightarrow> string res" where
  "IPDstAddr packet m = bnd (deref m) (\<lambda>dstip. sprintf (length dstip) (inet_ntoa (peek 30 4 packet)))"

text \<open>The port as it lies in the packet, without \<open>ntohs\<close>.\<close>

definition TCP_Port :: "u8 list \<Rightarrow> cint" where
  "TCP_Port packet =
     (let ihl = unat (get8 14 packet AND 0xF); tcp = 14 + ihl * 4
      in ucast (un16 (packet ! (tcp + 2)) (packet ! (tcp + 3))))"

text \<open>
  One round of \<open>acpt_dest_eth\<close>. Up to 4096 bytes are received into an array of 2048, on top of what the last
  packet left there. \<open>None\<close> stands for an error of \<open>recvfrom\<close>.
\<close>

definition PORT :: cint where "PORT = 9099"

definition acpt_dest_eth ::
  "u8 list option \<Rightarrow> u8 list option \<Rightarrow> u8 list \<times> string \<Rightarrow> (u8 list \<times> string) res" where
  "acpt_dest_eth m pkt s =
     (let (packet_buffer, dst_eth) = s in
      case pkt of None \<Rightarrow> Inr s
      | Some p \<Rightarrow>
          let p = take 4096 p in
          if 2048 < length p then Inl BufferOverflow
          else
            let packet_buffer = poke 0 p packet_buffer in
            bnd (IPDstAddr packet_buffer m) (\<lambda>dst_ip.
            if dst_ip = ''192.168.53.255'' then
              if TCP_Port packet_buffer = PORT then
                bnd (sprintf 25 (GetMasterEthAddr packet_buffer)) (\<lambda>a. Inr (packet_buffer, a))
              else Inr (packet_buffer, dst_eth)
            else Inr (packet_buffer, dst_eth)))"

section \<open>What the sender does\<close>

lemma length_inet_addr [simp]: "length (inet_addr s) = 4"
proof -
  have be: "length (be_bytes k n) = k" for k n by (induction k n rule: be_bytes.induct) simp_all
  have "inet_aton k bs s = Some r \<Longrightarrow> length r = length bs + Suc k" for k bs s r
  proof (induction k bs s rule: inet_aton.induct)
    case (1 k bs s)
    show ?case
    proof (cases k)
      case 0
      with 1(2) show ?thesis by (subst (asm) inet_aton.simps) (auto split: if_splits prod.splits simp: be)
    next
      case (Suc k')
      with 1 show ?thesis
        by (subst (asm) (2) inet_aton.simps) (auto split: if_splits prod.splits simp: be)
    qed
  qed
  from this [of 3 "[]" s] show ?thesis
    by (auto simp: inet_addr_def INADDR_NONE_def split: option.split)
qed

lemma CreateIP_eq:
  assumes "length m = 20"
  shows "\<exists>ip. CreateIP dst (Some m) = Inr ip \<and> length ip = 20 \<and> take 10 ip = [0x45, 0, 0, 20, 0, 111, 0, 0, 111, 112] \<and>
    peek 16 4 ip = inet_addr dst \<and> internet_checksum ip = 0"
proof -
  obtain d0 d1 d2 d3 where d: "inet_addr dst = [d0, d1, d2, d3]"
    using length_inet_addr [of dst] by (auto simp: numeral_eq_Suc length_Suc_conv simp del: length_inet_addr)
  obtain s0 s1 s2 s3 where s: "inet_addr SRC_IP = [s0, s1, s2, s3]"
    using length_inet_addr [of SRC_IP] by (auto simp: numeral_eq_Suc length_Suc_conv simp del: length_inet_addr)
  define pre post where "pre = [0x45, 0, 0, 20, 0, 111, 0, 0, 111, 112 :: u8]"
    and "post = [s0, s1, s2, s3, d0, d1, d2, d3]"
  note pp = pre_def post_def
  obtain m0 m1 m2 m3 m4 m5 m6 m7 m8 m9 n0 n1 n2 n3 n4 n5 n6 n7 n8 n9
    where m: "m = [m0, m1, m2, m3, m4, m5, m6, m7, m8, m9, n0, n1, n2, n3, n4, n5, n6, n7, n8, n9]"
    using assms by (auto simp: numeral_eq_Suc length_Suc_conv)
  have p: "poke 10 [0, 0] (poke 16 [d0, d1, d2, d3] (poke 12 [s0, s1, s2, s3] (poke 9 [112] (poke 8 [111] (poke 6 [0, 0]
      (poke 4 (be16 111) (poke 2 (be16 20) (poke 1 [0] (poke 0 [0x45] m))))))))) = pre @ [0, 0] @ post"
    by (simp add: poke_def m be16_def pp)
  have c: "poke 10 (le16 c) (pre @ [0, 0] @ post) = pre @ le16 c @ post" for c by (simp add: poke_def pp)
  have "ucast (get8 0 (pre @ [0, 0] @ post) AND 0xF) * 4 = (of_nat (length (pre @ [0, 0] @ post)) :: cint)"
    by (simp add: pp get8_def)
  moreover have "ComputeChecksum (pre @ [0, 0] @ post) (of_nat (length (pre @ [0, 0] @ post))) =
      Inr (internet_checksum (pre @ [0, 0] @ post))" by (rule checksum_eq) (simp add: pp)
  ultimately have "CreateIP dst (Some m) = Inr (pre @ le16 (internet_checksum (pre @ [0, 0] @ post)) @ post)"
    by (simp only: CreateIP_def deref_def option.case bnd_simps Let_def d s p c)
  moreover have "internet_checksum (pre @ le16 (internet_checksum (pre @ [0, 0] @ post)) @ post) = 0"
    by (rule stored_checksum_verifies) (simp add: pre_def)
  ultimately show ?thesis by (simp add: d) (simp add: pp peek_def)
qed

text \<open>
  C34: The IP header that the sender builds carries a correct checksum: summed with it the twenty bytes give 0.
  Without a router the round ends. With one the message is built in an allocation of four bytes, and that
  always writes past its end, which is undefined; the model stops there. What the program goes on to send if
  the memory behind the allocation happens to be its to use (\<open>room\<close> is all of it) is the frame for the router: the
  two headers and the line that was typed.
\<close>

theorem sender_spec:
  assumes "mem_ok mem" and "length line < 1000" and "length addr < 100"
    and "heard \<noteq> NO_ROUTER \<Longrightarrow> ether_aton heard \<noteq> None"
  shows "\<exists>ip. CreateIP addr (mem 0 20) = Inr ip \<and> peek 16 4 ip = inet_addr addr \<and> ComputeChecksum ip 20 = Inr 0 \<and>
    send_message mem line addr heard = (if heard = NO_ROUTER then Inr None else Inl BufferOverflow) \<and>
    (heard \<noteq> NO_ROUTER \<longrightarrow> (\<forall>room. 34 + length line \<le> length room \<longrightarrow>
      send_message (\<lambda>i n. if i = 2 then Some room else mem i n) line addr heard =
        Inr (Some (the (ether_aton heard) @ replicate 6 0xaa @ be16 ETH_P_IP @ ip @ bytes_of line))))"
proof -
  obtain b0 b1 b2 where b: "mem 0 20 = Some b0" "length b0 = 20" "mem (Suc 0) 14 = Some b1" "length b1 = 14"
    "mem 2 sizeof_int = Some b2" "length b2 = 4"
    using assms(1) unfolding mem_ok_def by (metis sizeof_int_def)
  obtain ip where ip: "CreateIP addr (Some b0) = Inr ip" "length ip = 20" "peek 16 4 ip = inet_addr addr"
    "internet_checksum ip = 0" using CreateIP_eq [OF b(2)] by blast
  have c: "ComputeChecksum ip 20 = Inr 0" using checksum_eq [of ip] ip by simp
  have none: "send_message mem line addr heard = Inr None" if "heard = NO_ROUTER"
    using that assms b ip by (simp add: send_message_def sprintf_def)
  have router: "send_message mem line addr heard = Inl BufferOverflow \<and>
      (34 + length line \<le> length room \<longrightarrow> send_message (\<lambda>i n. if i = 2 then Some room else mem i n) line addr heard =
        Inr (Some (the (ether_aton heard) @ replicate 6 0xaa @ be16 ETH_P_IP @ ip @ bytes_of line)))"
    if h: "heard \<noteq> NO_ROUTER" for room
  proof -
    obtain d where d: "ether_aton heard = Some d" using assms(4) h by auto
    have src: "ether_aton SRC_ETHER_ADDR = Some (replicate 6 0xaa)"
      by (simp add: SRC_ETHER_ADDR_def ether_aton_unfold mac_byte_def digit_val_def isspace_def numeral_eq_Suc)
    have e: "CreateEthernetHeader_snd SRC_ETHER_ADDR heard ETH_P_IP (Some b1) = Inr (d @ replicate 6 0xaa @ be16 ETH_P_IP)"
      using CreateEthernetHeader_rt_eq [OF src d b(4)] by (simp only: CreateEthernetHeader_snd_def CreateEthernetHeader_rt_def)
    have l: "length d = 6" "length (be16 ETH_P_IP) = 2" using ether_aton_length [OF d] by (simp_all add: be16_def)
    show ?thesis
      using h assms b ip l e d
      by (simp add: send_message_def sprintf_def deref_def put_def poke_def bytes_of_def del: sizeof_int_def) arith
  qed
  show ?thesis using none router c ip b by auto
qed

theorem sender_spec_witness:
  "send_message (\<lambda>i n. Some (replicate n 0)) ''hello'' ''172.16.101.6'' (ether_str [0, 1, 2, 3, 4, 5]) = Inl BufferOverflow \<and>
   send_message (\<lambda>i n. Some (replicate n 0)) ''hello'' ''172.16.101.6'' NO_ROUTER = Inr None \<and>
   (\<exists>ip. send_message (\<lambda>i n. if i = 2 then Some (replicate 64 0) else Some (replicate n 0)) ''hello'' ''172.16.101.6''
     (ether_str [0, 1, 2, 3, 4, 5]) = Inr (Some ([0, 1, 2, 3, 4, 5] @ replicate 6 0xaa @ [8, 0] @ ip @ [104, 101, 108, 108, 111])))"
proof -
  have m: "mem_ok (\<lambda>i n. Some (replicate n 0))" by (simp add: mem_ok_def)
  have a: "ether_aton (ether_str [0, 1, 2, 3, 4, 5]) = Some [0, 1, 2, 3, 4, 5]" by (simp add: ether_aton_str)
  moreover have "ether_str [0, 1, 2, 3, 4, 5] \<noteq> NO_ROUTER"
    by (simp add: ether_str_def NO_ROUTER_def hex_str_def hex_char_def)
  moreover have "be16 ETH_P_IP = [8, 0]" "bytes_of ''hello'' = [104, 101, 108, 108, 111]"
    by (simp_all add: be16_def ETH_P_IP_def bytes_of_def)
  moreover have "34 + length ''hello'' \<le> length (replicate 64 (0 :: u8))" by simp
  ultimately show ?thesis
    using sender_spec [OF m, of "''hello''" "''172.16.101.6''" "ether_str [0, 1, 2, 3, 4, 5]"]
      sender_spec [OF m, of "''hello''" "''172.16.101.6''" NO_ROUTER] by fastforce
qed

text \<open>The broadcasts of the router as they arrive: to 192.168.53.255, port 9099 in the byte order of the machine.\<close>

definition is_broadcast :: "u8 list \<Rightarrow> bool" where
  "is_broadcast p \<longleftrightarrow> 38 \<le> length p \<and> p ! 14 = 0x45 \<and> peek 30 4 p = [192, 168, 53, 255] \<and> peek 36 2 p = le16 9099"

text \<open>
  C33: A sender that hears the router's broadcast learns its Ethernet address: the text kept in \<open>dst_eth\<close>, put
  into the next Ethernet header, gives back the source address of the broadcast. A frame of more than
  2048 bytes overruns the array it is received into.
\<close>

theorem sender_learns_router:
  assumes "length buf = 2048" and "length m = 25" and "length e = 14" and "ether_aton src = Some s"
  shows "(is_broadcast p \<longrightarrow> length p \<le> 2048 \<longrightarrow>
      returns (acpt_dest_eth (Some m) (Some p) (buf, d)) (\<lambda>(buf', a).
        CreateEthernetHeader_snd src a proto (Some e) = Inr (peek 6 6 p @ s @ be16 proto))) \<and>
    (2048 < length p \<longrightarrow> acpt_dest_eth (Some m) (Some p) (buf, d) = Inl BufferOverflow)"
proof (intro conjI impI)
  assume "2048 < length p"
  then show "acpt_dest_eth (Some m) (Some p) (buf, d) = Inl BufferOverflow" by (simp add: acpt_dest_eth_def)
next
  assume p: "is_broadcast p" and l: "length p \<le> 2048"
  let ?b = "poke 0 p buf"
  have b: "?b = p @ drop (length p) buf" by (simp add: poke_def)
  have len: "38 \<le> length p" using p by (simp add: is_broadcast_def)
  have pk: "peek i n ?b = peek i n p" if "i + n \<le> 38" for i n
    unfolding b using that len by (intro peek_append_left) simp
  have nth: "?b ! i = p ! i" if "i < 38" for i unfolding b using that len by (simp add: nth_append)
  have "TCP_Port ?b = ucast (un16 (?b ! 36) (?b ! 37))"
    using p by (simp add: TCP_Port_def get8_def nth is_broadcast_def)
  also have "un16 (?b ! 36) (?b ! 37) = 9099"
  proof -
    have "peek 36 2 p ! 0 = p ! 36" "peek 36 2 p ! 1 = p ! 37" using len by (simp_all add: peek_def)
    then have "p ! 36 = le16 9099 ! 0" "p ! 37 = le16 9099 ! 1" using p by (simp_all add: is_broadcast_def)
    moreover have "un16 (le16 9099 ! 0) (le16 9099 ! 1) = 9099"
      by (simp only: le16_def nth_Cons_0 nth_Cons_Suc One_nat_def un16_le16)
    ultimately show ?thesis by (simp add: nth del: nth_Cons)
  qed
  finally have port: "TCP_Port ?b = PORT" by (simp add: PORT_def)
  have "IPDstAddr ?b (Some m) = Inr ''192.168.53.255''"
    using p assms(2) by (simp add: IPDstAddr_def deref_def pk is_broadcast_def dotted_def nat_dec.simps sprintf_def char_of_eq_iff)
  moreover have h: "length (peek 6 6 p) = 6" using len by simp
  have le: "length (ether_str a) \<le> 17" for a by (simp add: ether_str_def hex_str_def)
  have "sprintf 25 (GetMasterEthAddr ?b) = Inr (ether_str (peek 6 6 p))"
    using le [of "peek 6 6 p"] by (simp add: sprintf_def GetMasterEthAddr_def pk)
  ultimately have e: "acpt_dest_eth (Some m) (Some p) (buf, d) = Inr (?b, ether_str (peek 6 6 p))"
    using l port by (simp add: acpt_dest_eth_def)
  show "returns (acpt_dest_eth (Some m) (Some p) (buf, d)) (\<lambda>(buf', a).
        CreateEthernetHeader_snd src a proto (Some e) = Inr (peek 6 6 p @ s @ be16 proto))"
    using CreateEthernetHeader_rt_eq [OF assms(4) ether_aton_str [OF h] assms(3)]
    unfolding e by (simp add: CreateEthernetHeader_snd_def CreateEthernetHeader_rt_def)
qed

definition demo_broadcast :: "u8 list" where
  "demo_broadcast = replicate 6 255 @ [0, 224, 77, 132, 132, 200] @ [8, 0, 0x45] @ replicate 15 0 @ [192, 168, 53, 255] @
     [0, 0] @ le16 9099"

theorem sender_learns_router_witness:
  "returns (acpt_dest_eth (Some (replicate 25 0)) (Some demo_broadcast) (replicate 2048 0, [])) (\<lambda>(buf', a).
     CreateEthernetHeader_snd (ether_str [1, 2, 3, 4, 5, 6]) a 0x800 (Some (replicate 14 0)) =
       Inr ([0, 224, 77, 132, 132, 200] @ [1, 2, 3, 4, 5, 6] @ be16 0x800))"
proof -
  have "is_broadcast demo_broadcast" by (simp add: is_broadcast_def demo_broadcast_def peek_def le16_def nth_append)
  moreover have "ether_aton (ether_str [1, 2, 3, 4, 5, 6]) = Some [1, 2, 3, 4, 5, 6]" by (simp add: ether_aton_str)
  ultimately show ?thesis
    using sender_learns_router [of "replicate 2048 0" "replicate 25 0" "replicate 14 0" "ether_str [1, 2, 3, 4, 5, 6]"
      "[1, 2, 3, 4, 5, 6]" demo_broadcast "[]" "0x800"]
    by (simp add: demo_broadcast_def peek_def)
qed

end
