(* ===== verification/Receiver.thy ===== *)
theory Receiver
  imports Router
begin

text \<open>
  receiver.c: a program that prints what reaches an interface as IP packets of protocol 112, other than
  the advertisements themselves. What it prints is a list of lines.
\<close>

section \<open>Sockets\<close>

definition createsock :: "cint \<Rightarrow> cint res" where
  "createsock rs = (if rs = -1 then Inl (ProcessExit (-1)) else Inr rs)"

definition bindsock :: "cint \<Rightarrow> cint \<Rightarrow> cint res" where
  "bindsock r1 r2 =
     (if r1 = -1 then Inl (ProcessExit (-1))
      else if r2 = -1 then Inl (ProcessExit (-1)) else Inr 1)"

section \<open>Printing headers\<close>

definition upper_hex :: "nat \<Rightarrow> char" where
  "upper_hex n = (if n < 10 then char_of (48 + n) else char_of (55 + n))"

definition printhdr :: "string \<Rightarrow> u8 list \<Rightarrow> string" where
  "printhdr mesg p = mesg @ concat (map (\<lambda>b. [upper_hex (unat b div 16), upper_hex (unat b mod 16), CHR '' '']) p)"

definition parseethhdr :: "u8 list \<Rightarrow> cint \<Rightarrow> string list" where
  "parseethhdr packet len =
     (if 14 < len then
        [printhdr ''Destination MAC: '' (peek 0 6 packet), printhdr ''Source MAC: '' (peek 6 6 packet),
         printhdr ''Protocol: '' (peek 12 2 packet)]
      else [''Packet size too small !''])"

text \<open>The destination, unless it is the group of the advertisements, and the lines that were printed.\<close>

definition parseiphdr :: "u8 list \<Rightarrow> cint \<Rightarrow> u8 list option \<Rightarrow> (string option \<times> string list) res" where
  "parseiphdr packet len m =
     (if un16 (packet ! 13) (packet ! 12) = ETH_P_IP then
        if 34 \<le> len then
          if get8 23 packet = 112 then
            let in1 = peek 30 4 packet; in2 = peek 26 4 packet in
            bnd (deref m) (\<lambda>dstip.
            bnd (sprintf (length dstip) (inet_ntoa in1)) (\<lambda>dstip.
            if inet_ntoa in1 \<noteq> ''224.0.0.18'' then
              Inr (Some dstip,
                [''Dest IP address: '' @ inet_ntoa in1, ''Source IP address: '' @ inet_ntoa in2,
                 ''TTL = '' @ dec_str (ucast (get8 22 packet))] @ parseethhdr packet len)
            else Inr (None, [])))
          else Inr (None, [])
        else Inr (None, [''IP packet does not have full header''])
      else Inr (None, []))"

section \<open>The main loop\<close>

definition packet_rule :: string where
  "packet_rule = ''-----------------------------------------------------------------''"

text \<open>One round on what \<open>recvfrom\<close> delivers, \<open>None\<close> for an error.\<close>

definition receive_packet :: "u8 list option \<Rightarrow> u8 list option \<Rightarrow> string list res" where
  "receive_packet m pkt =
     (case pkt of None \<Rightarrow> Inl (ProcessExit (-1))
      | Some p \<Rightarrow>
          let p = take 2048 p; packet_buffer = poke 0 p (replicate 2048 0); len = of_nat (length p) in
          bnd (parseiphdr packet_buffer len m) (\<lambda>(dst, lines).
          if dst = None then Inr lines
          else
            let data = drop 34 packet_buffer in
            bnd (strlen data) (\<lambda>dlen.
            Inr (lines @ [''Received packet of length : '' @ dec_str len,
              ''Data : '' @ str_of (take dlen data), packet_rule]))))"

section \<open>What the receiver shows\<close>

lemma cstr_take: "cstr (take (length (cstr xs)) xs) = cstr xs"
  by (simp add: cstr_def takeWhile_eq_take [symmetric])

lemma cstr_zeros: "0 < k \<Longrightarrow> cstr (xs @ replicate k 0) = cstr xs"
  by (induction xs) (auto simp: cstr_def gr0_conv_Suc)

text \<open>
  C35: Of the packets a router could forward the receiver shows exactly those that are not sent to 224.0.0.18: their
  addresses, their length and their data up to the first zero byte, and a line behind them. Of any other packet it shows nothing
  but, if it is an IP packet that is too short, a complaint.
\<close>

theorem receiver_shows:
  assumes "length p < 2048" and "length m = 20"
  shows "receive_packet (Some m) (Some p) = Inr
    (if routable p then
       if dst_of p = ''224.0.0.18'' then []
       else [''Dest IP address: '' @ dst_of p, ''Source IP address: '' @ inet_ntoa (peek 26 4 p),
             ''TTL = '' @ dec_str (ucast (p ! 22)), printhdr ''Destination MAC: '' (peek 0 6 p),
             printhdr ''Source MAC: '' (peek 6 6 p), printhdr ''Protocol: '' (peek 12 2 p),
             ''Received packet of length : '' @ dec_str (of_nat (length p)), ''Data : '' @ str_of (drop 34 p),
             packet_rule]
     else if length p < 34 \<and> 14 \<le> length p \<and> un16 (p ! 13) (p ! 12) = ETH_P_IP
       \<or> length p = 13 \<and> un16 0 (p ! 12) = ETH_P_IP
     then [''IP packet does not have full header''] else [])"
proof -
  let ?b = "p @ replicate (2048 - length p) (0 :: u8)"
  have t: "take 2048 p = p" using assms(1) by simp
  have b: "poke 0 p (replicate 2048 0) = ?b" using packet_buffer [OF assms(1)] t by simp
  have n: "?b ! i = (if i < length p then p ! i else 0)" if "i < 2048" for i
    using that by (simp add: nth_append)
  have len: "(34 :: cint) \<le> of_nat (length p) \<longleftrightarrow> 34 \<le> length p"
    using short_len [OF assms(1)] by (metis not_less)
  have eth: "ETH_P_IP \<noteq> un16 0 0" by (simp add: un16_def)
  show ?thesis
  proof (cases "34 \<le> length p")
    case False
    have cs: "length p < 13 \<or> length p = 13 \<or> 14 \<le> length p" by linarith
    with False eth show ?thesis
      by (auto simp: receive_packet_def t Let_def b parseiphdr_def n len routable_def)
  next
    case True
    have pk: "peek i k ?b = peek i k p" if "i + k \<le> 34" for i k
      using that True by (intro peek_append_left) simp
    have l14: "(14 :: cint) < of_nat (length p)"
      using assms(1) True by (simp add: word_less_nat_alt unsigned_of_nat take_bit_nat_eq_self)
    have "sprintf 20 (dst_of p) = Inr (dst_of p)"
      using length_dotted [of "peek 30 4 p"] by (simp add: sprintf_def dst_of_def)
    moreover have "strlen (drop 34 ?b) = Inr (length (cstr (drop 34 ?b)))"
      using assms(1) by (simp add: strlen_def has_nul_def)
    moreover have "str_of (take (length (cstr (drop 34 ?b))) (drop 34 ?b)) = str_of (drop 34 p)"
    proof -
      have "cstr (drop 34 ?b) = cstr (drop 34 p)"
        using cstr_zeros [of "2048 - length p" "drop 34 p"] assms(1) True by simp
      with cstr_take [of "drop 34 ?b"] show ?thesis by (simp only: str_of_def)
    qed
    ultimately show ?thesis
      using True assms(2)
      by (auto simp: receive_packet_def t Let_def b parseiphdr_def n len routable_def get8_def pk dst_of_def
          deref_def parseethhdr_def l14 simp del: drop_append)
  qed
qed

theorem receiver_shows_witness:
  "receive_packet (Some (replicate 20 0)) (Some (demo_frame [224, 0, 0, 18])) = Inr [] \<and>
   (\<exists>lines. receive_packet (Some (replicate 20 0)) (Some (demo_frame [10, 0, 0, 1])) = Inr (lines @ [''Data : Hi'', packet_rule]))"
proof -
  have r: "routable (demo_frame [a, b, c, d])" for a b c d
    by (simp add: routable_def demo_frame_def nth_append ETH_P_IP_def un16_def)
  have l: "length (demo_frame [a, b, c, d]) < 2048" for a b c d by (simp add: demo_frame_def)
  have d: "dst_of (demo_frame [a, b, c, d]) = dotted [a, b, c, d]" for a b c d
    by (simp add: dst_of_def demo_frame_def peek_def)
  have a: "dotted [224, 0, 0, 18] = ''224.0.0.18''" "dotted [10, 0, 0, 1] \<noteq> ''224.0.0.18''"
    by (simp_all add: dotted_def nat_dec.simps char_of_eq_iff)
  have s: "str_of (drop 34 (demo_frame [10, 0, 0, 1])) = ''Hi''"
    by (simp add: demo_frame_def str_of_def cstr_def char_of_eq_iff)
  show ?thesis
    using receiver_shows [OF l, of "replicate 20 0" 224 0 0 18] receiver_shows [OF l, of "replicate 20 0" 10 0 0 1]
    by (simp add: r d a s)
qed

end
