(* ===== verification/Programs.thy ===== *)
theory Programs
  imports Creation Sender Receiver
begin

text \<open>
  The \<open>main\<close> functions, which put the parts of each program together, and the functions that print packets. A loop
  that does not end runs over the list of what arrives; what the system answers is an argument.
\<close>

section \<open>The daemon\<close>

text \<open>\<open>child\<close> is what \<open>fork\<close> answers.\<close>

definition make_daemon :: "cint \<Rightarrow> cint res" where
  "make_daemon child = (if child <s 0 then Inr (-1) else if child \<noteq> 0 then Inl (ProcessExit 0) else Inr 0)"

fun adm_rounds :: "cint \<Rightarrow> (poll_answer \<times> u8 list option) list \<Rightarrow> world \<Rightarrow> world res" where
  "adm_rounds admsock [] w = Inr w"
| "adm_rounds admsock ((answer, data) # polls) w =
     bnd (adm_thread_round admsock answer data w) (adm_rounds admsock polls)"

definition vrrpd_adm_thread :: "(poll_answer \<times> u8 list option) list \<Rightarrow> world \<Rightarrow> world res" where
  "vrrpd_adm_thread polls w =
     (let w = w\<lparr>netfds := replicate 16 \<lparr>fd_intf = replicate LIFNAMSIZ 0, s_send = 0, s_rcv = 0\<rparr>\<rparr> in
      bnd (setup_adm_socket w) (\<lambda>(admsock, w). adm_rounds admsock polls w))"

text \<open>The timer thread only handles signals; it is the loop of \<open>alarms\<close>.\<close>

definition vrrpd_main :: "cint \<Rightarrow> (poll_answer \<times> u8 list option) list \<Rightarrow> world \<Rightarrow> world res" where
  "vrrpd_main child polls w = bnd (make_daemon child) (\<lambda>_. vrrpd_adm_thread polls w)"

text \<open>The parent ends; when \<open>fork\<close> fails the daemon runs in the foreground.\<close>

lemma parent_exits: "0 <s child \<Longrightarrow> vrrpd_main child polls w = Inl (ProcessExit 0)"
  by (auto simp: vrrpd_main_def make_daemon_def word_sless_alt)

lemma fork_failure_ignored: "child <s 0 \<Longrightarrow> vrrpd_main child polls w = vrrpd_main 0 polls w"
  by (simp add: vrrpd_main_def make_daemon_def)

lemma adm_rounds_append:
  "adm_rounds s (ps @ qs) w = bnd (adm_rounds s ps w) (adm_rounds s qs)"
  by (induction ps arbitrary: w) (auto simp: bnd_assoc intro!: bnd_cong)

text \<open>The daemon polls its socket from the start, and an interrupted \<open>poll\<close> changes nothing.\<close>

lemma adm_thread_starts:
  assumes "pollfds w = []" and "no_oom w"
    and "\<not> socket_ret (os w) (trace w) <s 0" and "\<not> bind_ret (os w) (trace w @ [EvSocket 0]) <s 0"
  shows "\<exists>w'. vrrpd_adm_thread (replicate n (PollInterrupted, None)) w = Inr w' \<and>
    length (pollfds w') = 32 \<and> pfd_fd (pollfds w' ! 0) = socket_ret (os w) (trace w)"
proof -
  have i: "adm_rounds s (replicate n (PollInterrupted, None)) u = Inr u" for s u
    by (induction n) (simp_all add: adm_thread_round_def)
  show ?thesis
    using assms by (simp add: vrrpd_adm_thread_def setup_adm_socket_def poll_add_def find_fd_def poll_fds_def set_poll_intf_def
        i emit_def no_oom_def Let_def)
qed

section \<open>Printing packets\<close>

text \<open>\<open>while (len--)\<close> over the bytes, with two digits and a blank for each.\<close>

definition lower_hex :: "nat \<Rightarrow> char" where
  "lower_hex n = (if n < 10 then char_of (48 + n) else char_of (87 + n))"

definition print_hex :: "(nat \<Rightarrow> char) \<Rightarrow> u8 list \<Rightarrow> cint \<Rightarrow> string res" where
  "print_hex digit p len = loop (\<lambda>(len, i, acc).
     if len = 0 then Inr (Inr acc)
     else
       bnd (fetch i 1 p) (\<lambda>b.
       Inr (Inl (len - 1, i + 1, acc @ [digit (unat (hd b) div 16), digit (unat (hd b) mod 16), CHR '' '']))))
     (len, 0, [])"

definition PrintInHex :: "string \<Rightarrow> u8 list \<Rightarrow> cint \<Rightarrow> string res" where
  "PrintInHex mesg p len = map_sum id (\<lambda>s. mesg @ s) (print_hex upper_hex p len)"

definition PrintPacketInHex :: "u8 list \<Rightarrow> cint \<Rightarrow> string list res" where
  "PrintPacketInHex packet len = bnd (print_hex lower_hex packet len) (\<lambda>s.
     Inr [''---------Packet---Starts----'', s, ''--------Packet---Ends-----''])"

text \<open>receiver.c's \<open>printpkt\<close> and the daemon's \<open>PrintInHex\<close>, in vrrpd_adv.c, have the same text.\<close>

definition printpkt :: "u8 list \<Rightarrow> cint \<Rightarrow> string list res" where
  "printpkt packet len = bnd (print_hex lower_hex packet len) (\<lambda>s.
     Inr [''---------Packet---Starts----'', s, ''--------Packet---Ends-----''])"

definition PrintInHex_adv :: "string \<Rightarrow> u8 list \<Rightarrow> cint \<Rightarrow> string res" where
  "PrintInHex_adv mesg p len = map_sum id (\<lambda>s. mesg @ s) (print_hex upper_hex p len)"

definition ParseEthernetHeader_rt :: "u8 list \<Rightarrow> cint \<Rightarrow> string list res" where
  "ParseEthernetHeader_rt packet len =
     (if 14 < len then
        bnd (PrintInHex ''Destination MAC: '' (take 6 packet) 6) (\<lambda>a.
        bnd (PrintInHex ''Source MAC: '' (take 6 (drop 6 packet)) 6) (\<lambda>b.
        bnd (PrintInHex ''Protocol: '' (take 2 (drop 12 packet)) 2) (\<lambda>c. Inr [a, b, c])))
      else Inr [''Packet size too small !''])"

text \<open>The daemon's own printers, whose calls to print the addresses are commented out.\<close>

definition ParseEthernetHeader_adv :: "u8 list \<Rightarrow> cint \<Rightarrow> string list" where
  "ParseEthernetHeader_adv packet len = (if 14 < len then [[], [], []] else [''Packet size too small !''])"

text \<open>The protocol is read before the length is looked at. The two addresses are printed under each other's name.\<close>

definition eth_proto :: "u8 list \<Rightarrow> u16 res" where
  "eth_proto packet = bnd (fetch 12 2 packet) (\<lambda>b. Inr (un16 (b ! 1) (b ! 0)))"

definition ParseIPHeader_adv :: "u8 list \<Rightarrow> cint \<Rightarrow> string list res" where
  "ParseIPHeader_adv packet len =
     bnd (eth_proto packet) (\<lambda>proto.
     if proto = ETH_P_IP then
       if 34 \<le> len then
         bnd (fetch_int 26 packet) (\<lambda>saddr.
         bnd (fetch_int 30 packet) (\<lambda>daddr.
         bnd (fetch 22 1 packet) (\<lambda>ttl.
         Inr [''Dest IP address: '' @ dec_str saddr, ''Source IP address: '' @ dec_str daddr,
           ''TTL = '' @ dec_str (ucast (hd ttl))])))
       else Inr [''IP packet does not have full header'']
     else Inr [])"

text \<open>\<open>c\<close> is what the uninitialised variable of that name holds, which is taken for the checksum.\<close>

definition vrrp_lines :: "u8 list \<Rightarrow> string list" where
  "vrrp_lines p = map2 (\<lambda>s x. s @ dec_str x)
     [''Version: '', ''Type: '', ''ID: '', ''Priority: '', ''Number of IP addresses following: '',
      ''Authentication Type: '', ''Advertisment Interval: '', ''Value of Checksum: '']
     (map ucast (take 7 p) @ [ucast (un16 (p ! 8) (p ! 9))])"

definition ParseVRRPHeader_adv :: "u16 \<Rightarrow> u8 list \<Rightarrow> cint \<Rightarrow> string list res" where
  "ParseVRRPHeader_adv c packet len =
     bnd (eth_proto packet) (\<lambda>proto.
     if proto = ETH_P_IP then
       bnd (fetch 23 1 packet) (\<lambda>protocol.
       let line = ''iphdr proto: '' @ dec_str (ucast (hd protocol)) in
       if hd protocol = 112 then
         let line2 = ''iphdr proto: '' @ dec_str (ucast (un16 0 (hd protocol))) in
         if 44 \<le> len then
           bnd (fetch 34 sizeof_VRRP_PKT packet) (\<lambda>vrrppkt.
           Inr ([line, line2, ''VRRP header fields''] @ vrrp_lines vrrppkt @
             [if c = 0 then ''RECEIVED PACKET IS CORRECT(NOT CORRUPTED)''
              else ''RECEIVED PACKET IS INCORRECT(CORRUPTED)'']))
         else Inr [line, line2, ''VRRP packet does not have full header'']
       else Inr [line])
     else Inr [])"

section \<open>The copies of the checksum\<close>

text \<open>Each of the three programs has \<open>ComputeChecksum\<close> of vrrpd_adv.c again, with the same text.\<close>

definition ComputeChecksum_rt :: "u8 list \<Rightarrow> cint \<Rightarrow> u16 res" where
  "ComputeChecksum_rt data len = ComputeChecksum data len"

definition ComputeChecksum_snd :: "u8 list \<Rightarrow> cint \<Rightarrow> u16 res" where
  "ComputeChecksum_snd data len = ComputeChecksum data len"

definition ComputeChecksum_rcv :: "u8 list \<Rightarrow> cint \<Rightarrow> u16 res" where
  "ComputeChecksum_rcv data len = ComputeChecksum data len"

section \<open>The router\<close>

definition SIGINT_handler :: "unit res" where
  "SIGINT_handler = Inl (ProcessExit 0)"

text \<open>The answers of \<open>socket\<close>, \<open>setsockopt\<close> and \<open>bind\<close>, and what each round allocates and sends.\<close>

fun bcast_rounds :: "(u32 \<times> u8 list option) list \<Rightarrow> u8 list list res" where
  "bcast_rounds [] = Inr []"
| "bcast_rounds ((addr, m) # rounds) =
     bnd (bcast_payload addr m) (\<lambda>p. map_sum id (Cons p) (bcast_rounds rounds))"

definition SendBcastPacket :: "cint \<Rightarrow> cint \<Rightarrow> cint \<Rightarrow> (u32 \<times> u8 list option) list \<Rightarrow> u8 list list res" where
  "SendBcastPacket sockfd opt bound rounds =
     (if sockfd = -1 then Inl (ProcessExit 1)
      else if opt = -1 then Inl (ProcessExit 1)
      else if bound = -1 then Inl (ProcessExit 1)
      else bcast_rounds rounds)"

text \<open>For each round the allocations, what \<open>phy_dst\<close> held before, and the packet; \<open>None\<close> if \<open>recvfrom\<close> fails.\<close>

fun router_rounds :: "string \<Rightarrow> ((nat \<Rightarrow> nat \<Rightarrow> u8 list option) \<times> string \<times> u8 list option) list \<Rightarrow> u8 list list res" where
  "router_rounds phy_src [] = Inr []"
| "router_rounds phy_src ((mem, phy, pkt) # rounds) =
     (case pkt of None \<Rightarrow> router_rounds phy_src rounds
      | Some pkt \<Rightarrow>
          bnd (route_packet mem phy_src phy pkt) (\<lambda>packet.
          map_sum id (\<lambda>ps. case packet of None \<Rightarrow> ps | Some p \<Rightarrow> p # ps) (router_rounds phy_src rounds)))"

definition router_main ::
  "(nat \<Rightarrow> nat \<Rightarrow> u8 list option) \<Rightarrow> cint \<times> cint \<Rightarrow> string option \<Rightarrow> (cint \<times> cint) \<times> (cint \<times> cint) \<Rightarrow>
   ((nat \<Rightarrow> nat \<Rightarrow> u8 list option) \<times> string \<times> u8 list option) list \<Rightarrow> u8 list list res" where
  "router_main mem socks argv4 binds rounds =
     bnd (deref (mem 1 20)) (\<lambda>src_ip.
     bnd (deref (mem 0 20)) (\<lambda>src_eth.
     bnd (deref (mem 2 20)) (\<lambda>phy_src.
     bnd (CreateRawSocket (fst socks)) (\<lambda>raw_rcv.
     bnd (CreateRawSocket (snd socks)) (\<lambda>raw_snd.
     bnd (case argv4 of None \<Rightarrow> Inr ''aa:aa:aa:aa:aa:aa'' | Some mac \<Rightarrow> sprintf (length phy_src) mac) (\<lambda>phy_src.
     bnd (BindRawSocketToInterface (fst (fst binds)) (snd (fst binds))) (\<lambda>_.
     bnd (BindRawSocketToInterface (fst (snd binds)) (snd (snd binds))) (\<lambda>_.
     router_rounds phy_src rounds))))))))"

section \<open>The sender\<close>

text \<open>For each round what the user types, what \<open>dst_eth\<close> holds a second later, and what \<open>send\<close> answers.\<close>

fun sender_rounds :: "((nat \<Rightarrow> nat \<Rightarrow> u8 list option) \<times> string \<times> string \<times> string \<times> cint) list \<Rightarrow> u8 list list res" where
  "sender_rounds [] = Inr []"
| "sender_rounds ((mem, line, addr, found, sent) # rounds) =
     bnd (send_message mem line addr found) (\<lambda>packet.
     case packet of None \<Rightarrow> sender_rounds rounds
     | Some p \<Rightarrow> if sent = -1 then Inl (ProcessExit (-1)) else map_sum id (Cons p) (sender_rounds rounds))"

definition sender_main :: "cint \<Rightarrow> cint \<times> cint \<Rightarrow>
  ((nat \<Rightarrow> nat \<Rightarrow> u8 list option) \<times> string \<times> string \<times> string \<times> cint) list \<Rightarrow> u8 list list res" where
  "sender_main sd binds rounds =
     bnd (CreateRawSocket_snd sd) (\<lambda>rs.
     bnd (BindRawSocketToInterface_snd (fst binds) (snd binds)) (\<lambda>_. sender_rounds rounds))"

text \<open>The thread that listens, from what its buffer and \<open>dst_eth\<close> hold at first.\<close>

fun listen_rounds :: "(u8 list option \<times> u8 list option) list \<Rightarrow> u8 list \<times> string \<Rightarrow> (u8 list \<times> string) res" where
  "listen_rounds [] s = Inr s"
| "listen_rounds ((m, pkt) # rounds) s = bnd (acpt_dest_eth m pkt s) (listen_rounds rounds)"

definition acpt_thread :: "cint \<Rightarrow> cint \<times> cint \<Rightarrow> (u8 list option \<times> u8 list option) list \<Rightarrow>
  u8 list \<times> string \<Rightarrow> (u8 list \<times> string) res" where
  "acpt_thread sd binds rounds s =
     bnd (CreateRawSocket_snd sd) (\<lambda>raw.
     bnd (BindRawSocketToInterface_snd (fst binds) (snd binds)) (\<lambda>_. listen_rounds rounds s))"

section \<open>The receiver\<close>

fun receiver_rounds :: "(u8 list option \<times> u8 list option) list \<Rightarrow> string list res" where
  "receiver_rounds [] = Inr []"
| "receiver_rounds ((m, pkt) # rounds) =
     bnd (receive_packet m pkt) (\<lambda>shown. map_sum id (\<lambda>rest. shown @ rest) (receiver_rounds rounds))"

definition receiver_main :: "cint \<Rightarrow> cint \<times> cint \<Rightarrow> (u8 list option \<times> u8 list option) list \<Rightarrow> string list res" where
  "receiver_main rs binds rounds =
     bnd (createsock rs) (\<lambda>raw. bnd (bindsock (fst binds) (snd binds)) (\<lambda>_. receiver_rounds rounds))"

section \<open>What is printed, and how the programs end\<close>

lemma print_hex_from:
  assumes "n \<le> length p" and "n < 2 ^ 32" and "k \<le> n"
  shows "loop (\<lambda>(len, i, acc). if len = 0 then Inr (Inr acc)
     else bnd (fetch i 1 p) (\<lambda>b.
       Inr (Inl (len - 1, i + 1, acc @ [digit (unat (hd b) div 16), digit (unat (hd b) mod 16), CHR '' ''])))) (of_nat (n - k) :: cint, k, acc) =
    Inr (acc @ concat (map (\<lambda>b. [digit (unat b div 16), digit (unat b mod 16), CHR '' '']) (take (n - k) (drop k p))))"
  using assms(3)
proof (induction k arbitrary: acc rule: inc_induct)
  case base
  then show ?case by (subst loop_unfold) simp
next
  case (step k)
  have k: "k < length p" using step.hyps assms(1) by simp
  have "unat (of_nat (n - k) :: cint) = n - k"
    using assms(2) by (simp only: unsigned_of_nat of_nat_id) (rule take_bit_nat_eq_self, simp)
  then have nz: "of_nat (n - k) \<noteq> (0 :: cint)" using step.hyps by (metis unat_0 zero_less_diff less_numeral_extra(3))
  have m: "of_nat (n - k) - 1 = (of_nat (n - Suc k) :: cint)"
    using step.hyps by (simp add: Suc_diff_Suc [symmetric])
  have f: "fetch k 1 p = Inr [p ! k]" using k by (simp add: fetch_def peek_def take_Suc_conv_app_nth)
  have t: "take (n - k) (drop k p) = p ! k # take (n - Suc k) (drop (Suc k) p)"
    using k step.hyps by (simp add: Cons_nth_drop_Suc [symmetric] take_Cons' del: drop_Suc)
  show ?case
    by (subst loop_unfold) (use nz m f t step.IH in simp)
qed

lemma print_hex_eq:
  assumes "n \<le> length p" and "n < 2 ^ 32"
  shows "print_hex digit p (of_nat n) =
    Inr (concat (map (\<lambda>b. [digit (unat b div 16), digit (unat b mod 16), CHR '' '']) (take n p)))"
  using print_hex_from [OF assms, of 0 digit "[]"] by (simp add: print_hex_def)

text \<open>The router and the receiver print a header alike.\<close>

lemma PrintInHex_printhdr: "length p < 2 ^ 32 \<Longrightarrow> PrintInHex mesg p (of_nat (length p)) = Inr (printhdr mesg p)"
  using print_hex_eq [of "length p" p upper_hex] by (simp add: PrintInHex_def printhdr_def)

lemma router_long_mac:
  assumes "mem 0 20 = Some a" "mem 1 20 = Some b" "mem 2 20 = Some c" "length c = 20" and "fst socks \<noteq> -1" "snd socks \<noteq> -1"
    and "20 \<le> length mac"
  shows "router_main mem socks (Some mac) binds rounds = Inl BufferOverflow"
  using assms by (simp add: router_main_def deref_def CreateRawSocket_def sprintf_def)

lemma listen_append: "listen_rounds (xs @ ys) s = bnd (listen_rounds xs s) (listen_rounds ys)"
  by (induction xs arbitrary: s) (auto simp: bnd_assoc intro!: bnd_cong)

end
