(* ===== verification/Spec2Isabelle.thy ===== *)
theory Spec2Isabelle
  imports Cli Programs
begin

text \<open>
  A model of a VRRP implementation for Linux (RFC 3768 in outline) and its correctness, as far as it goes: where
  the code does not do what it means to, the theorems say what it does instead.

  \<^bold>\<open>The programs.\<close> \<open>vrrpd\<close> is the daemon (vrrpd.c, vrrpd_impl.c, vrrpd_adv.c, state.c, timer.c). It keeps a table of
  instances, each with one virtual router, and takes part in the election of a master for each: a master
  sends advertisements at an interval, a backup waits for them and takes over when they stay away, by starting
  the program \<open>router\<close> (router.c) with the virtual MAC address. \<open>vrrpadm\<close> (vrrpadm.c) reads commands from a
  terminal and sends them, through the client library (libvrrp.c), to the daemon's Unix socket. \<open>sender\<close>
  (sender.c) and \<open>receiver\<close> (receiver.c) send and show test messages.

  \<^bold>\<open>How they interact.\<close> The daemon has a loop that polls its sockets (\<open>vrrpd_adm_thread\<close>) and a handler of SIGALRM
  (\<open>signal_alarm\<close>). The loop gives commands to \<open>process_adm_sock\<close> and packets to \<open>process_vrrpd_sock\<close>. Both, and
  the handler, change the state of instances by the transitions of state.c, which put routers on the
  advertisement queue and take them off it, send advertisements and start and stop router processes. The queue is
  guarded by the mutex \<open>adv_q_lock\<close>.

  \<^bold>\<open>The state.\<close> The record \<open>world\<close> (VrrpTypes) is the process: a heap of virtual routers (\<open>vrrpd_vr_ds\<close>), a heap of
  instances (\<open>vrrpd_ds\<close>), the head of the queue, the mutex, \<open>flag\<close>, \<open>netfds\<close>, the poll tables, the
  allocator's next block and the list \<open>trace\<close> of the calls it made of the system. A pointer is \<open>None\<close> or a block
  number. What the system answers is \<open>os\<close>, functions of the trace, so that nothing is assumed of it but what a
  theorem says. A function returns \<open>Inr\<close> of its result, or \<open>Inl\<close> of the way the process stops: \<open>NullDeref\<close>,
  \<open>WildPointer\<close>, \<open>BufferOverflow\<close>, \<open>OutOfBounds\<close>, \<open>SelfDeadlock\<close>, \<open>Hang\<close> or \<open>ProcessExit\<close>. Machine integers have the
  widths of a 32-bit little-endian target and wrap around.

  \<^bold>\<open>The theories.\<close>
  \<^item> Prelude: outcomes and their weakest preconditions (\<open>returns\<close>, \<open>ensures\<close>), the loop combinator, bytes, buffers
    and C strings. CLib: \<open>strtol\<close>, \<open>inet_pton\<close>, \<open>inet_addr\<close>, \<open>ether_aton\<close>, \<open>ether_ntoa\<close>. Wire: codecs, as locales.
    DList: doubly linked lists on a heap, as a locale for both kinds of node. Demo: the concrete states of the
    examples.
  \<^item> VrrpTypes: vrrp.h, libvrrp.h, vrrpd_impl.h.
  \<^item> AdvQueue: the queue (\<open>vrrp_enqueue_impl\<close>, \<open>vrrp_dequeue\<close>, \<open>vrrp_rmqueue_impl\<close> of vrrpd_impl.c). A queue of one
    is what its client expects, by the locale \<open>timer_slot\<close>; a queue of two is not.
  \<^item> Advert: the packet of an advertisement, byte for byte (vrrpd_adv.c, \<open>vrrp_send_adv\<close> of vrrpd.c).
  \<^item> InstTable: creation, search, walk and attributes (vrrpd_impl.c). The invariant \<open>table\<close> is a doubly linked list
    in the order of the VRIDs; the searches are functions on that list (\<open>search_spec\<close>).
  \<^item> StateMachine: state.c. \<open>st_frame\<close> is what no transition touches; \<open>unit\<close>, \<open>moves\<close>, \<open>does\<close> and \<open>goes_down\<close> say
    what one does to an instance with its one router and to the queue.
  \<^item> Lifecycle: startup, shutdown and removal (vrrpd_impl.c) and the timer (timer.c).
  \<^item> AdmProto, Client, Display: the protocol, the client and the status display (libvrrp.c). Net: descriptors and
    the poll table. Daemon: commands and packets as they arrive (vrrpd.c).
  \<^item> Heard: what one daemon sends and another hears. Reach: the step relation of a daemon with one instance, and an
    invariant of every state that is reached before an instance is created or removed; a round of the main loop
    is made of its steps (\<open>round_reach\<close>). Creation: \<open>CREATE_INST\<close> on a daemon without an instance leaves that
    invariant (\<open>create_live\<close>), so it holds from there on.
  \<^item> Checksum, Router, Sender, Receiver: the other programs. Cli: vrrpadm.c. Programs: the \<open>main\<close> functions and
    the functions that print packets.

  \<^bold>\<open>What is shown.\<close> For each operation what it does on every branch; then
  \<^item> types and invariants: \<open>lone_daemon_sound\<close>, \<open>one_router_process\<close>, \<open>transitions_keep_table\<close>, \<open>create_inst_unique\<close>;
  \<^item> refinement and equivalence: \<open>poll_add_refines\<close> (a map), \<open>search_inst_complete\<close> (a list),
    \<open>checksum_is_internet_checksum\<close> (the sum in ones' complement);
  \<^item> round trips: a command through the socket, an advertisement through the network, a router through the queue,
    a line typed at the terminal through to the request;
  \<^item> liveness and termination: \<open>master_keeps_advertising\<close>, \<open>checksum_returns\<close>;
  \<^item> what goes out: \<open>advertised\<close> (Lifecycle) and \<open>quits\<close> (StateMachine) tie the packet to the state of the sender and to
    what \<open>setsockopt\<close> answered in that very call, since the code sends a packet only if that call fails;
  \<^item> bounds: the arrays that can be overrun, and by which input.

  \<^bold>\<open>Loops.\<close> A C loop is \<open>loop\<close>, defined by \<open>partial_function (option)\<close>; one that never ends is the outcome \<open>Hang\<close>. There
  is no fuel: that a loop ends is part of every theorem that says what it returns (rule \<open>loop_total\<close>, by a
  measure). The loops that serve for ever run over the list of what arrives.

  \<^bold>\<open>What is printed.\<close> Lines of text, without the prompt and the blank lines: all of them for the client, the command
  line tool, the receiver and the status display. Of \<open>router\<close> and \<open>sender\<close> only the packet printers are modelled.

  \<^bold>\<open>Undefined behaviour.\<close> A write past an allocation or an array is a fault, and the model goes no further; the
  program may. Where a theorem says \<open>Inl BufferOverflow\<close>, that the write happens is what it shows.

  \<^bold>\<open>Assumptions.\<close> The theorems of Reach leave out requests that create or remove an instance, and do not claim that the
  status display after each request survives: \<open>destroy_missing_crashes\<close> and \<open>display_overruns\<close> say when these crash, and
  \<open>destroy_backup_spec\<close> how a removal upsets the count of router processes. Theorems on the timer speak of an instance whose router is alone on the queue, or not on it. Where
  one assumes \<open>able w QSelf\<close>, \<open>ualarm\<close> answers -1, as it does for a second or more: intervals are whole
  seconds, and what is left out is an interval set to 0 or less by a modify request and a number of microseconds that
  wraps around to less than a million. Memory is assumed to be there where \<open>no_oom\<close> occurs.

  \<^bold>\<open>Not modelled.\<close> Threads that run at the same time, and a signal between two instructions of the main loop: handlers
  run one after the other. The mutex is there, so that taking it twice is a deadlock. Log messages,
  except those that index an array or are the purpose of a function. \<open>setsid\<close>, \<open>chdir\<close>, \<open>umask\<close>, the creation
  of threads, the Makefile and install.sh. IPv6, which the code refuses.
\<close>

end
